(* ===== verification/Prelude.thy ===== *)
theory Prelude
  imports Main "HOL-Library.Word" "HOL-Library.Multiset"
begin

text \<open>
  Shared vocabulary of the development: machine sizes and bytes, the library's error codes
  (\<^verbatim>\<open>error_code\<close> values of several categories), the exception raised by
  \<^verbatim>\<open>detail::throw_error\<close>, and the generic lemmas on lists that the components use.
\<close>

section \<open>Bytes and sizes\<close>

type_synonym u8 = "8 word"
type_synonym u16 = "16 word"
type_synonym u32 = "32 word"
type_synonym bytes = "u8 list"

text \<open>
  \<^verbatim>\<open>std::size_t\<close> is 64 bits wide. Sizes are natural numbers; the operations that may
  wrap around in the source use the operations below, which write the wrap-around out.
\<close>

definition size_max :: nat where
  "size_max = 2 ^ 64 - 1"

definition sz_add :: "nat \<Rightarrow> nat \<Rightarrow> nat" where
  "sz_add a b = (a + b) mod 2 ^ 64"

definition sz_sub :: "nat \<Rightarrow> nat \<Rightarrow> nat" where
  "sz_sub a b = (a + 2 ^ 64 - b) mod 2 ^ 64"

definition sz_mul :: "nat \<Rightarrow> nat \<Rightarrow> nat" where
  "sz_mul a b = (a * b) mod 2 ^ 64"

lemma sz_add_id [simp]: "a + b \<le> size_max \<Longrightarrow> sz_add a b = a + b"
  by (simp add: sz_add_def size_max_def)

lemma sz_sub_id [simp]:
  assumes "b \<le> a" and "a \<le> size_max"
  shows "sz_sub a b = a - b"
proof -
  have "a + 2 ^ 64 - b = (a - b) + 2 ^ 64" using assms(1) by simp
  moreover have "a - b < 2 ^ 64" using assms(2) by (simp add: size_max_def)
  ultimately show ?thesis unfolding sz_sub_def by (metis mod_add_self2 mod_less)
qed

lemma sz_mul_id: "a * b \<le> size_max \<Longrightarrow> sz_mul a b = a * b"
  by (simp add: sz_mul_def size_max_def)

section \<open>Error codes\<close>

text \<open>
  An \<^verbatim>\<open>error_code\<close> is a value in a category. Each constructor below is one category
  with the values the sources use; \<open>ec_failed\<close> is the conversion to \<^verbatim>\<open>bool\<close>
  (value different from zero).
\<close>

datatype url_error =
    url_none
  | invalid_character
  | missing_host
  | port_overflow

datatype socks_error =
    socks_none
  | invalid_version
  | no_acceptable_auth_method
  | invalid_auth_version
  | login_failed
  | command_not_supported
  | identd_not_reachable
  | generic

datatype asio_error =
    eof
  | already_open
  | already_started
  | bad_descriptor
  | operation_aborted
  | operation_not_supported
  | no_memory
  | invalid_argument
  | message_size
  | no_permission
  | network_unreachable
  | host_unreachable
  | host_not_found
  | not_found
  | connection_refused
  | timed_out
  | address_family_not_supported

datatype errc = value_too_large

datatype error_code =
    no_error
  | ec_system nat
  | ec_asio asio_error
  | ec_generic errc
  | ec_url url_error
  | ec_socks socks_error

fun ec_failed :: "error_code \<Rightarrow> bool" where
  "ec_failed no_error = False"
| "ec_failed (ec_system e) = (e \<noteq> 0)"
| "ec_failed (ec_asio e) = True"
| "ec_failed (ec_generic e) = True"
| "ec_failed (ec_url e) = (e \<noteq> url_none)"
| "ec_failed (ec_socks e) = (e \<noteq> socks_none)"

section \<open>Exceptions\<close>

datatype cxx_exception =
    system_error error_code string
  | length_error
  | bad_function_call

text \<open>
  \<^verbatim>\<open>detail::throw_error(ec, location)\<close>: raise when the code is set, otherwise go on
  with the value computed so far.
\<close>

definition throw_error :: "error_code \<Rightarrow> string \<Rightarrow> 'a \<Rightarrow> cxx_exception + 'a" where
  "throw_error ec location v = (if ec_failed ec then Inl (system_error ec location) else Inr v)"

lemma throw_error_cases:
  "throw_error ec loc v = Inr w \<longleftrightarrow> \<not> ec_failed ec \<and> w = v"
  "throw_error ec loc v = Inl x \<longleftrightarrow> ec_failed ec \<and> x = system_error ec loc"
  by (auto simp: throw_error_def)

text \<open>
  Sequencing of computations that may throw (the sum) or have no defined result (the option).
\<close>

definition ebind ::
    "(cxx_exception + 'a) option \<Rightarrow> ('a \<Rightarrow> (cxx_exception + 'b) option) \<Rightarrow> (cxx_exception + 'b) option" where
  "ebind r f = (case r of None \<Rightarrow> None | Some (Inl e) \<Rightarrow> Some (Inl e) | Some (Inr v) \<Rightarrow> f v)"

lemma ebind_simps [simp]:
  "ebind None f = None"
  "ebind (Some (Inl e)) f = Some (Inl e)"
  "ebind (Some (Inr v)) f = f v"
  by (simp_all add: ebind_def)

section \<open>Lists\<close>

lemma take_drop_split:
  "i \<le> j \<Longrightarrow> j \<le> length xs \<Longrightarrow> take i xs @ take (j - i) (drop i xs) @ drop j xs = xs"
  by (metis append_take_drop_id drop_drop le_add_diff_inverse2)

lemma span_stop:
  assumes "\<forall>x \<in> set w. P x" and "r = [] \<or> \<not> P (hd r)"
  shows "takeWhile P (w @ r) = w" and "dropWhile P (w @ r) = r"
  using assms by (cases r; simp add: takeWhile_append2 dropWhile_append2)+

lemma nth_Cons_drop: "i < length xs \<Longrightarrow> xs ! i # drop (Suc i) xs = drop i xs"
  by (rule Cons_nth_drop_Suc)

end
