(* ===== verification/UrlParser.thy ===== *)
theory UrlParser
  imports Prelude
begin

text \<open>
  \<^verbatim>\<open>detail/url_parser.hpp\<close> and \<^verbatim>\<open>detail/impl/url_parser.cpp\<close>: the character
  classes, the URL automaton \<open>get_state_for\<close>, the pointer loop of \<open>parse_url\<close> and the
  authority parser \<open>parse_authority\<close>. A \<^verbatim>\<open>std::string_view\<close> into the parsed text is
  a pair (offset, length); pointers into the text are offsets. The default constructed view is
  \<open>(0, 0)\<close>.
\<close>

unbundle bit_operations_syntax

section \<open>Character classes\<close>

text \<open>The value of a character as \<^verbatim>\<open>unsigned char\<close>.\<close>

abbreviation uchar :: "char \<Rightarrow> nat" where
  "uchar c \<equiv> of_char c"

definition isalpha_ascii :: "char \<Rightarrow> bool" where
  "isalpha_ascii c = (let ch = uchar c OR 32 in ch \<le> 122 \<and> 97 \<le> ch)"

definition isalnum_ascii :: "char \<Rightarrow> bool" where
  "isalnum_ascii c = (isalpha_ascii c \<or> (48 \<le> uchar c \<and> uchar c \<le> 57))"

definition isspace_ascii :: "char \<Rightarrow> bool" where
  "isspace_ascii c = (c \<in> {CHR '' '', CHR 0x0C, CHR 0x0A, CHR 0x0D, CHR 0x09, CHR 0x0B})"

definition is_mark :: "char \<Rightarrow> bool" where
  "is_mark c = (c \<in> {CHR ''-'', CHR ''_'', CHR ''.'', CHR ''!'', CHR ''~'', CHR ''*'',
                      CHR 0x27, CHR ''('', CHR '')''})"

definition is_user_char :: "char \<Rightarrow> bool" where
  "is_user_char c =
     (c \<in> {CHR ''%'', CHR '';'', CHR '':'', CHR ''&'', CHR ''='', CHR ''+'', CHR ''$'', CHR '',''}
      \<or> isalnum_ascii c \<or> is_mark c)"

definition is_hex :: "char \<Rightarrow> bool" where
  "is_hex c =
     (let ch_lower = uchar c OR 32
      in (48 \<le> uchar c \<and> uchar c \<le> 57) \<or> (97 \<le> ch_lower \<and> ch_lower \<le> 102))"

text \<open>The \<^verbatim>\<open>switch\<close> of the source, its labels in their order (by code).\<close>

definition url_char_labels :: "nat list" where
  "url_char_labels =
     [9, 12, 33, 34, 36, 37, 38, 39, 40, 41, 42, 43, 44, 45, 46, 47,
      48, 49, 50, 51, 52, 53, 54, 55, 56, 57, 58, 59, 60, 61, 62, 64,
      65, 66, 67, 68, 69, 70, 71, 72, 73, 74, 75, 76, 77, 78, 79, 80, 81, 82, 83, 84, 85, 86, 87, 88, 89, 90,
      91, 92, 93, 94, 95, 96,
      97, 98, 99, 100, 101, 102, 103, 104, 105, 106, 107, 108, 109, 110, 111, 112, 113, 114, 115, 116, 117,
      118, 119, 120, 121, 122, 123, 124, 125, 126]"

definition is_url_char :: "char \<Rightarrow> bool" where
  "is_url_char c = (uchar c \<in> set url_char_labels)"


section \<open>What the character classes accept\<close>

lemma or_exp: "(n::nat) OR 2 ^ k = (if bit n k then n else n + 2 ^ k)"
proof (cases "bit n k")
  case True
  then have "n OR 2 ^ k = n" by (intro bit_eqI) (auto simp: bit_or_iff bit_exp_iff)
  then show ?thesis using True by simp
next
  case False
  then have "n AND 2 ^ k = 0" by (intro bit_eqI) (auto simp: bit_and_iff bit_exp_iff)
  then have "n + 2 ^ k = n OR 2 ^ k" by (rule disjunctive_add_eq_or)
  then show ?thesis using False by simp
qed

lemma or_32: "(n::nat) OR 32 = (if odd (n div 32) then n else n + 32)"
  using or_exp [of n 5] by (simp add: bit_iff_odd)

lemma or_32_range:
  fixes n a b :: nat
  assumes "96 < a" and "b < 128"
  shows "(a \<le> n OR 32 \<and> n OR 32 \<le> b) = (a \<le> n \<and> n \<le> b \<or> a \<le> n + 32 \<and> n + 32 \<le> b)"
proof -
  define q where "q = n div 32"
  have n: "32 * q \<le> n" "n < 32 * q + 32" by (simp_all add: q_def)
  consider "q = 0" | "q = 1" | "q = 2" | "q = 3" | "4 \<le> q" by linarith
  then show ?thesis
  proof cases
    case 5
    then have "128 \<le> n" using n by linarith
    then show ?thesis using assms by (auto simp: or_32)
  qed (use n assms in \<open>simp_all add: or_32 q_def [symmetric]\<close>)
qed

lemma isalpha_iff:
  "isalpha_ascii c \<longleftrightarrow> (65 \<le> uchar c \<and> uchar c \<le> 90 \<or> 97 \<le> uchar c \<and> uchar c \<le> 122)"
  using or_32_range [of 97 122 "uchar c"] by (auto simp: isalpha_ascii_def Let_def)

lemma isalnum_iff:
  "isalnum_ascii c \<longleftrightarrow> (48 \<le> uchar c \<and> uchar c \<le> 57 \<or> 65 \<le> uchar c \<and> uchar c \<le> 90 \<or>
     97 \<le> uchar c \<and> uchar c \<le> 122)"
  by (auto simp: isalnum_ascii_def isalpha_iff)

lemma is_hex_iff:
  "is_hex c \<longleftrightarrow> (48 \<le> uchar c \<and> uchar c \<le> 57 \<or> 65 \<le> uchar c \<and> uchar c \<le> 70 \<or>
     97 \<le> uchar c \<and> uchar c \<le> 102)"
  using or_32_range [of 97 102 "uchar c"] by (auto simp: is_hex_def Let_def)

lemma url_char_labels_ranges: "url_char_labels = 9 # 12 # 33 # 34 # [36..<63] @ [64..<127]"
  by (simp add: url_char_labels_def)

lemma is_url_char_iff:
  "is_url_char c \<longleftrightarrow> uchar c = 9 \<or> uchar c = 12 \<or>
     (33 \<le> uchar c \<and> uchar c \<le> 126 \<and> uchar c \<noteq> 35 \<and> uchar c \<noteq> 63)"
  unfolding is_url_char_def url_char_labels_ranges set_simps set_append set_upt by auto

lemma char_eq_code: "c = d \<longleftrightarrow> uchar c = uchar d"
  by (simp add: of_char_eq_iff)

lemma mem_chars:
  "c \<in> {} \<longleftrightarrow> False" "c \<in> insert d A \<longleftrightarrow> c = d \<or> c \<in> A"
  by auto

text \<open>The characters of each class, as facts about codes.\<close>

lemmas char_class_iff = is_user_char_def is_mark_def isalnum_iff isalpha_iff is_hex_iff
  is_url_char_iff mem_chars char_eq_code

section \<open>Data\<close>

datatype url_state =
    st_invalid
  | st_initial
  | st_scheme
  | st_scheme_suffix
  | st_scheme_suffix_slash
  | st_authority_start
  | st_authority
  | st_authority_with_at
  | st_path_after_scheme
  | st_path
  | st_query_string_start
  | st_query_string
  | st_fragment_start
  | st_fragment

type_synonym view = "nat \<times> nat"

abbreviation empty_view :: view where
  "empty_view \<equiv> (0, 0)"

text \<open>The text a view denotes, relative to the parsed text.\<close>

definition sv :: "string \<Rightarrow> view \<Rightarrow> string" where
  "sv spec v = take (snd v) (drop (fst v) spec)"

record parsed_url =
  scheme :: view
  userinfo :: view
  host :: view
  port :: view
  path :: view
  query :: view
  fragment :: view
  port_value :: nat

definition parsed_url_init :: parsed_url where
  "parsed_url_init =
     \<lparr>scheme = empty_view, userinfo = empty_view, host = empty_view, port = empty_view,
      path = empty_view, query = empty_view, fragment = empty_view, port_value = 0\<rparr>"

section \<open>The authority parser\<close>

definition max_port_digits :: nat where
  "max_port_digits = 5"

text \<open>
  Pointers are offsets into the text \<open>spec\<close>; \<open>lst\<close> is at most its length and every
  read below is guarded by \<open>first < lst\<close>, as in the source.
\<close>

function skip_userinfo :: "string \<Rightarrow> nat \<Rightarrow> nat \<Rightarrow> nat" where
  "skip_userinfo spec first lst =
     (if first < lst \<and> is_user_char (spec ! first) then skip_userinfo spec (Suc first) lst
      else first)"
  by pat_completeness auto
termination
  by (relation "measure (\<lambda>(spec, first, lst). lst - first)") auto

text \<open>The \<open>for\<close> loop over a bracketed host; \<open>None\<close> is its error return.\<close>

function bracket_host :: "string \<Rightarrow> nat \<Rightarrow> nat \<Rightarrow> bool \<Rightarrow> nat option" where
  "bracket_host spec first lst is_zone_spec =
     (if first < lst then
        let ch = spec ! first in
        if is_zone_spec \<and>
           (isalnum_ascii ch \<or> ch = CHR ''%'' \<or> ch = CHR ''.'' \<or> ch = CHR ''-'' \<or>
            ch = CHR ''_'' \<or> ch = CHR ''~'')
        then bracket_host spec (Suc first) lst is_zone_spec
        else if \<not> is_zone_spec \<and> (is_hex ch \<or> ch = CHR '':'' \<or> ch = CHR ''.'')
        then bracket_host spec (Suc first) lst is_zone_spec
        else if ch = CHR ''%'' \<and> lst - first > 3 \<and>
                spec ! (first + 1) = CHR ''2'' \<and> spec ! (first + 2) = CHR ''5''
        then bracket_host spec (Suc (first + 2)) lst True
        else if ch = CHR '']'' then Some (Suc first)
        else None
      else Some first)"
  by pat_completeness auto
termination
  by (relation "measure (\<lambda>(spec, first, lst, z). lst - first)") auto

function plain_host :: "string \<Rightarrow> nat \<Rightarrow> nat \<Rightarrow> nat option" where
  "plain_host spec first lst =
     (if first < lst then
        let ch = spec ! first in
        if isalnum_ascii ch \<or> ch = CHR ''.'' \<or> ch = CHR ''-'' \<or> ch = CHR ''_''
        then plain_host spec (Suc first) lst
        else if ch = CHR '':'' then Some first
        else None
      else Some first)"
  by pat_completeness auto
termination
  by (relation "measure (\<lambda>(spec, first, lst). lst - first)") auto

text \<open>
  The digit loop: at most \<open>max_port_digits\<close> digits, so the 32 bit accumulator stays
  below 100000 and cannot wrap. \<open>None\<close> is the error return for a character that is no digit.
\<close>

function port_digits :: "string \<Rightarrow> nat \<Rightarrow> nat \<Rightarrow> nat \<Rightarrow> nat \<Rightarrow> (nat \<times> nat) option" where
  "port_digits spec first lst num_digits p =
     (if first < lst \<and> num_digits < max_port_digits then
        let ch = uchar (spec ! first) in
        if ch < 48 \<or> ch > 57 then None
        else port_digits spec (Suc first) lst (Suc num_digits) (p * 10 + (ch - 48))
      else Some (first, p))"
  by pat_completeness auto
termination
  by (relation "measure (\<lambda>(spec, first, lst, n, p). lst - first)") auto

declare skip_userinfo.simps [simp del] bracket_host.simps [simp del]
  plain_host.simps [simp del] port_digits.simps [simp del]

text \<open>The port section, entered when the host loop stopped before \<open>lst\<close>.\<close>

definition parse_port :: "string \<Rightarrow> nat \<Rightarrow> nat \<Rightarrow> parsed_url \<Rightarrow> error_code \<Rightarrow> parsed_url \<times> error_code" where
  "parse_port spec first lst out ec =
     (if spec ! first = CHR '':'' then
        (let start = Suc first in
         case port_digits spec start lst 0 0 of
           None \<Rightarrow> (out, ec_url invalid_character)
         | Some (first', p) \<Rightarrow>
             if p > 0xffff \<or> first' \<noteq> lst then (out, ec_url port_overflow)
             else (out\<lparr>port := (start, first' - start), port_value := p mod 2 ^ 16\<rparr>, ec))
      else (out, ec_url invalid_character))"

text \<open>The host section.\<close>

definition parse_host :: "string \<Rightarrow> nat \<Rightarrow> nat \<Rightarrow> parsed_url \<Rightarrow> error_code \<Rightarrow> parsed_url \<times> error_code" where
  "parse_host spec first lst out ec =
     (if first = lst then (out, ec_url missing_host)
      else
        case (if spec ! first = CHR ''['' then bracket_host spec (Suc first) lst False
              else plain_host spec first lst) of
          None \<Rightarrow> (out, ec_url invalid_character)
        | Some first' \<Rightarrow>
            (let out' = out\<lparr>host := (first, first' - first)\<rparr> in
             if first' = lst then (out', ec) else parse_port spec first' lst out' ec))"

definition parse_authority ::
    "string \<Rightarrow> nat \<Rightarrow> nat \<Rightarrow> bool \<Rightarrow> parsed_url \<Rightarrow> error_code \<Rightarrow> parsed_url \<times> error_code" where
  "parse_authority spec first lst has_userinfo out ec =
     (if has_userinfo then
        (let start = first; first' = skip_userinfo spec first lst in
         if first' = lst \<or> spec ! first' \<noteq> CHR ''@'' then (out, ec_url invalid_character)
         else parse_host spec (Suc first') lst
                (out\<lparr>userinfo := (start, first' - start)\<rparr>) ec)
      else parse_host spec first lst out ec)"

section \<open>The URL automaton\<close>

fun get_state_for :: "url_state \<Rightarrow> char \<Rightarrow> url_state" where
  "get_state_for st_initial ch =
     (if ch = CHR ''/'' \<or> ch = CHR ''*'' then st_path
      else if isalpha_ascii ch then st_scheme
      else st_invalid)"
| "get_state_for st_scheme ch =
     (if isalnum_ascii ch \<or> ch = CHR ''+'' \<or> ch = CHR ''-'' \<or> ch = CHR ''.'' then st_scheme
      else if ch = CHR '':'' then st_scheme_suffix
      else st_invalid)"
| "get_state_for st_scheme_suffix ch =
     (if ch = CHR ''/'' then st_scheme_suffix_slash
      else if is_url_char ch then st_path
      else st_invalid)"
| "get_state_for st_scheme_suffix_slash ch =
     (if ch = CHR ''/'' then st_authority_start
      else if is_url_char ch then st_path_after_scheme
      else st_invalid)"
| "get_state_for st_authority_with_at ch =
     (if ch = CHR ''@'' then st_invalid
      else if ch = CHR ''/'' then st_path
      else if ch = CHR ''?'' then st_query_string_start
      else if ch = CHR ''['' \<or> ch = CHR '']'' then st_authority
      else if is_user_char ch then st_authority
      else st_invalid)"
| "get_state_for st_authority_start ch =
     (if ch = CHR ''/'' then st_path
      else if ch = CHR ''?'' then st_query_string_start
      else if ch = CHR ''@'' then st_authority_with_at
      else if ch = CHR ''['' \<or> ch = CHR '']'' then st_authority
      else if is_user_char ch then st_authority
      else st_invalid)"
| "get_state_for st_authority ch =
     (if ch = CHR ''/'' then st_path
      else if ch = CHR ''?'' then st_query_string_start
      else if ch = CHR ''@'' then st_authority_with_at
      else if ch = CHR ''['' \<or> ch = CHR '']'' then st_authority
      else if is_user_char ch then st_authority
      else st_invalid)"
| "get_state_for st_path_after_scheme ch =
     (if is_url_char ch then st_path
      else if ch = CHR ''?'' then st_query_string_start
      else if ch = CHR ''#'' then st_fragment_start
      else st_invalid)"
| "get_state_for st_path ch =
     (if is_url_char ch then st_path
      else if ch = CHR ''?'' then st_query_string_start
      else if ch = CHR ''#'' then st_fragment_start
      else st_invalid)"
| "get_state_for st_query_string_start ch =
     (if is_url_char ch then st_query_string
      else if ch = CHR ''?'' then st_query_string
      else if ch = CHR ''#'' then st_fragment_start
      else st_invalid)"
| "get_state_for st_query_string ch =
     (if is_url_char ch then st_query_string
      else if ch = CHR ''?'' then st_query_string
      else if ch = CHR ''#'' then st_fragment_start
      else st_invalid)"
| "get_state_for st_fragment_start ch =
     (if is_url_char ch \<or> ch = CHR ''?'' then st_fragment
      else if ch = CHR ''#'' then st_fragment_start
      else st_invalid)"
| "get_state_for st_fragment ch =
     (if is_url_char ch then st_fragment
      else if ch = CHR ''?'' \<or> ch = CHR ''#'' then st_fragment
      else st_invalid)"
| "get_state_for st_invalid ch = st_invalid"

text \<open>
  \<open>part_from_state\<close> returns a pointer to one member of the result or null: the member is
  named by a constructor.
\<close>

datatype url_part = part_scheme | part_host | part_path | part_query | part_fragment

fun part_from_state :: "url_state \<Rightarrow> url_part option" where
  "part_from_state st_scheme = Some part_scheme"
| "part_from_state st_authority = Some part_host"
| "part_from_state st_authority_with_at = Some part_host"
| "part_from_state st_path_after_scheme = Some part_path"
| "part_from_state st_path = Some part_path"
| "part_from_state st_query_string = Some part_query"
| "part_from_state st_fragment = Some part_fragment"
| "part_from_state _ = None"

fun set_part :: "url_part option \<Rightarrow> view \<Rightarrow> parsed_url \<Rightarrow> parsed_url" where
  "set_part None v out = out"
| "set_part (Some part_scheme) v out = out\<lparr>scheme := v\<rparr>"
| "set_part (Some part_host) v out = out\<lparr>host := v\<rparr>"
| "set_part (Some part_path) v out = out\<lparr>path := v\<rparr>"
| "set_part (Some part_query) v out = out\<lparr>query := v\<rparr>"
| "set_part (Some part_fragment) v out = out\<lparr>fragment := v\<rparr>"

lemma path_after_scheme_only_after_slash:
  "get_state_for s ch = st_path_after_scheme \<Longrightarrow> s = st_scheme_suffix_slash"
  by (cases s) (auto split: if_splits)

section \<open>The parser loop\<close>

text \<open>
  One iteration of the loop of \<open>parse_url\<close>: the \<open>switch\<close> rewinds \<open>it\<close> by one in the
  state \<open>path_after_scheme\<close>, then a change of part closes the current view. The loop's
  locals are a record. The loop returns either at the first invalid character, with the code, or
  at the end of the text, and hands its locals on.
\<close>

record parse_state =
  ps_state :: url_state
  ps_it :: nat
  ps_first :: nat
  ps_part :: "url_part option"
  ps_has_userinfo :: bool
  ps_out :: parsed_url

definition parse_step :: "url_state \<Rightarrow> parse_state \<Rightarrow> parse_state" where
  "parse_step s ps =
     (let it = (if s = st_path_after_scheme then ps_it ps - 1 else ps_it ps);
          hu = (if s = st_authority_with_at then True else ps_has_userinfo ps);
          part = part_from_state s
      in if part \<noteq> ps_part ps
         then ps\<lparr>ps_state := s, ps_it := Suc it, ps_has_userinfo := hu,
                 ps_out := set_part (ps_part ps) (ps_first ps, it - ps_first ps) (ps_out ps),
                 ps_part := part, ps_first := it\<rparr>
         else ps\<lparr>ps_state := s, ps_it := Suc it, ps_has_userinfo := hu\<rparr>)"

function parse_loop :: "string \<Rightarrow> parse_state \<Rightarrow> error_code \<times> parse_state" where
  "parse_loop spec ps =
     (if ps_it ps < length spec then
        (let s = get_state_for (ps_state ps) (spec ! ps_it ps) in
         if s = st_invalid then (ec_url invalid_character, ps)
         else parse_loop spec (parse_step s ps))
      else (no_error, ps))"
  by pat_completeness auto
termination
  by (relation "measures [\<lambda>(spec, ps). length spec - ps_it ps,
        \<lambda>(spec, ps). if ps_state ps = st_path_after_scheme then 0 else 1]")
     (auto simp: parse_step_def Let_def dest: path_after_scheme_only_after_slash)

declare parse_loop.simps [simp del]

definition parse_init :: "parsed_url \<Rightarrow> parse_state" where
  "parse_init out =
     \<lparr>ps_state = st_initial, ps_it = 0, ps_first = 0, ps_part = None,
      ps_has_userinfo = False, ps_out = out\<rparr>"

definition parse_url :: "string \<Rightarrow> parsed_url \<Rightarrow> parsed_url \<times> error_code" where
  "parse_url spec out =
     (case parse_loop spec (parse_init out) of
        (e, ps) \<Rightarrow>
          if e \<noteq> no_error then (ps_out ps, e)
          else
            (let out' = set_part (ps_part ps) (ps_first ps, ps_it ps - ps_first ps) (ps_out ps) in
             if snd (host out') \<noteq> 0
             then parse_authority spec (fst (host out')) (fst (host out') + snd (host out'))
                    (ps_has_userinfo ps) out' no_error
             else (out', no_error)))"

end
