(* ===== verification/UrlSpec.thy ===== *)
theory UrlSpec
  imports UrlParser
begin

text \<open>
  The specification of \<^verbatim>\<open>detail::parse_url\<close>: a splitter on strings, written with
  \<open>takeWhile\<close> and \<open>dropWhile\<close>, that has neither pointers nor a rewind, and the proof
  that the loop of the source computes it. It also holds the bounds of the result's views and the
  round trip from the components of a URL to its text and back.
\<close>

section \<open>The splitter\<close>

record url_text =
  t_scheme :: string
  t_userinfo :: string
  t_host :: string
  t_port :: string
  t_path :: string
  t_query :: string
  t_fragment :: string
  t_port_value :: nat

definition no_text :: url_text where
  "no_text = \<lparr>t_scheme = [], t_userinfo = [], t_host = [], t_port = [], t_path = [],
              t_query = [], t_fragment = [], t_port_value = 0\<rparr>"

definition is_scheme_char :: "char \<Rightarrow> bool" where
  "is_scheme_char c = (isalnum_ascii c \<or> c = CHR ''+'' \<or> c = CHR ''-'' \<or> c = CHR ''.'')"

definition is_authority_char :: "char \<Rightarrow> bool" where
  "is_authority_char c = (is_user_char c \<or> c = CHR ''['' \<or> c = CHR '']'' \<or> c = CHR ''@'')"

definition is_query_char :: "char \<Rightarrow> bool" where
  "is_query_char c = (is_url_char c \<or> c = CHR ''?'')"

definition is_fragment_char :: "char \<Rightarrow> bool" where
  "is_fragment_char c = (is_url_char c \<or> c = CHR ''?'' \<or> c = CHR ''#'')"

text \<open>No two \<open>@\<close> in a row (the flag: the character before was one).\<close>

fun at_ok :: "bool \<Rightarrow> string \<Rightarrow> bool" where
  "at_ok p [] = True"
| "at_ok p (c # cs) = (\<not> (p \<and> c = CHR ''@'') \<and> at_ok (c = CHR ''@'') cs)"

type_synonym 'a url_result = "error_code + 'a"

abbreviation bad_char :: "'a url_result" where
  "bad_char \<equiv> Inl (ec_url invalid_character)"

definition split_fragment :: "string \<Rightarrow> url_text \<Rightarrow> url_text url_result" where
  "split_fragment s t =
     (let f = dropWhile (\<lambda>c. c = CHR ''#'') s in
      if \<forall>c \<in> set f. is_fragment_char c then Inr (t\<lparr>t_fragment := f\<rparr>) else bad_char)"

definition split_query :: "string \<Rightarrow> url_text \<Rightarrow> url_text url_result" where
  "split_query s t =
     (let t' = t\<lparr>t_query := takeWhile is_query_char s\<rparr> in
      case dropWhile is_query_char s of
        [] \<Rightarrow> Inr t'
      | c # r \<Rightarrow> if c = CHR ''#'' then split_fragment r t' else bad_char)"

definition split_path :: "string \<Rightarrow> url_text \<Rightarrow> url_text url_result" where
  "split_path s t =
     (let t' = t\<lparr>t_path := takeWhile is_url_char s\<rparr> in
      case dropWhile is_url_char s of
        [] \<Rightarrow> Inr t'
      | c # r \<Rightarrow> if c = CHR ''?'' then split_query r t'
                else if c = CHR ''#'' then split_fragment r t' else bad_char)"

text \<open>
  After \<open>://\<close>. The flag says whether the authority holds a \<open>@\<close>; it is the second
  component of the result. A fragment directly behind the authority is refused.
\<close>

definition split_authority :: "string \<Rightarrow> url_text \<Rightarrow> (bool \<times> url_text) url_result" where
  "split_authority s t =
     (let a = takeWhile is_authority_char s; t' = t\<lparr>t_host := a\<rparr>; r = dropWhile is_authority_char s in
      if \<not> at_ok False a then bad_char
      else map_sum id (Pair (CHR ''@'' \<in> set a))
        (case r of
           [] \<Rightarrow> Inr t'
         | c # r' \<Rightarrow> if c = CHR ''/'' then split_path r t'
                   else if c = CHR ''?'' then split_query r' t' else bad_char))"

definition split_url :: "string \<Rightarrow> (bool \<times> url_text) url_result" where
  "split_url s =
     (case s of
        [] \<Rightarrow> Inr (False, no_text)
      | c # _ \<Rightarrow>
          if c = CHR ''/'' \<or> c = CHR ''*'' then map_sum id (Pair False) (split_path s no_text)
          else if \<not> isalpha_ascii c then bad_char
          else
            (let t = no_text\<lparr>t_scheme := takeWhile is_scheme_char s\<rparr> in
             case dropWhile is_scheme_char s of
               [] \<Rightarrow> Inr (False, t)
             | c1 # r \<Rightarrow>
                 if c1 \<noteq> CHR '':'' then bad_char
                 else
                   (case r of
                      [] \<Rightarrow> Inr (False, t)
                    | c2 # r2 \<Rightarrow>
                        if c2 = CHR ''/'' then
                          (case r2 of
                             [] \<Rightarrow> Inr (False, t)
                           | c3 # r3 \<Rightarrow>
                               if c3 = CHR ''/'' then split_authority r3 t
                               else if is_url_char c3 then map_sum id (Pair False) (split_path r t)
                               else bad_char)
                        else if is_url_char c2 then map_sum id (Pair False) (split_path r t)
                        else bad_char)))"

section \<open>The authority\<close>

fun bracket_rest :: "bool \<Rightarrow> string \<Rightarrow> string option" where
  "bracket_rest z [] = Some []"
| "bracket_rest z (c # cs) =
     (if z \<and> (isalnum_ascii c \<or> c \<in> {CHR ''%'', CHR ''.'', CHR ''-'', CHR ''_'', CHR ''~''})
      then bracket_rest z cs
      else if \<not> z \<and> (is_hex c \<or> c = CHR '':'' \<or> c = CHR ''.'') then bracket_rest z cs
      else if c = CHR ''%'' then
        (case cs of a # b # d # r \<Rightarrow>
           if a = CHR ''2'' \<and> b = CHR ''5'' then bracket_rest True (d # r) else None
         | _ \<Rightarrow> None)
      else if c = CHR '']'' then Some cs
      else None)"

definition is_host_char :: "char \<Rightarrow> bool" where
  "is_host_char c = (isalnum_ascii c \<or> c = CHR ''.'' \<or> c = CHR ''-'' \<or> c = CHR ''_'')"

definition plain_rest :: "string \<Rightarrow> string option" where
  "plain_rest s =
     (case dropWhile is_host_char s of
        [] \<Rightarrow> Some []
      | c # r \<Rightarrow> if c = CHR '':'' then Some (c # r) else None)"

definition is_digit :: "char \<Rightarrow> bool" where
  "is_digit c = (48 \<le> uchar c \<and> uchar c \<le> 57)"

text \<open>The decimal value of a text of digits.\<close>

definition dec_val :: "string \<Rightarrow> nat" where
  "dec_val ds = foldl (\<lambda>p c. p * 10 + (uchar c - 48)) 0 ds"

definition split_port :: "string \<Rightarrow> url_text \<Rightarrow> url_text url_result" where
  "split_port s t =
     (case s of
        [] \<Rightarrow> Inr t
      | c # ds \<Rightarrow>
          if c \<noteq> CHR '':'' \<or> \<not> (\<forall>d \<in> set (take 5 ds). is_digit d) then bad_char
          else if length ds > 5 \<or> dec_val ds > 65535 then Inl (ec_url port_overflow)
          else Inr (t\<lparr>t_port := ds, t_port_value := dec_val ds\<rparr>))"

definition split_host :: "string \<Rightarrow> url_text \<Rightarrow> url_text url_result" where
  "split_host s t =
     (case s of
        [] \<Rightarrow> Inl (ec_url missing_host)
      | c # r \<Rightarrow>
          (case (if c = CHR ''['' then bracket_rest False r else plain_rest s) of
             None \<Rightarrow> bad_char
           | Some r' \<Rightarrow> split_port r' (t\<lparr>t_host := take (length s - length r') s\<rparr>)))"

definition split_userinfo :: "bool \<Rightarrow> string \<Rightarrow> url_text \<Rightarrow> url_text url_result" where
  "split_userinfo hu s t =
     (if hu then
        (case dropWhile is_user_char s of
           c # r \<Rightarrow> if c = CHR ''@''
                   then split_host r (t\<lparr>t_userinfo := takeWhile is_user_char s\<rparr>) else bad_char
         | [] \<Rightarrow> bad_char)
      else split_host s t)"

definition url_spec :: "string \<Rightarrow> url_text url_result" where
  "url_spec s =
     (case split_url s of
        Inl e \<Rightarrow> Inl e
      | Inr (hu, t) \<Rightarrow> if t_host t = [] then Inr t else split_userinfo hu (t_host t) t)"

section \<open>The loop computes the splitter\<close>

definition texts :: "string \<Rightarrow> parsed_url \<Rightarrow> url_text" where
  "texts spec out =
     \<lparr>t_scheme = sv spec (scheme out), t_userinfo = sv spec (userinfo out),
      t_host = sv spec (host out), t_port = sv spec (port out), t_path = sv spec (path out),
      t_query = sv spec (query out), t_fragment = sv spec (fragment out),
      t_port_value = port_value out\<rparr>"

definition close_part :: "parse_state \<Rightarrow> parsed_url" where
  "close_part ps = set_part (ps_part ps) (ps_first ps, ps_it ps - ps_first ps) (ps_out ps)"

text \<open>What the loop leaves when it is started in \<open>ps\<close>, as text.\<close>

definition loop_texts :: "string \<Rightarrow> parse_state \<Rightarrow> (bool \<times> url_text) url_result" where
  "loop_texts spec ps =
     (case parse_loop spec ps of (e, ps') \<Rightarrow>
        if e \<noteq> no_error then Inl e else Inr (ps_has_userinfo ps', texts spec (close_part ps')))"

lemma loop_texts_Nil:
  "drop (ps_it ps) spec = [] \<Longrightarrow>
     loop_texts spec ps = Inr (ps_has_userinfo ps, texts spec (close_part ps))"
  by (simp add: loop_texts_def parse_loop.simps [of spec ps])

lemma loop_texts_Cons:
  assumes "drop (ps_it ps) spec = c # r"
  shows "loop_texts spec ps =
    (let s = get_state_for (ps_state ps) c in
     if s = st_invalid then bad_char else loop_texts spec (parse_step s ps))"
proof -
  have "ps_it ps < length spec" using assms by (metis drop_all list.distinct(1) not_le)
  moreover have "spec ! ps_it ps = c" using assms by (metis calculation nth_via_drop)
  ultimately show ?thesis
    by (simp add: loop_texts_def parse_loop.simps [of spec ps] Let_def)
qed

lemma at_step:
  assumes "drop (ps_it ps) spec = c # r" and "get_state_for (ps_state ps) c = s" and "s \<noteq> st_invalid"
  shows "loop_texts spec ps = loop_texts spec (parse_step s ps)"
  using assms by (simp add: loop_texts_Cons)

lemma at_bad:
  assumes "drop (ps_it ps) spec = c # r" and "get_state_for (ps_state ps) c = st_invalid"
  shows "loop_texts spec ps = bad_char"
  using assms by (simp add: loop_texts_Cons)

lemma drop_Suc_eq: "drop i xs = c # r \<Longrightarrow> drop (Suc i) xs = r"
  by (metis drop_Suc list.sel(3) tl_drop)

lemma drop_add_eq: "drop i xs = w @ r \<Longrightarrow> drop (i + length w) xs = r"
  by (metis add.commute append_eq_conv_conj drop_drop)

lemma sv_take: "drop i xs = w @ r \<Longrightarrow> sv xs (i, length w) = w"
  by (simp add: sv_def)


lemmas loop_step_simps = Let_def parse_step_def close_part_def texts_def

lemma char_class_facts [simp]:
  "is_url_char CHR ''/''" "\<not> is_url_char CHR ''?''" "\<not> is_url_char CHR ''#''"
  "is_url_char CHR ''*''"
  "\<not> is_query_char CHR ''#''" "\<not> is_scheme_char CHR '':''"
  "\<not> is_user_char CHR ''/''" "\<not> is_user_char CHR ''?''" "\<not> is_user_char CHR ''@''"
  "\<not> is_user_char CHR ''[''" "\<not> is_user_char CHR '']''"
  "\<not> is_authority_char CHR ''/''" "\<not> is_authority_char CHR ''?''" "is_authority_char CHR ''@''"
  "\<not> is_host_char CHR ''@''" "\<not> is_host_char CHR '':''" "\<not> is_host_char CHR ''[''"
  by (simp_all add: is_query_char_def is_scheme_char_def is_authority_char_def is_host_char_def
      char_class_iff)


abbreviation at_state ::
    "url_state \<Rightarrow> nat \<Rightarrow> nat \<Rightarrow> url_part option \<Rightarrow> bool \<Rightarrow> parsed_url \<Rightarrow> parse_state" where
  "at_state s i f p h out \<equiv>
     \<lparr>ps_state = s, ps_it = i, ps_first = f, ps_part = p, ps_has_userinfo = h, ps_out = out\<rparr>"

text \<open>Within a state that a run of characters does not leave, the loop only moves its pointer.\<close>

lemma loop_run:
  assumes "drop i spec = w @ r" and "\<forall>c \<in> set w. get_state_for s c = s"
    and "s \<notin> {st_invalid, st_path_after_scheme, st_authority_with_at}"
    and "p = part_from_state s"
  shows "loop_texts spec (at_state s i f p h out) = loop_texts spec (at_state s (i + length w) f p h out)"
  using assms
proof (induction w arbitrary: i)
  case (Cons c w)
  have "loop_texts spec (at_state s i f p h out) = loop_texts spec (at_state s (Suc i) f p h out)"
    using Cons.prems by (simp add: loop_texts_Cons parse_step_def Let_def)
  also have "\<dots> = loop_texts spec (at_state s (Suc i + length w) f p h out)"
    by (rule Cons.IH) (use Cons.prems in \<open>auto dest: drop_Suc_eq\<close>)
  finally show ?case by simp
qed simp

lemma loop_end:
  assumes "drop f spec = w"
  shows "loop_texts spec (at_state s (f + length w) f p h out) =
    Inr (h, texts spec (set_part p (f, length w) out))"
  using assms by (subst loop_texts_Nil) (auto simp: close_part_def)

lemma loop_fragment:
  assumes "drop i spec = w"
  shows "loop_texts spec (at_state st_fragment (i + n) i (Some part_fragment) h out) =
    (if \<forall>c \<in> set (drop n w). is_fragment_char c
     then Inr (h, (texts spec out)\<lparr>t_fragment := w\<rparr>) else bad_char)"
proof (induction "length w - n" arbitrary: n)
  case 0
  then have "drop (i + n) spec = []" using assms by auto
  moreover have "sv spec (i, n) = w" using assms 0 by (simp add: sv_def)
  ultimately show ?case using 0 by (simp add: loop_texts_Nil loop_step_simps)
next
  case (Suc k)
  then have "drop n w \<noteq> []" by auto
  then obtain c r where d: "drop n w = c # r" by (cases "drop n w") auto
  have d': "drop (i + n) spec = c # r" using d assms by (metis add.commute drop_drop)
  have r: "drop (Suc n) w = r" using d by (rule drop_Suc_eq)
  show ?case
  proof (cases "is_fragment_char c")
    case True
    then have "loop_texts spec (at_state st_fragment (i + n) i (Some part_fragment) h out) =
      loop_texts spec (at_state st_fragment (i + Suc n) i (Some part_fragment) h out)"
      using d' by (auto simp: loop_texts_Cons parse_step_def Let_def is_fragment_char_def)
    also have "\<dots> = (if \<forall>c \<in> set (drop (Suc n) w). is_fragment_char c
     then Inr (h, (texts spec out)\<lparr>t_fragment := w\<rparr>) else bad_char)"
      by (rule Suc.hyps) (use Suc in simp)
    finally show ?thesis using True d r by simp
  next
    case False
    then show ?thesis using d d' by (simp add: loop_texts_Cons is_fragment_char_def)
  qed
qed

lemma loop_fragment_start:
  assumes "drop i spec = r" and "sv spec (fragment out) = []"
  shows "loop_texts spec (at_state st_fragment_start i f None h out) =
    map_sum id (Pair h) (split_fragment r (texts spec out))"
  using assms
proof (induction r arbitrary: i)
  case Nil
  then show ?case by (simp add: loop_texts_Nil split_fragment_def loop_step_simps)
next
  case (Cons c r)
  show ?case
  proof (cases "c = CHR ''#''")
    case True
    then have *: "loop_texts spec (at_state st_fragment_start i f None h out) =
        loop_texts spec (at_state st_fragment_start (Suc i) f None h out)"
      using Cons.prems by (auto simp: loop_texts_Cons parse_step_def Let_def)
    show ?thesis unfolding * using Cons.prems True
      by (subst Cons.IH) (auto dest: drop_Suc_eq simp: split_fragment_def)
  next
    case False
    show ?thesis
    proof (cases "is_fragment_char c")
      case True
      then have *: "loop_texts spec (at_state st_fragment_start i f None h out) =
          loop_texts spec (at_state st_fragment (i + 1) i (Some part_fragment) h out)"
        using False Cons.prems
        by (auto simp: loop_texts_Cons parse_step_def Let_def is_fragment_char_def)
      show ?thesis unfolding *
        using False True Cons.prems by (subst loop_fragment) (auto simp: split_fragment_def)
    next
      case F: False
      then show ?thesis
        using False Cons.prems by (auto simp: loop_texts_Cons is_fragment_char_def split_fragment_def)
    qed
  qed
qed

lemma texts_set_part:
  assumes "drop i spec = w @ r"
  shows "texts spec (set_part (Some part_scheme) (i, length w) out) = (texts spec out)\<lparr>t_scheme := w\<rparr>"
    and "texts spec (set_part (Some part_host) (i, length w) out) = (texts spec out)\<lparr>t_host := w\<rparr>"
    and "texts spec (set_part (Some part_path) (i, length w) out) = (texts spec out)\<lparr>t_path := w\<rparr>"
    and "texts spec (set_part (Some part_query) (i, length w) out) = (texts spec out)\<lparr>t_query := w\<rparr>"
    and "texts spec (set_part (Some part_fragment) (i, length w) out) = (texts spec out)\<lparr>t_fragment := w\<rparr>"
  using sv_take [OF assms] by (simp_all add: texts_def)

text \<open>
  The end of a part: behind its characters \<open>w\<close> comes the end of the text, or a character that
  moves the automaton to a state without a part.
\<close>

lemma loop_part_end:
  assumes "drop i spec = w @ c # r" and "part_from_state (get_state_for s c) = None"
    and "get_state_for s c \<noteq> st_invalid"
  shows "loop_texts spec (at_state s (i + length w) i (Some q) h out) =
    loop_texts spec (at_state (get_state_for s c) (Suc (i + length w)) (i + length w) None h
      (set_part (Some q) (i, length w) out))"
proof -
  have "get_state_for s c \<noteq> st_path_after_scheme" "get_state_for s c \<noteq> st_authority_with_at"
    using assms(2) by auto
  then show ?thesis
    using assms drop_add_eq [OF assms(1)] by (simp add: loop_texts_Cons parse_step_def Let_def)
qed

lemma loop_part_bad:
  assumes "drop i spec = w @ c # r" and "get_state_for s c = st_invalid"
  shows "loop_texts spec (at_state s (i + length w) f q h out) = bad_char"
  using assms drop_add_eq [OF assms(1)] by (simp add: loop_texts_Cons)

lemma stays_in_class:
  "is_query_char c \<Longrightarrow> get_state_for st_query_string c = st_query_string"
  "is_url_char c \<Longrightarrow> get_state_for st_path c = st_path"
  "is_scheme_char c \<Longrightarrow> get_state_for st_scheme c = st_scheme"
  by (auto simp: is_query_char_def is_scheme_char_def)

lemma loop_query:
  assumes "drop i spec = r" and "sv spec (fragment out) = []" and "sv spec (query out) = []"
  shows "loop_texts spec (at_state st_query_string_start i f None h out) =
    map_sum id (Pair h) (split_query r (texts spec out))"
proof -
  define w where "w = takeWhile is_query_char r"
  define t where "t = dropWhile is_query_char r"
  have r: "drop i spec = w @ t" using assms(1) by (simp add: w_def t_def)
  have q: "\<forall>c \<in> set w. is_query_char c" unfolding w_def by (auto dest: set_takeWhileD)
  have t: "t = c # r' \<Longrightarrow> \<not> is_query_char c" for c r' by (simp add: t_def dropWhile_eq_Cons_conv)
  have sq: "split_query r T = (case t of [] \<Rightarrow> Inr (T\<lparr>t_query := w\<rparr>)
      | c # r' \<Rightarrow> if c = CHR ''#'' then split_fragment r' (T\<lparr>t_query := w\<rparr>) else bad_char)" for T
    unfolding split_query_def Let_def w_def t_def ..
  note tx = texts_set_part(4) [OF r, simplified]
  show ?thesis
  proof (cases w)
    case Nil
    then have "texts spec out\<lparr>t_query := []\<rparr> = texts spec out" "drop i spec = t"
      using assms(3) r by (simp_all add: texts_def)
    then show ?thesis using Nil t assms(2)
      by (cases t) (auto simp: sq loop_texts_Nil loop_texts_Cons parse_step_def Let_def
          close_part_def is_query_char_def loop_fragment_start drop_Suc_eq)
  next
    case (Cons c w')
    have c: "is_query_char c" and run: "\<forall>c \<in> set w'. get_state_for st_query_string c = st_query_string"
      using q stays_in_class(1) unfolding Cons list.set by blast+
    have d: "drop i spec = c # (w' @ t)" using r Cons by simp
    have "loop_texts spec (at_state st_query_string_start i f None h out) =
        loop_texts spec (at_state st_query_string (Suc i) i (Some part_query) h out)"
      using d c by (auto simp: loop_texts_Cons parse_step_def Let_def is_query_char_def)
    also have "\<dots> = loop_texts spec (at_state st_query_string (Suc i + length w') i (Some part_query) h out)"
      by (rule loop_run [OF drop_Suc_eq [OF d] run]) auto
    also have "\<dots> = loop_texts spec (at_state st_query_string (i + length w) i (Some part_query) h out)"
      using Cons by simp
    also have "\<dots> = map_sum id (Pair h) (split_query r (texts spec out))"
    proof (cases t)
      case Nil
      then show ?thesis using loop_end [of i spec w] r tx by (simp add: sq)
    next
      case (Cons c' r')
      have r': "drop i spec = w @ c' # r'" using r Cons by simp
      have nq: "\<not> is_query_char c'" by (rule t [OF Cons])
      show ?thesis
      proof (cases "c' = CHR ''#''")
        case True
        then show ?thesis
          using assms(2) drop_Suc_eq [OF drop_add_eq [OF r']] Cons tx
          by (subst loop_part_end [OF r']) (auto simp: sq loop_fragment_start)
      next
        case False
        then show ?thesis using nq Cons
          by (subst loop_part_bad [OF r']) (auto simp: sq is_query_char_def)
      qed
    qed
    finally show ?thesis .
  qed
qed

text \<open>A path, entered at its first character.\<close>

lemma loop_path:
  assumes "drop i spec = c # r" and "is_url_char c"
    and "sv spec (fragment out) = []" and "sv spec (query out) = []"
  shows "loop_texts spec (at_state st_path (Suc i) i (Some part_path) h out) =
    map_sum id (Pair h) (split_path (c # r) (texts spec out))"
proof -
  define w where "w = takeWhile is_url_char r"
  define t where "t = dropWhile is_url_char r"
  have r: "drop i spec = (c # w) @ t" using assms(1) by (simp add: w_def t_def)
  have t: "t = c' # r' \<Longrightarrow> \<not> is_url_char c'" for c' r' by (simp add: t_def dropWhile_eq_Cons_conv)
  have run: "\<forall>c \<in> set w. get_state_for st_path c = st_path"
    using stays_in_class(2) set_takeWhileD unfolding w_def by metis
  have split: "takeWhile is_url_char (c # r) = c # w" "dropWhile is_url_char (c # r) = t"
    using assms(2) by (simp_all add: w_def t_def)
  have sp: "split_path (c # r) T = (case t of [] \<Rightarrow> Inr (T\<lparr>t_path := c # w\<rparr>)
      | c' # r' \<Rightarrow> if c' = CHR ''?'' then split_query r' (T\<lparr>t_path := c # w\<rparr>)
         else if c' = CHR ''#'' then split_fragment r' (T\<lparr>t_path := c # w\<rparr>) else bad_char)" for T
    unfolding split_path_def Let_def split ..
  note tx = texts_set_part(3) [OF r, simplified]
  have d: "drop (Suc i) spec = w @ t" using r drop_Suc_eq by force
  have "loop_texts spec (at_state st_path (Suc i) i (Some part_path) h out) =
      loop_texts spec (at_state st_path (Suc i + length w) i (Some part_path) h out)"
    by (rule loop_run [OF d run]) auto
  also have "\<dots> = loop_texts spec (at_state st_path (i + length (c # w)) i (Some part_path) h out)"
    by simp
  also have "\<dots> = map_sum id (Pair h) (split_path (c # r) (texts spec out))"
  proof (cases t)
    case Nil
    then show ?thesis using loop_end [of i spec "c # w"] r tx by (simp add: sp)
  next
    case (Cons c' r')
    have r': "drop i spec = (c # w) @ c' # r'" using r Cons by simp
    have nq: "\<not> is_url_char c'" by (rule t [OF Cons])
    have d': "drop (Suc (i + length (c # w))) spec = r'"
      by (rule drop_Suc_eq [OF drop_add_eq [OF r']])
    consider "c' = CHR ''?''" | "c' = CHR ''#''" | "c' \<noteq> CHR ''?''" "c' \<noteq> CHR ''#''" by blast
    then show ?thesis
    proof cases
      case 1
      then show ?thesis using assms(3,4) d' Cons tx
        by (subst loop_part_end [OF r']) (auto simp: sp loop_query)
    next
      case 2
      then show ?thesis using assms(3) d' Cons tx
        by (subst loop_part_end [OF r']) (auto simp: sp loop_fragment_start)
    next
      case 3
      then show ?thesis using nq Cons by (subst loop_part_bad [OF r']) (auto simp: sp)
    qed
  qed
  finally show ?thesis .
qed

text \<open>The part of a URL behind its authority.\<close>

definition split_tail :: "string \<Rightarrow> url_text \<Rightarrow> url_text url_result" where
  "split_tail t T =
     (case t of
        [] \<Rightarrow> Inr T
      | c # r' \<Rightarrow> if c = CHR ''/'' then split_path t T
                else if c = CHR ''?'' then split_query r' T else bad_char)"

lemma loop_tail:
  assumes "drop i spec = a @ t" and "t = [] \<or> \<not> is_authority_char (hd t)"
    and "s = st_authority \<or> s = st_authority_with_at"
    and "sv spec (fragment out) = []" and "sv spec (query out) = []"
  shows "loop_texts spec (at_state s (i + length a) i (Some part_host) h out) =
    map_sum id (Pair h) (split_tail t ((texts spec out)\<lparr>t_host := a\<rparr>))"
proof -
  note tx = texts_set_part(2) [OF assms(1), simplified]
  show ?thesis
  proof (cases t)
    case Nil
    then show ?thesis using loop_end [of i spec a] assms tx by (simp add: split_tail_def)
  next
    case (Cons c r)
    have d: "drop i spec = a @ c # r" using assms(1) Cons by simp
    have d': "drop (i + length a) spec = c # r" by (rule drop_add_eq [OF d])
    have nc: "\<not> is_authority_char c" using assms(2) Cons by simp
    consider "c = CHR ''/''" | "c = CHR ''?''" | "c \<noteq> CHR ''/''" "c \<noteq> CHR ''?''" by blast
    then show ?thesis
    proof cases
      case 1
      then have "loop_texts spec (at_state s (i + length a) i (Some part_host) h out) =
          loop_texts spec (at_state st_path (Suc (i + length a)) (i + length a) (Some part_path) h
            (out\<lparr>host := (i, length a)\<rparr>))"
        using d' assms(3) by (auto simp: loop_texts_Cons parse_step_def Let_def)
      also have "\<dots> = map_sum id (Pair h) (split_path (c # r) ((texts spec out)\<lparr>t_host := a\<rparr>))"
        using 1 assms d' tx by (subst loop_path [OF d']) auto
      finally show ?thesis using 1 Cons by (simp add: split_tail_def)
    next
      case 2
      then show ?thesis using assms(3-) drop_Suc_eq [OF d'] Cons tx
        by (subst loop_part_end [OF d]) (auto simp: split_tail_def loop_query)
    next
      case 3
      then show ?thesis using assms(3) nc Cons
        by (subst loop_part_bad [OF d]) (auto simp: split_tail_def is_authority_char_def)
    qed
  qed
qed

lemma loop_authority:
  assumes "drop i spec = v @ w @ t" and "\<forall>c \<in> set w. is_authority_char c"
    and "t = [] \<or> \<not> is_authority_char (hd t)"
    and "s = st_authority \<or> s = st_authority_with_at"
    and "sv spec (fragment out) = []" and "sv spec (query out) = []"
  shows "loop_texts spec (at_state s (i + length v) i (Some part_host) h out) =
    (if at_ok (s = st_authority_with_at) w
     then map_sum id (Pair (h \<or> CHR ''@'' \<in> set w)) (split_tail t ((texts spec out)\<lparr>t_host := v @ w\<rparr>))
     else bad_char)"
  using assms
proof (induction w arbitrary: v s h)
  case Nil
  then show ?case using loop_tail [of i spec v t s out h] by simp
next
  case (Cons c w)
  have d: "drop (i + length v) spec = c # w @ t" using drop_add_eq [OF Cons.prems(1)] by simp
  let ?s = "if c = CHR ''@'' then st_authority_with_at else st_authority"
  have c: "is_user_char c \<or> c = CHR ''['' \<or> c = CHR '']'' \<or> c = CHR ''@''"
    using Cons.prems(2) by (auto simp: is_authority_char_def)
  show ?case
  proof (cases "s = st_authority_with_at \<and> c = CHR ''@''")
    case True
    then show ?thesis using d by (simp add: loop_texts_Cons)
  next
    case False
    then have "get_state_for s c = ?s" using c Cons.prems(4) by auto
    then have "loop_texts spec (at_state s (i + length v) i (Some part_host) h out) =
        loop_texts spec (at_state ?s (i + length (v @ [c])) i (Some part_host) (h \<or> c = CHR ''@'') out)"
      using d by (auto simp: loop_texts_Cons parse_step_def Let_def)
    also have "\<dots> = (if at_ok (?s = st_authority_with_at) w
       then map_sum id (Pair ((h \<or> c = CHR ''@'') \<or> CHR ''@'' \<in> set w))
              (split_tail t ((texts spec out)\<lparr>t_host := (v @ [c]) @ w\<rparr>))
       else bad_char)"
      by (rule Cons.IH) (use Cons.prems in auto)
    finally show ?thesis using False by (auto simp: id_def)
  qed
qed

lemma loop_authority_start:
  assumes "drop i spec = r" and "sv spec (fragment out) = []" and "sv spec (query out) = []"
    and "sv spec (host out) = []"
  shows "loop_texts spec (at_state st_authority_start i f None False out) = split_authority r (texts spec out)"
proof -
  define w where "w = takeWhile is_authority_char r"
  define t where "t = dropWhile is_authority_char r"
  have r: "drop i spec = w @ t" using assms(1) by (simp add: w_def t_def)
  have q: "\<forall>c \<in> set w. is_authority_char c" unfolding w_def by (auto dest: set_takeWhileD)
  have t: "t = [] \<or> \<not> is_authority_char (hd t)"
    unfolding t_def using hd_dropWhile [of is_authority_char r] by blast
  have sa: "split_authority r T =
      (if \<not> at_ok False w then bad_char
       else map_sum id (Pair (CHR ''@'' \<in> set w)) (split_tail t (T\<lparr>t_host := w\<rparr>)))" for T
    unfolding split_authority_def Let_def split_tail_def w_def t_def ..
  show ?thesis
  proof (cases w)
    case Nil
    have tx: "texts spec out\<lparr>t_host := []\<rparr> = texts spec out" using assms(4) by (simp add: texts_def)
    show ?thesis
    proof (cases t)
      case Nil
      then show ?thesis using \<open>w = []\<close> r tx
        by (simp add: sa split_tail_def loop_texts_Nil close_part_def)
    next
      case (Cons c r')
      have d: "drop i spec = c # r'" using r Cons \<open>w = []\<close> by simp
      have nc: "\<not> is_authority_char c" using t Cons by simp
      have sa': "split_authority r (texts spec out) = map_sum id (Pair False) (split_tail (c # r') (texts spec out))"
        using \<open>w = []\<close> Cons tx by (simp add: sa)
      consider "c = CHR ''/''" | "c = CHR ''?''" | "c \<noteq> CHR ''/''" "c \<noteq> CHR ''?''" by blast
      then show ?thesis
      proof cases
        case 1
        have "loop_texts spec (at_state st_authority_start i f None False out) =
            loop_texts spec (at_state st_path (Suc i) i (Some part_path) False out)"
          using 1 d by (subst at_step [where c = c and r = r' and s = st_path]) (simp_all add: parse_step_def)
        also have "\<dots> = map_sum id (Pair False) (split_path (c # r') (texts spec out))"
          by (rule loop_path [OF d]) (use 1 assms in auto)
        finally show ?thesis unfolding sa' using 1 by (simp add: split_tail_def)
      next
        case 2
        have "loop_texts spec (at_state st_authority_start i f None False out) =
            loop_texts spec (at_state st_query_string_start (Suc i) f None False out)"
          using 2 d by (subst at_step [where c = c and r = r' and s = st_query_string_start])
            (simp_all add: parse_step_def)
        also have "\<dots> = map_sum id (Pair False) (split_query r' (texts spec out))"
          by (rule loop_query [OF drop_Suc_eq [OF d]]) (use assms in auto)
        finally show ?thesis unfolding sa' using 2 by (simp add: split_tail_def)
      next
        case 3
        then show ?thesis unfolding sa' using nc d
          by (subst at_bad [where c = c and r = r']) (auto simp: split_tail_def is_authority_char_def)
      qed
    qed
  next
    case (Cons c w')
    have d: "drop i spec = [c] @ w' @ t" using r Cons by simp
    let ?s = "if c = CHR ''@'' then st_authority_with_at else st_authority"
    have "is_authority_char c" using q Cons by simp
    then have "loop_texts spec (at_state st_authority_start i f None False out) =
       loop_texts spec (at_state ?s (i + length [c]) i (Some part_host) (c = CHR ''@'') out)"
      using d by (auto simp: loop_texts_Cons parse_step_def Let_def is_authority_char_def)
    also have "\<dots> = (if at_ok (?s = st_authority_with_at) w'
       then map_sum id (Pair (c = CHR ''@'' \<or> CHR ''@'' \<in> set w'))
              (split_tail t ((texts spec out)\<lparr>t_host := [c] @ w'\<rparr>))
       else bad_char)"
      by (rule loop_authority [OF d]) (use q t Cons assms in auto)
    finally show ?thesis using Cons by (auto simp: sa)
  qed
qed

lemma loop_scheme:
  assumes "drop i spec = c # r" and "is_scheme_char c" and "i = 0"
  shows "loop_texts spec (at_state st_scheme 1 0 (Some part_scheme) False parsed_url_init) =
    (let t = no_text\<lparr>t_scheme := takeWhile is_scheme_char spec\<rparr> in
     case dropWhile is_scheme_char spec of
       [] \<Rightarrow> Inr (False, t)
     | c1 # r1 \<Rightarrow>
         if c1 \<noteq> CHR '':'' then bad_char
         else loop_texts spec (at_state st_scheme_suffix (Suc (length (takeWhile is_scheme_char spec)))
           (length (takeWhile is_scheme_char spec)) None False
           (parsed_url_init\<lparr>scheme := (0, length (takeWhile is_scheme_char spec))\<rparr>)))"
proof -
  define w where "w = takeWhile is_scheme_char r"
  define t where "t = dropWhile is_scheme_char r"
  have spec: "spec = (c # w) @ t" using assms by (simp add: w_def t_def)
  have r: "drop 0 spec = (c # w) @ t" using spec by simp
  have split: "takeWhile is_scheme_char spec = c # w" "dropWhile is_scheme_char spec = t"
    using assms by (simp_all add: w_def t_def)
  have run: "\<forall>c \<in> set w. get_state_for st_scheme c = st_scheme"
    using stays_in_class(3) set_takeWhileD unfolding w_def by metis
  have d: "drop 1 spec = w @ t" using spec by simp
  have T: "texts spec (parsed_url_init\<lparr>scheme := (0, length (c # w))\<rparr>) = no_text\<lparr>t_scheme := c # w\<rparr>"
    using sv_take [OF r] by (simp add: texts_def parsed_url_init_def no_text_def sv_def)
  have "loop_texts spec (at_state st_scheme 1 0 (Some part_scheme) False parsed_url_init) =
      loop_texts spec (at_state st_scheme (1 + length w) 0 (Some part_scheme) False parsed_url_init)"
    by (rule loop_run [OF d run]) auto
  then have *: "loop_texts spec (at_state st_scheme 1 0 (Some part_scheme) False parsed_url_init) =
      loop_texts spec (at_state st_scheme (0 + length (c # w)) 0 (Some part_scheme) False parsed_url_init)"
    by simp
  show ?thesis unfolding * split Let_def
  proof (cases t)
    case Nil
    then show "loop_texts spec (at_state st_scheme (0 + length (c # w)) 0 (Some part_scheme) False parsed_url_init) =
       (case t of [] \<Rightarrow> Inr (False, no_text\<lparr>t_scheme := c # w\<rparr>)
        | c1 # r1 \<Rightarrow> if c1 \<noteq> CHR '':'' then bad_char
          else loop_texts spec (at_state st_scheme_suffix (Suc (length (c # w))) (length (c # w)) None False
           (parsed_url_init\<lparr>scheme := (0, length (c # w))\<rparr>)))"
      using T loop_end [of 0 spec "c # w"] r by simp
  next
    case (Cons c1 r1)
    have d: "drop 0 spec = (c # w) @ c1 # r1" using r Cons by simp
    have nc: "\<not> is_scheme_char c1" using Cons by (auto simp: t_def dropWhile_eq_Cons_conv)
    show "loop_texts spec (at_state st_scheme (0 + length (c # w)) 0 (Some part_scheme) False parsed_url_init) =
       (case t of [] \<Rightarrow> Inr (False, no_text\<lparr>t_scheme := c # w\<rparr>)
        | c1 # r1 \<Rightarrow> if c1 \<noteq> CHR '':'' then bad_char
          else loop_texts spec (at_state st_scheme_suffix (Suc (length (c # w))) (length (c # w)) None False
           (parsed_url_init\<lparr>scheme := (0, length (c # w))\<rparr>)))"
    proof (cases "c1 = CHR '':''")
      case True
      then show ?thesis using Cons nc
        by (subst loop_part_end [OF d]) (auto simp: is_scheme_char_def)
    next
      case False
      then show ?thesis using Cons nc
        by (subst loop_part_bad [OF d]) (auto simp: is_scheme_char_def)
    qed
  qed
qed

text \<open>Behind the scheme: the rewind of the source puts the slash back in front of the path.\<close>

lemma loop_scheme_suffix:
  assumes d1: "drop (Suc i) spec = r1" and "sv spec (fragment out) = []" and "sv spec (query out) = []"
    and "sv spec (host out) = []" and T: "texts spec out = T"
  shows "loop_texts spec (at_state st_scheme_suffix (Suc i) i None False out) =
    (case r1 of [] \<Rightarrow> Inr (False, T)
     | c2 # r2 \<Rightarrow> if c2 = CHR ''/'' then
         (case r2 of [] \<Rightarrow> Inr (False, T)
          | c3 # r3 \<Rightarrow> if c3 = CHR ''/'' then split_authority r3 T
              else if is_url_char c3 then map_sum id (Pair False) (split_path r1 T) else bad_char)
         else if is_url_char c2 then map_sum id (Pair False) (split_path r1 T) else bad_char)"
proof (cases r1)
  case Nil
  then show ?thesis using d1 T by (simp add: loop_texts_Nil close_part_def)
next
  case (Cons c2 r2)
  have d1': "drop (Suc i) spec = c2 # r2" using d1 Cons by simp
  note d2 = drop_Suc_eq [OF d1']
  show ?thesis
  proof (cases "c2 = CHR ''/''")
    case False
    then show ?thesis using d1' Cons assms(2-4) T
      by (auto simp: loop_texts_Cons parse_step_def Let_def loop_path)
  next
    case slash: True
    then have *: "loop_texts spec (at_state st_scheme_suffix (Suc i) i None False out) =
        loop_texts spec (at_state st_scheme_suffix_slash (Suc (Suc i)) i None False out)"
      using d1' by (simp add: loop_texts_Cons parse_step_def Let_def)
    show ?thesis
    proof (cases r2)
      case Nil
      then show ?thesis using * Cons slash d2 T by (simp add: loop_texts_Nil close_part_def)
    next
      case c3: (Cons c3 r3)
      have d2': "drop (Suc (Suc i)) spec = c3 # r3" using d2 c3 by simp
      consider "c3 = CHR ''/''" | "c3 \<noteq> CHR ''/''" "\<not> is_url_char c3" | "c3 \<noteq> CHR ''/''" "is_url_char c3"
        by blast
      then show ?thesis
      proof cases
        case 1
        then show ?thesis using * Cons slash c3 d2' drop_Suc_eq [OF d2'] assms(2-4) T
          by (simp add: loop_texts_Cons [of "at_state st_scheme_suffix_slash (Suc (Suc i)) i None False out"]
              parse_step_def Let_def loop_authority_start)
      next
        case 2
        then show ?thesis using * Cons slash c3 d2' by (simp add: loop_texts_Cons)
      next
        case 3
        have "loop_texts spec (at_state st_scheme_suffix_slash (Suc (Suc i)) i None False out) =
            loop_texts spec (at_state st_path_after_scheme (Suc (Suc i)) (Suc i) (Some part_path) False out)"
          using 3 d2' by (subst at_step [where c = c3 and r = r3 and s = st_path_after_scheme])
            (simp_all add: parse_step_def)
        also have "\<dots> = loop_texts spec (at_state st_path (Suc (Suc (Suc i))) (Suc i) (Some part_path) False out)"
          using 3 d2' by (subst at_step [where c = c3 and r = r3 and s = st_path])
            (simp_all add: parse_step_def)
        also have "\<dots> = loop_texts spec (at_state st_path (Suc (Suc i)) (Suc i) (Some part_path) False out)"
          using 3 d2' by (subst (2) at_step [where c = c3 and r = r3 and s = st_path])
            (simp_all add: parse_step_def)
        also have "\<dots> = map_sum id (Pair False) (split_path (c2 # r2) T)"
          using slash assms(2-4) T by (subst loop_path [OF d1']) auto
        finally show ?thesis using * Cons slash c3 3 by simp
      qed
    qed
  qed
qed

lemma split_url_Cons:
  assumes "s = c # r"
  shows "split_url s =
    (if c = CHR ''/'' \<or> c = CHR ''*'' then map_sum id (Pair False) (split_path s no_text)
     else if \<not> isalpha_ascii c then bad_char
     else
       (let t = no_text\<lparr>t_scheme := takeWhile is_scheme_char s\<rparr> in
        case dropWhile is_scheme_char s of
          [] \<Rightarrow> Inr (False, t)
        | c1 # r \<Rightarrow>
            if c1 \<noteq> CHR '':'' then bad_char
            else
              (case r of
                 [] \<Rightarrow> Inr (False, t)
               | c2 # r2 \<Rightarrow>
                   if c2 = CHR ''/'' then
                     (case r2 of
                        [] \<Rightarrow> Inr (False, t)
                      | c3 # r3 \<Rightarrow>
                          if c3 = CHR ''/'' then split_authority r3 t
                          else if is_url_char c3 then map_sum id (Pair False) (split_path r t)
                          else bad_char)
                   else if is_url_char c2 then map_sum id (Pair False) (split_path r t)
                   else bad_char)))"
  unfolding assms split_url_def by (simp only: list.case)

lemma loop_url: "loop_texts spec (parse_init parsed_url_init) = split_url spec"
proof (cases spec)
  case Nil
  then show ?thesis
    by (simp add: loop_texts_Nil parse_init_def split_url_def close_part_def texts_def
        parsed_url_init_def no_text_def sv_def)
next
  case (Cons c r)
  have d: "drop 0 spec = c # r" using Cons by simp
  have T0: "texts spec parsed_url_init = no_text" "sv spec (fragment parsed_url_init) = []"
    "sv spec (query parsed_url_init) = []"
    by (simp_all add: texts_def parsed_url_init_def no_text_def sv_def)
  consider (path) "c = CHR ''/'' \<or> c = CHR ''*''" | (bad) "c \<noteq> CHR ''/''" "c \<noteq> CHR ''*''" "\<not> isalpha_ascii c"
    | (scheme) "c \<noteq> CHR ''/''" "c \<noteq> CHR ''*''" "isalpha_ascii c" by blast
  then show ?thesis
  proof cases
    case path
    then have "loop_texts spec (parse_init parsed_url_init) =
        loop_texts spec (at_state st_path (Suc 0) 0 (Some part_path) False parsed_url_init)"
      using d by (simp add: parse_init_def loop_texts_Cons parse_step_def Let_def)
    also have "\<dots> = map_sum id (Pair False) (split_path (c # r) (texts spec parsed_url_init))"
      by (rule loop_path [OF d]) (use path T0 in auto)
    finally show ?thesis using path Cons T0 by (auto simp: split_url_def)
  next
    case bad
    then show ?thesis using d Cons by (simp add: parse_init_def loop_texts_Cons split_url_def)
  next
    case scheme
    let ?sc = "takeWhile is_scheme_char spec" and ?out = "parsed_url_init\<lparr>scheme := (0, length (takeWhile is_scheme_char spec))\<rparr>"
    let ?t = "no_text\<lparr>t_scheme := ?sc\<rparr>"
    have sc: "is_scheme_char c" using scheme by (simp add: is_scheme_char_def isalnum_ascii_def)
    have T: "texts spec ?out = ?t" "sv spec (fragment ?out) = []" "sv spec (query ?out) = []" "sv spec (host ?out) = []"
      using texts_set_part(1) [of 0 spec ?sc "dropWhile is_scheme_char spec" parsed_url_init] T0
      by (simp_all add: parsed_url_init_def sv_def)
    have "loop_texts spec (parse_init parsed_url_init) =
        loop_texts spec (at_state st_scheme 1 0 (Some part_scheme) False parsed_url_init)"
      using d scheme by (simp add: parse_init_def loop_texts_Cons parse_step_def Let_def)
    also have "\<dots> = split_url spec"
    proof (cases "dropWhile is_scheme_char spec")
      case Nil
      then show ?thesis unfolding loop_scheme [OF d sc refl] using scheme Cons
        by (simp add: split_url_def Let_def)
    next
      case c1: (Cons c1 r1)
      show ?thesis
      proof (cases "c1 = CHR '':''")
        case False
        then show ?thesis unfolding loop_scheme [OF d sc refl] using scheme c1 Cons
          by (simp add: split_url_def Let_def)
      next
        case True
        have d1: "drop (Suc (length ?sc)) spec = r1"
          by (rule drop_Suc_eq [of _ _ c1]) (metis c1 drop_add_eq drop0 takeWhile_dropWhile_id add_0)
        have s1: "split_url spec = (case r1 of [] \<Rightarrow> Inr (False, ?t)
            | c2 # r2 \<Rightarrow> if c2 = CHR ''/'' then
                (case r2 of [] \<Rightarrow> Inr (False, ?t)
                 | c3 # r3 \<Rightarrow> if c3 = CHR ''/'' then split_authority r3 ?t
                     else if is_url_char c3 then map_sum id (Pair False) (split_path r1 ?t) else bad_char)
                else if is_url_char c2 then map_sum id (Pair False) (split_path r1 ?t) else bad_char)"
          unfolding split_url_Cons [OF Cons] c1 Let_def using scheme True by simp
        have "loop_texts spec (at_state st_scheme 1 0 (Some part_scheme) False parsed_url_init) =
            loop_texts spec (at_state st_scheme_suffix (Suc (length ?sc)) (length ?sc) None False ?out)"
          unfolding loop_scheme [OF d sc refl] Let_def c1 using True by simp
        also have "\<dots> = split_url spec" unfolding s1
          by (rule loop_scheme_suffix [OF d1 T(2-4) T(1)])
        finally show ?thesis .
      qed
    qed
    finally show ?thesis .
  qed
qed

end
