(* ===== verification/UrlAuthority.thy ===== *)
theory UrlAuthority
  imports UrlSpec
begin

text \<open>
  The authority parser of \<^verbatim>\<open>url_parser.cpp\<close> (its four pointer loops) computes the
  splitter \<open>split_userinfo\<close> of the specification.
\<close>

section \<open>The authority parser computes its splitter\<close>

text \<open>The characters between two offsets.\<close>

definition sub :: "string \<Rightarrow> nat \<Rightarrow> nat \<Rightarrow> string" where
  "sub spec i j = take (j - i) (drop i spec)"

lemma sub_self [simp]: "sub spec i i = []"
  by (simp add: sub_def)

lemma sub_Cons: "i < j \<Longrightarrow> j \<le> length spec \<Longrightarrow> sub spec i j = spec ! i # sub spec (Suc i) j"
  unfolding sub_def
  by (metis Cons_nth_drop_Suc Suc_diff_Suc less_le_trans take_Suc_Cons)

lemma length_sub [simp]: "i \<le> j \<Longrightarrow> j \<le> length spec \<Longrightarrow> length (sub spec i j) = j - i"
  by (simp add: sub_def)

lemma sub_Nil_iff: "i \<le> j \<Longrightarrow> j \<le> length spec \<Longrightarrow> sub spec i j = [] \<longleftrightarrow> i = j"
  using length_sub [of i j spec] by (auto simp del: length_sub)

lemma sub_append: "sub spec i j = w @ r \<Longrightarrow> sub spec (i + length w) j = r"
  unfolding sub_def by (metis append_eq_conv_conj diff_diff_left drop_drop drop_take add.commute)

lemma sv_sub: "sv spec (i, j - i) = sub spec i j"
  by (simp add: sv_def sub_def)

lemma sub_prefix: "i + n \<le> j \<Longrightarrow> sub spec i (i + n) = take n (sub spec i j)"
  by (simp add: sub_def min_absorb1)

lemma skip_userinfo_eq:
  "i \<le> j \<Longrightarrow> j \<le> length spec \<Longrightarrow>
     skip_userinfo spec i j = i + length (takeWhile is_user_char (sub spec i j))"
proof (induction spec i j rule: skip_userinfo.induct)
  case (1 spec i j)
  show ?case
  proof (cases "i < j")
    case True
    then show ?thesis using "1.prems" "1.IH"
      by (subst skip_userinfo.simps) (auto simp: sub_Cons)
  next
    case False
    then show ?thesis using "1.prems" by (subst skip_userinfo.simps) simp
  qed
qed

lemma plain_host_eq:
  "i \<le> j \<Longrightarrow> j \<le> length spec \<Longrightarrow>
     plain_host spec i j = map_option (\<lambda>r. j - length r) (plain_rest (sub spec i j))"
proof (induction spec i j rule: plain_host.induct)
  case (1 spec i j)
  show ?case
  proof (cases "i < j")
    case True
    then show ?thesis using "1.prems" "1.IH"
      by (subst plain_host.simps) (auto simp: sub_Cons plain_rest_def Let_def is_host_char_def)
  next
    case False
    then show ?thesis using "1.prems" by (subst plain_host.simps) (simp add: plain_rest_def)
  qed
qed

lemma bracket_host_eq:
  "i \<le> j \<Longrightarrow> j \<le> length spec \<Longrightarrow>
     bracket_host spec i j z = map_option (\<lambda>r. j - length r) (bracket_rest z (sub spec i j))"
proof (induction spec i j z rule: bracket_host.induct)
  case (1 spec i j z)
  show ?case
  proof (cases "i < j")
    case True
    let ?c = "spec ! i"
    consider (zone) "z \<and> (isalnum_ascii ?c \<or> ?c = CHR ''%'' \<or> ?c = CHR ''.'' \<or> ?c = CHR ''-'' \<or>
            ?c = CHR ''_'' \<or> ?c = CHR ''~'')"
      | (addr) "\<not> z \<and> (is_hex ?c \<or> ?c = CHR '':'' \<or> ?c = CHR ''.'')"
      | (esc) "\<not> z" "?c = CHR ''%''" "\<not> is_hex ?c"
      | (other) "\<not> (z \<and> (isalnum_ascii ?c \<or> ?c = CHR ''%'' \<or> ?c = CHR ''.'' \<or> ?c = CHR ''-'' \<or>
            ?c = CHR ''_'' \<or> ?c = CHR ''~''))"
         "\<not> (\<not> z \<and> (is_hex ?c \<or> ?c = CHR '':'' \<or> ?c = CHR ''.''))" "?c \<noteq> CHR ''%''"
      by blast
    then show ?thesis
    proof cases
      case zone
      then show ?thesis using True 1 by (subst bracket_host.simps) (auto simp: sub_Cons)
    next
      case addr
      then show ?thesis using True 1 by (subst bracket_host.simps) (auto simp: sub_Cons)
    next
      case other
      then show ?thesis using True 1 by (subst bracket_host.simps) (auto simp: sub_Cons)
    next
      case esc
      have c: "sub spec i j = CHR ''%'' # sub spec (Suc i) j"
        using True "1.prems" esc by (simp add: sub_Cons)
      show ?thesis
      proof (cases "j - i > 3")
        case long: True
        then have r: "sub spec (Suc i) j = spec ! (i + 1) # spec ! (i + 2) # spec ! (i + 3) # sub spec (Suc (i + 3)) j"
          and r3: "sub spec (Suc (i + 2)) j = spec ! (i + 3) # sub spec (Suc (i + 3)) j"
          using "1.prems" by (auto simp: sub_Cons numeral_eq_Suc)
        show ?thesis
        proof (cases "spec ! (i + 1) = CHR ''2'' \<and> spec ! (i + 2) = CHR ''5''")
          case e: True
          then have "bracket_host spec i j z = bracket_host spec (Suc (i + 2)) j True"
            using True long esc by (subst bracket_host.simps) (simp add: Let_def)
          also have "\<dots> = map_option (\<lambda>r. j - length r) (bracket_rest True (sub spec (Suc (i + 2)) j))"
            by (rule "1.IH"(3)) (use True long esc e "1.prems" in auto)
          finally show ?thesis using esc e unfolding c r r3 by simp
        next
          case False
          then have "bracket_host spec i j z = None"
            using True long esc by (subst bracket_host.simps) (auto simp: Let_def)
          then show ?thesis using esc False unfolding c r by auto
        qed
      next
        case False
        have "bracket_host spec i j z = None"
          using True False esc by (subst bracket_host.simps) (simp add: Let_def)
        moreover have "length (sub spec (Suc i) j) < 3" using True False "1.prems" by simp
        then have "bracket_rest z (sub spec i j) = None"
          using esc unfolding c by (auto split: list.split)
        ultimately show ?thesis by simp
      qed
    qed
  next
    case False
    then show ?thesis using "1.prems" by (subst bracket_host.simps) simp
  qed
qed

lemma port_digits_eq:
  "i \<le> j \<Longrightarrow> j \<le> length spec \<Longrightarrow> n \<le> 5 \<Longrightarrow>
     port_digits spec i j n p =
       (let ds = take (5 - n) (sub spec i j) in
        if \<forall>d \<in> set ds. is_digit d
        then Some (i + length ds, foldl (\<lambda>p c. p * 10 + (uchar c - 48)) p ds) else None)"
proof (induction spec i j n p rule: port_digits.induct)
  case (1 spec i j n p)
  show ?case
  proof (cases "i < j \<and> n < 5")
    case True
    then have k: "5 - n = Suc (5 - Suc n)" by arith
    show ?thesis
    proof (cases "is_digit (spec ! i)")
      case d: True
      then have "port_digits spec i j n p =
          port_digits spec (Suc i) j (Suc n) (p * 10 + (uchar (spec ! i) - 48))"
        using True by (subst port_digits.simps) (simp add: is_digit_def Let_def max_port_digits_def)
      also have "\<dots> = (let ds = take (5 - Suc n) (sub spec (Suc i) j) in
        if \<forall>d \<in> set ds. is_digit d
        then Some (Suc i + length ds, foldl (\<lambda>p c. p * 10 + (uchar c - 48))
               (p * 10 + (uchar (spec ! i) - 48)) ds) else None)"
        by (rule 1) (use True d 1 in \<open>auto simp: is_digit_def max_port_digits_def\<close>)
      finally show ?thesis using True d 1 unfolding k by (simp add: sub_Cons Let_def)
    next
      case False
      then have "port_digits spec i j n p = None"
        using True by (subst port_digits.simps) (auto simp: is_digit_def Let_def max_port_digits_def)
      then show ?thesis using True False 1 unfolding k by (simp add: sub_Cons Let_def)
    qed
  next
    case False
    then show ?thesis using 1 by (subst port_digits.simps) (auto simp: max_port_digits_def)
  qed
qed

lemma bracket_rest_suffix: "bracket_rest z s = Some r \<Longrightarrow> \<exists>w. s = w @ r"
proof (induction z s rule: bracket_rest.induct)
  case (2 z c cs)
  have c1: "\<exists>w. cs = w @ r \<Longrightarrow> \<exists>w. c # cs = w @ r" by (metis append_Cons)
  consider (zone) "z \<and> (isalnum_ascii c \<or> c \<in> {CHR ''%'', CHR ''.'', CHR ''-'', CHR ''_'', CHR ''~''})"
    | (addr) "\<not> z \<and> (is_hex c \<or> c = CHR '':'' \<or> c = CHR ''.'')"
    | (esc) a b d q where "\<not> z" "\<not> is_hex c" "c = CHR ''%''" "cs = a # b # d # q" "a = CHR ''2''" "b = CHR ''5''"
        "bracket_rest True (d # q) = Some r"
    | (close) "cs = r"
    using "2.prems" by (simp only: bracket_rest.simps(2) [of z c cs])
      (auto simp del: bracket_rest.simps split: list.splits if_splits)
  then show ?case
  proof cases
    case zone
    then show ?thesis using 2 c1 by simp
  next
    case addr
    then show ?thesis using 2 c1 by simp
  next
    case esc
    then have "\<exists>w. d # q = w @ r" by (intro "2.IH"(3)) auto
    then obtain w where "d # q = w @ r" by blast
    then have "c # cs = (c # a # b # w) @ r" using esc by simp
    then show ?thesis by blast
  next
    case close
    then show ?thesis using c1 by auto
  qed
qed simp

lemma plain_rest_suffix:
  assumes "plain_rest s = Some r"
  shows "\<exists>w. s = w @ r"
proof -
  have "r = dropWhile is_host_char s"
    using assms by (auto simp: plain_rest_def split: list.splits if_splits simp del: dropWhile_eq_Nil_conv)
  then show ?thesis by (intro exI [of _ "takeWhile is_host_char s"]) simp
qed

definition result_texts :: "string \<Rightarrow> parsed_url \<times> error_code \<Rightarrow> url_text url_result" where
  "result_texts spec r = (case r of (out, ec) \<Rightarrow> if ec \<noteq> no_error then Inl ec else Inr (texts spec out))"

lemma parse_port_texts:
  assumes "i < j" and "j \<le> length spec"
  shows "result_texts spec (parse_port spec i j out no_error) = split_port (sub spec i j) (texts spec out)"
proof -
  let ?ds = "sub spec (Suc i) j"
  have s: "sub spec i j = spec ! i # ?ds" using assms by (simp add: sub_Cons)
  have len: "length ?ds = j - Suc i" using assms by simp
  have pd: "port_digits spec (Suc i) j 0 0 =
      (if \<forall>d \<in> set (take 5 ?ds). is_digit d
       then Some (Suc i + length (take 5 ?ds), dec_val (take 5 ?ds)) else None)"
    using assms by (subst port_digits_eq) (auto simp: Let_def dec_val_def)
  show ?thesis
  proof (cases "length ?ds > 5")
    case True
    then have "Suc i + length (take 5 ?ds) \<noteq> j" using len by simp
    then show ?thesis using True
      by (auto simp: result_texts_def parse_port_def split_port_def s pd Let_def)
  next
    case False
    then have t: "take 5 ?ds = ?ds" by simp
    have e: "Suc i + length ?ds = j" using assms by simp
    have v: "texts spec (out\<lparr>port := (Suc i, j - Suc i), port_value := dec_val ?ds mod 2 ^ 16\<rparr>) =
        (texts spec out)\<lparr>t_port := ?ds, t_port_value := dec_val ?ds mod 2 ^ 16\<rparr>"
      using assms by (simp add: texts_def sv_sub)
    have l: "length ?ds \<le> 5" using False by simp
    show ?thesis using v l e len unfolding result_texts_def parse_port_def split_port_def s pd t Let_def
      by (auto simp del: length_sub)
  qed
qed

lemma host_end:
  assumes "sub spec i j = w @ r" and "i \<le> j" and "j \<le> length spec"
  shows "j - length r = i + length w" and "sub spec (j - length r) j = r"
    and "sv spec (i, j - length r - i) = w"
proof -
  have "j - i = length w + length r" using assms by (metis length_append length_sub)
  then show 1: "j - length r = i + length w" using assms by simp
  show "sub spec (j - length r) j = r" unfolding 1 by (rule sub_append [OF assms(1)])
  have "i + length w \<le> j" using 1 by simp
  then have "sub spec i (i + length w) = w" using assms(1) by (simp add: sub_prefix)
  then show "sv spec (i, j - length r - i) = w" unfolding 1 using sv_sub [of spec i "i + length w"] by simp
qed

lemma parse_host_texts:
  assumes "i \<le> j" and "j \<le> length spec"
  shows "result_texts spec (parse_host spec i j out no_error) = split_host (sub spec i j) (texts spec out)"
proof (cases "i = j")
  case True
  then show ?thesis by (simp add: result_texts_def parse_host_def split_host_def)
next
  case False
  let ?s = "sub spec i j"
  have s: "?s = spec ! i # sub spec (Suc i) j" using False assms by (simp add: sub_Cons)
  define h where "h = (if spec ! i = CHR ''['' then bracket_host spec (Suc i) j False else plain_host spec i j)"
  define r where "r = (if spec ! i = CHR ''['' then bracket_rest False (sub spec (Suc i) j) else plain_rest ?s)"
  have hr: "h = map_option (\<lambda>r. j - length r) r"
    using False assms by (simp add: h_def r_def bracket_host_eq plain_host_eq)
  have ph: "parse_host spec i j out no_error =
      (case h of None \<Rightarrow> (out, ec_url invalid_character)
       | Some f \<Rightarrow> (let out' = out\<lparr>host := (i, f - i)\<rparr> in
           if f = j then (out', no_error) else parse_port spec f j out' no_error))"
    using False by (simp add: parse_host_def h_def)
  have sh: "split_host ?s T = (case r of None \<Rightarrow> bad_char
      | Some r' \<Rightarrow> split_port r' (T\<lparr>t_host := take (length ?s - length r') ?s\<rparr>))" for T
    by (simp only: split_host_def r_def s list.case)
  show ?thesis
  proof (cases r)
    case None
    then show ?thesis by (simp add: ph sh hr result_texts_def)
  next
    case (Some r')
    have "\<exists>w. ?s = w @ r'"
    proof (cases "spec ! i = CHR ''[''")
      case True
      then have "bracket_rest False (sub spec (Suc i) j) = Some r'" using Some r_def by simp
      from bracket_rest_suffix [OF this] obtain w where "sub spec (Suc i) j = w @ r'" by blast
      then show ?thesis using s by (intro exI [of _ "spec ! i # w"]) simp
    next
      case False
      then show ?thesis using Some plain_rest_suffix r_def by simp
    qed
    then obtain w where w: "?s = w @ r'" by blast
    note he = host_end [OF w assms]
    have le: "j - length r' \<le> j" by simp
    have tx: "texts spec (out\<lparr>host := (i, j - length r' - i)\<rparr>) = (texts spec out)\<lparr>t_host := w\<rparr>"
      using he(3) by (simp add: texts_def)
    have e: "j - length r' = j \<longleftrightarrow> r' = []" using he(2) assms sub_Nil_iff [OF le assms(2)] by auto
    have "split_host ?s (texts spec out) = split_port r' ((texts spec out)\<lparr>t_host := w\<rparr>)"
      unfolding sh Some using w by simp
    moreover have "result_texts spec (parse_host spec i j out no_error) =
        split_port r' ((texts spec out)\<lparr>t_host := w\<rparr>)"
    proof (cases "r' = []")
      case True
      then show ?thesis using tx Some hr by (simp add: ph result_texts_def split_port_def)
    next
      case False
      then have "j - length r' < j" using e le by linarith
      note pp = parse_port_texts [OF this assms(2)]
      show ?thesis using False e Some hr tx he(2) by (simp add: ph Let_def pp)
    qed
    ultimately show ?thesis by simp
  qed
qed

lemma parse_authority_texts:
  assumes "i \<le> j" and "j \<le> length spec"
  shows "result_texts spec (parse_authority spec i j hu out no_error) =
    split_userinfo hu (sub spec i j) (texts spec out)"
proof (cases hu)
  case False
  then show ?thesis using parse_host_texts [OF assms] by (simp add: parse_authority_def split_userinfo_def)
next
  case True
  let ?s = "sub spec i j"
  let ?w = "takeWhile is_user_char ?s" and ?r = "dropWhile is_user_char ?s"
  have w: "?s = ?w @ ?r" by simp
  let ?f = "skip_userinfo spec i j"
  have f: "?f = i + length ?w" by (rule skip_userinfo_eq [OF assms])
  have r: "sub spec ?f j = ?r" unfolding f by (rule sub_append [OF w])
  have fj: "?f \<le> j" using length_takeWhile_le [of is_user_char ?s] assms f by simp
  show ?thesis
  proof (cases ?r)
    case Nil
    then have "?f = j" using r fj assms sub_Nil_iff by metis
    then show ?thesis using True unfolding parse_authority_def split_userinfo_def Nil
      by (simp add: result_texts_def)
  next
    case (Cons c r')
    then have "?f \<noteq> j" using r by auto
    then have lt: "?f < j" using fj by simp
    then have c: "spec ! ?f = c" "sub spec (Suc ?f) j = r'"
      using r Cons sub_Cons [OF lt assms(2)] by auto
    have "sv spec (i, ?f - i) = ?w"
      using f fj assms sub_prefix [of i "length ?w" j spec] w
      by (metis append_eq_conv_conj sv_sub)
    then have tx: "texts spec (out\<lparr>userinfo := (i, ?f - i)\<rparr>) = (texts spec out)\<lparr>t_userinfo := ?w\<rparr>"
      by (simp add: texts_def)
    have "Suc ?f \<le> j" using lt by simp
    note ph = parse_host_texts [OF this assms(2)]
    show ?thesis
    proof (cases "c = CHR ''@''")
      case at: True
      then show ?thesis using True lt c tx
        unfolding parse_authority_def split_userinfo_def Cons Let_def by (simp add: ph)
    next
      case False
      then show ?thesis using True lt c
        unfolding parse_authority_def split_userinfo_def Cons Let_def by (simp add: result_texts_def)
    qed
  qed
qed

end
