(* ===== verification/UrlCorrect.thy ===== *)
theory UrlCorrect
  imports UrlAuthority
begin

text \<open>
  Correctness of \<^verbatim>\<open>detail::parse_url\<close>: the views stay inside the text, the result is
  the one of the specification, every well-formed URL parses to the components it was put together
  from, and the port value is the decimal value of the port text.
\<close>

section \<open>Bounds of the views\<close>

definition view_ok :: "string \<Rightarrow> view \<Rightarrow> bool" where
  "view_ok spec v = (fst v + snd v \<le> length spec)"

definition views_ok :: "string \<Rightarrow> parsed_url \<Rightarrow> bool" where
  "views_ok spec out =
     (view_ok spec (scheme out) \<and> view_ok spec (userinfo out) \<and> view_ok spec (host out) \<and>
      view_ok spec (port out) \<and> view_ok spec (path out) \<and> view_ok spec (query out) \<and>
      view_ok spec (fragment out))"

lemma views_ok_init: "views_ok spec parsed_url_init"
  by (simp add: views_ok_def view_ok_def parsed_url_init_def)

lemma views_ok_set_part: "views_ok spec out \<Longrightarrow> view_ok spec v \<Longrightarrow> views_ok spec (set_part p v out)"
  by (cases "(p, v, out)" rule: set_part.cases) (auto simp: views_ok_def)

text \<open>
  The invariant of the loop. The last two conjuncts are what the rewind needs: behind a scheme
  \<open>first\<close> points to the colon, at least two characters back.
\<close>

definition loop_inv :: "string \<Rightarrow> parse_state \<Rightarrow> bool" where
  "loop_inv spec ps =
     (views_ok spec (ps_out ps) \<and> ps_first ps \<le> ps_it ps \<and> ps_it ps \<le> length spec \<and>
      ps_part ps = part_from_state (ps_state ps) \<and>
      (ps_state ps = st_scheme_suffix \<longrightarrow> ps_first ps < ps_it ps) \<and>
      (ps_state ps = st_scheme_suffix_slash \<longrightarrow> Suc (ps_first ps) < ps_it ps))"

lemma loop_inv_init: "views_ok spec out \<Longrightarrow> loop_inv spec (parse_init out)"
  by (simp add: loop_inv_def parse_init_def)

lemma suffix_pred:
  "get_state_for s c = st_scheme_suffix \<Longrightarrow> s = st_scheme"
  "get_state_for s c = st_scheme_suffix_slash \<Longrightarrow> s = st_scheme_suffix"
  by (cases s; auto split: if_splits)+

lemma loop_inv_step:
  assumes "loop_inv spec ps" and "ps_it ps < length spec" and s: "s = get_state_for (ps_state ps) (spec ! ps_it ps)"
  shows "loop_inv spec (parse_step s ps)"
proof -
  let ?it = "if s = st_path_after_scheme then ps_it ps - 1 else ps_it ps"
  have it: "ps_first ps \<le> ?it" "?it \<le> ps_it ps"
    using assms path_after_scheme_only_after_slash by (fastforce simp: loop_inv_def)+
  have suf: "s = st_scheme_suffix \<Longrightarrow> ps_part ps = Some part_scheme"
    "s = st_scheme_suffix_slash \<Longrightarrow> ps_part ps = None \<and> ps_first ps < ps_it ps"
    using assms suffix_pred [of "ps_state ps" "spec ! ps_it ps"] by (auto simp: loop_inv_def)
  have out: "views_ok spec (set_part (ps_part ps) (ps_first ps, ?it - ps_first ps) (ps_out ps))"
    by (rule views_ok_set_part) (use assms it in \<open>auto simp: loop_inv_def view_ok_def\<close>)
  show ?thesis
    using assms(1,2) it suf out unfolding loop_inv_def parse_step_def Let_def by auto
qed

lemma parse_loop_inv:
  "loop_inv spec ps \<Longrightarrow> parse_loop spec ps = (e, ps') \<Longrightarrow>
     loop_inv spec ps' \<and> (e = no_error \<or> e = ec_url invalid_character) \<and>
     (e = no_error \<longrightarrow> ps_it ps' = length spec)"
proof (induction spec ps rule: parse_loop.induct)
  case (1 spec ps)
  show ?case
  proof (cases "ps_it ps < length spec \<and> get_state_for (ps_state ps) (spec ! ps_it ps) \<noteq> st_invalid")
    case True
    then have "parse_loop spec (parse_step (get_state_for (ps_state ps) (spec ! ps_it ps)) ps) = (e, ps')"
      using "1.prems"(2) parse_loop.simps [of spec ps] by (simp add: Let_def)
    then show ?thesis using True "1.IH" loop_inv_step [OF "1.prems"(1)] by blast
  next
    case False
    then show ?thesis using "1.prems" parse_loop.simps [of spec ps]
      by (auto simp: Let_def loop_inv_def split: if_splits)
  qed
qed

lemma close_part_ok: "loop_inv spec ps \<Longrightarrow> views_ok spec (close_part ps)"
  unfolding close_part_def by (rule views_ok_set_part) (auto simp: loop_inv_def view_ok_def)

lemma skip_userinfo_bounds: "i \<le> j \<Longrightarrow> j \<le> length spec \<Longrightarrow> skip_userinfo spec i j \<in> {i..j}"
  using length_takeWhile_le [of is_user_char "sub spec i j"] by (auto simp: skip_userinfo_eq)

lemma host_bounds:
  assumes "i < j" and "j \<le> length spec"
    and "(if spec ! i = CHR ''['' then bracket_host spec (Suc i) j False else plain_host spec i j) = Some f"
  shows "i \<le> f \<and> f \<le> j"
proof (cases "spec ! i = CHR ''[''")
  case True
  then obtain r where r: "bracket_rest False (sub spec (Suc i) j) = Some r" "f = j - length r"
    using assms by (auto simp: bracket_host_eq)
  obtain w where "sub spec (Suc i) j = w @ r" using bracket_rest_suffix [OF r(1)] by blast
  then show ?thesis using host_end(1) [of spec "Suc i" j w r] assms r(2) by simp
next
  case False
  then obtain r where r: "plain_rest (sub spec i j) = Some r" "f = j - length r"
    using assms by (auto simp: plain_host_eq)
  obtain w where "sub spec i j = w @ r" using plain_rest_suffix [OF r(1)] by blast
  then show ?thesis using host_end(1) [of spec i j w r] assms r(2) by simp
qed

lemma parse_port_ok:
  assumes "views_ok spec out" and "i < j" and "j \<le> length spec"
  shows "views_ok spec (fst (parse_port spec i j out ec))"
  using assms by (auto simp: parse_port_def port_digits_eq Let_def views_ok_def view_ok_def split: option.split)

lemma parse_host_ok:
  assumes "views_ok spec out" and "i \<le> j" and "j \<le> length spec"
  shows "views_ok spec (fst (parse_host spec i j out ec))"
proof (cases "i = j")
  case True
  then show ?thesis using assms by (simp add: parse_host_def)
next
  case False
  then have lt: "i < j" using assms by simp
  show ?thesis
  proof (cases "if spec ! i = CHR ''['' then bracket_host spec (Suc i) j False else plain_host spec i j")
    case None
    then show ?thesis using False assms by (simp add: parse_host_def)
  next
    case (Some f)
    have f: "i \<le> f" "f \<le> j" using host_bounds [OF lt assms(3) Some] by simp_all
    then have "views_ok spec (out\<lparr>host := (i, f - i)\<rparr>)"
      using assms by (simp add: views_ok_def view_ok_def)
    then show ?thesis using False f assms parse_port_ok [of spec _ f j]
      unfolding parse_host_def Some by (cases "f = j") (simp_all add: Let_def)
  qed
qed

lemma parse_authority_ok:
  assumes "views_ok spec out" and "i \<le> j" and "j \<le> length spec"
  shows "views_ok spec (fst (parse_authority spec i j hu out ec))"
proof (cases hu)
  case False
  then show ?thesis using parse_host_ok [OF assms] by (simp add: parse_authority_def)
next
  case True
  let ?f = "skip_userinfo spec i j"
  have f: "i \<le> ?f" "?f \<le> j" using skip_userinfo_bounds [OF assms(2,3)] by auto
  then have "views_ok spec (out\<lparr>userinfo := (i, ?f - i)\<rparr>)"
    using assms by (simp add: views_ok_def view_ok_def)
  then show ?thesis using True assms f parse_host_ok [of spec _ "Suc ?f" j]
    by (simp add: parse_authority_def Let_def)
qed

lemma parse_url_ok: "views_ok spec out \<Longrightarrow> views_ok spec (fst (parse_url spec out))"
proof -
  assume out: "views_ok spec out"
  obtain e ps where pl: "parse_loop spec (parse_init out) = (e, ps)" by fastforce
  note inv = parse_loop_inv [OF loop_inv_init [OF out] pl]
  note c = close_part_ok [OF conjunct1 [OF inv]]
  show ?thesis
  proof (cases "e = no_error")
    case False
    then show ?thesis using pl inv by (simp add: parse_url_def loop_inv_def)
  next
    case True
    have b: "fst (host (close_part ps)) + snd (host (close_part ps)) \<le> length spec"
      using c by (simp add: views_ok_def view_ok_def)
    show ?thesis using True pl c parse_authority_ok [OF c _ b]
      by (simp add: parse_url_def close_part_def [symmetric] Let_def)
  qed
qed

lemma parse_url_texts:
  "result_texts spec (parse_url spec parsed_url_init) = url_spec spec"
proof -
  obtain e ps where pl: "parse_loop spec (parse_init parsed_url_init) = (e, ps)" by fastforce
  note inv = parse_loop_inv [OF loop_inv_init [OF views_ok_init] pl]
  note c = close_part_ok [OF conjunct1 [OF inv]]
  have lt: "split_url spec = (if e \<noteq> no_error then Inl e else Inr (ps_has_userinfo ps, texts spec (close_part ps)))"
    unfolding loop_url [symmetric] loop_texts_def pl by simp
  show ?thesis
  proof (cases "e = no_error")
    case False
    then show ?thesis using lt pl by (simp add: parse_url_def url_spec_def result_texts_def)
  next
    case True
    let ?o = "close_part ps"
    let ?f = "fst (host ?o)" and ?n = "snd (host ?o)"
    have b: "?f + ?n \<le> length spec" using c by (simp add: views_ok_def view_ok_def)
    have h: "t_host (texts spec ?o) = sub spec ?f (?f + ?n)"
      by (simp add: texts_def sv_def sub_def)
    have n: "?n \<noteq> 0 \<longleftrightarrow> t_host (texts spec ?o) \<noteq> []" unfolding h using b by (simp add: sub_Nil_iff)
    have "parse_url spec parsed_url_init =
       (if ?n \<noteq> 0 then parse_authority spec ?f (?f + ?n) (ps_has_userinfo ps) ?o no_error else (?o, no_error))"
      using True pl by (simp add: parse_url_def close_part_def Let_def)
    moreover have "result_texts spec (parse_authority spec ?f (?f + ?n) (ps_has_userinfo ps) ?o no_error) =
        split_userinfo (ps_has_userinfo ps) (t_host (texts spec ?o)) (texts spec ?o)"
      unfolding h by (rule parse_authority_texts) (use b in auto)
    ultimately show ?thesis using n True lt
      by (cases "?n = 0") (auto simp: url_spec_def result_texts_def)
  qed
qed

section \<open>Round trip\<close>

text \<open>The text of a URL with an authority, put together from its components.\<close>

definition render_authority :: "url_text \<Rightarrow> string" where
  "render_authority t =
     (if t_userinfo t = [] then [] else t_userinfo t @ ''@'') @ t_host t @
     (if t_port t = [] then [] else '':'' @ t_port t)"

definition render_tail :: "url_text \<Rightarrow> string" where
  "render_tail t =
     t_path t @ (if t_query t = [] then [] else ''?'' @ t_query t) @
     (if t_fragment t = [] then [] else ''#'' @ t_fragment t)"

definition render_url :: "url_text \<Rightarrow> string" where
  "render_url t = t_scheme t @ ''://'' @ render_authority t @ render_tail t"

text \<open>
  Which components make a URL: the character classes, a host name or address without brackets, a
  port of at most five digits that fits 16 bits, an absolute path, and a fragment only behind a
  path or a query.
\<close>

definition url_ok :: "url_text \<Rightarrow> bool" where
  "url_ok t =
     (t_scheme t \<noteq> [] \<and> isalpha_ascii (hd (t_scheme t)) \<and> (\<forall>c \<in> set (t_scheme t). is_scheme_char c) \<and>
      (\<forall>c \<in> set (t_userinfo t). is_user_char c) \<and>
      t_host t \<noteq> [] \<and> (\<forall>c \<in> set (t_host t). is_host_char c) \<and>
      (\<forall>c \<in> set (t_port t). is_digit c) \<and> length (t_port t) \<le> 5 \<and>
      dec_val (t_port t) \<le> 65535 \<and> t_port_value t = dec_val (t_port t) \<and>
      (t_path t = [] \<or> hd (t_path t) = CHR ''/'') \<and> (\<forall>c \<in> set (t_path t). is_url_char c) \<and>
      (\<forall>c \<in> set (t_query t). is_query_char c) \<and>
      (\<forall>c \<in> set (t_fragment t). is_fragment_char c) \<and>
      (t_fragment t \<noteq> [] \<longrightarrow> hd (t_fragment t) \<noteq> CHR ''#'' \<and> (t_path t \<noteq> [] \<or> t_query t \<noteq> [])))"

lemma host_char_authority: "is_host_char c \<Longrightarrow> is_authority_char c"
  by (auto simp: is_host_char_def is_authority_char_def is_user_char_def is_mark_def)

lemma digit_authority: "is_digit c \<Longrightarrow> is_authority_char c"
  by (simp add: is_digit_def is_authority_char_def is_user_char_def isalnum_ascii_def)

lemma host_char_no_special:
  "is_host_char c \<Longrightarrow> c \<noteq> CHR ''@'' \<and> c \<noteq> CHR ''['' \<and> c \<noteq> CHR '':''"
  by (auto simp del: of_char_eq_iff)

lemma digit_no_at: "is_digit c \<Longrightarrow> c \<noteq> CHR ''@''"
  by (auto simp: is_digit_def)

lemma at_ok_no_at: "CHR ''@'' \<notin> set w \<Longrightarrow> at_ok p w"
  by (induction w arbitrary: p) auto

lemma at_ok_one: "CHR ''@'' \<notin> set v \<Longrightarrow> CHR ''@'' \<notin> set w \<Longrightarrow> at_ok False (v @ CHR ''@'' # w)"
proof -
  assume "CHR ''@'' \<notin> set v" and w: "CHR ''@'' \<notin> set w"
  moreover have "CHR ''@'' \<notin> set v \<Longrightarrow> at_ok False (v @ CHR ''@'' # w)"
    using at_ok_no_at [OF w] by (induction v) auto
  ultimately show ?thesis by blast
qed

lemma split_fragment_ok:
  assumes "\<forall>c \<in> set f. is_fragment_char c" and "f \<noteq> [] \<longrightarrow> hd f \<noteq> CHR ''#''"
  shows "split_fragment f t = Inr (t\<lparr>t_fragment := f\<rparr>)"
proof -
  have "dropWhile (\<lambda>c. c = CHR ''#'') f = f" using assms(2) by (cases f) auto
  then show ?thesis using assms(1) by (simp add: split_fragment_def)
qed

lemma split_query_ok:
  assumes "\<forall>c \<in> set q. is_query_char c" and "\<forall>c \<in> set f. is_fragment_char c"
    and "f \<noteq> [] \<longrightarrow> hd f \<noteq> CHR ''#''" and "t_fragment t = []"
  shows "split_query (q @ (if f = [] then [] else ''#'' @ f)) t = Inr (t\<lparr>t_query := q, t_fragment := f\<rparr>)"
proof -
  let ?r = "if f = [] then [] else ''#'' @ f"
  have r: "?r = [] \<or> \<not> is_query_char (hd ?r)" by simp
  show ?thesis using assms(4) split_fragment_ok [OF assms(2,3)]
    unfolding split_query_def span_stop [OF assms(1) r] Let_def by simp
qed

lemma split_tail_ok:
  assumes "url_ok t" and "t_path t' = []" and "t_query t' = []" and "t_fragment t' = []"
  shows "split_tail (render_tail t) t' =
    Inr (t'\<lparr>t_path := t_path t, t_query := t_query t, t_fragment := t_fragment t\<rparr>)"
proof (cases "t_path t")
  case Nil
  then show ?thesis
  proof (cases "t_query t = []")
    case True
    then have "t_fragment t = []" using Nil assms(1) by (auto simp: url_ok_def)
    then show ?thesis using True Nil assms(2-4) by (simp add: render_tail_def split_tail_def)
  next
    case False
    then have "split_tail (render_tail t) t' =
        split_query (t_query t @ (if t_fragment t = [] then [] else ''#'' @ t_fragment t)) t'"
      using Nil by (simp add: render_tail_def split_tail_def)
    also have "\<dots> = Inr (t'\<lparr>t_query := t_query t, t_fragment := t_fragment t\<rparr>)"
      by (rule split_query_ok) (use assms in \<open>auto simp: url_ok_def\<close>)
    finally show ?thesis using Nil assms(2) by simp
  qed
next
  case (Cons c p)
  let ?r = "(if t_query t = [] then [] else ''?'' @ t_query t) @
     (if t_fragment t = [] then [] else ''#'' @ t_fragment t)"
  have c: "c = CHR ''/''" and u: "\<forall>c \<in> set (t_path t). is_url_char c"
    using assms(1) Cons by (auto simp: url_ok_def)
  have r: "?r = [] \<or> \<not> is_url_char (hd ?r)" by simp
  have f: "split_fragment (t_fragment t) T = Inr (T\<lparr>t_fragment := t_fragment t\<rparr>)" for T
    by (rule split_fragment_ok) (use assms in \<open>auto simp: url_ok_def\<close>)
  have q: "t_fragment T = [] \<Longrightarrow>
      split_query (t_query t @ (if t_fragment t = [] then [] else ''#'' @ t_fragment t)) T =
      Inr (T\<lparr>t_query := t_query t, t_fragment := t_fragment t\<rparr>)" for T
    by (rule split_query_ok) (use assms in \<open>auto simp: url_ok_def\<close>)
  have "split_tail (render_tail t) t' = split_path (t_path t @ ?r) t'"
    using Cons c by (simp add: render_tail_def split_tail_def)
  also have "\<dots> = Inr (t'\<lparr>t_path := t_path t, t_query := t_query t, t_fragment := t_fragment t\<rparr>)"
    using assms(3,4) f q [of "t'\<lparr>t_path := t_path t\<rparr>"]
    unfolding split_path_def span_stop [OF u r] Let_def by auto
  finally show ?thesis .
qed

lemma authority_chars:
  assumes "url_ok t"
  shows "\<forall>c \<in> set (render_authority t). is_authority_char c"
    and "at_ok False (render_authority t)"
    and "(CHR ''@'' \<in> set (render_authority t)) = (t_userinfo t \<noteq> [])"
    and "render_authority t \<noteq> []"
proof -
  have p: "is_authority_char CHR '':''" by (simp add: is_authority_char_def is_user_char_def)
  have u: "is_user_char c \<Longrightarrow> is_authority_char c" for c by (simp add: is_authority_char_def)
  show "\<forall>c \<in> set (render_authority t). is_authority_char c"
    using assms p u host_char_authority digit_authority by (auto simp: render_authority_def url_ok_def)
  have hp: "CHR ''@'' \<notin> set (t_host t @ (if t_port t = [] then [] else '':'' @ t_port t))"
    using assms by (auto simp: url_ok_def dest: host_char_no_special digit_no_at)
  have un: "CHR ''@'' \<notin> set (t_userinfo t)" using assms by (auto simp: url_ok_def)
  show "at_ok False (render_authority t)"
    using at_ok_no_at [OF hp, of False] at_ok_one [OF un hp] by (simp add: render_authority_def)
  show "(CHR ''@'' \<in> set (render_authority t)) = (t_userinfo t \<noteq> [])"
    using hp un by (auto simp: render_authority_def)
  show "render_authority t \<noteq> []" using assms by (simp add: render_authority_def url_ok_def)
qed

lemma split_host_ok:
  assumes "url_ok t" and "t_port t' = []" and "t_port_value t' = 0"
  shows "split_host (t_host t @ (if t_port t = [] then [] else '':'' @ t_port t)) t' =
    Inr (t'\<lparr>t_host := t_host t, t_port := t_port t, t_port_value := t_port_value t\<rparr>)"
proof -
  let ?r = "if t_port t = [] then [] else '':'' @ t_port t"
  obtain c h where h: "t_host t = c # h" and hc: "\<forall>c \<in> set (t_host t). is_host_char c"
    using assms(1) by (cases "t_host t") (auto simp: url_ok_def)
  have c: "c \<noteq> CHR ''[''" using hc h host_char_no_special by auto
  have r: "?r = [] \<or> \<not> is_host_char (hd ?r)" by simp
  have "plain_rest (t_host t @ ?r) = Some ?r"
    unfolding plain_rest_def span_stop [OF hc r] by simp
  then have sh: "split_host (t_host t @ ?r) t' = split_port ?r (t'\<lparr>t_host := t_host t\<rparr>)"
    using c unfolding split_host_def h by simp
  have pl: "length (t_port t) \<le> 5" and pd: "\<forall>d \<in> set (t_port t). is_digit d"
    and pv: "dec_val (t_port t) \<le> 65535" "t_port_value t = dec_val (t_port t)"
    using assms(1) by (auto simp: url_ok_def)
  have "split_port ?r (t'\<lparr>t_host := t_host t\<rparr>) =
      Inr (t'\<lparr>t_host := t_host t, t_port := t_port t, t_port_value := t_port_value t\<rparr>)"
  proof (cases "t_port t = []")
    case True
    then show ?thesis using assms(2,3) pv by (simp add: split_port_def dec_val_def)
  next
    case False
    then show ?thesis using pl pd pv by (simp add: split_port_def)
  qed
  then show ?thesis using sh by simp
qed

lemma split_userinfo_ok:
  assumes "url_ok t" and "t_port t' = []" and "t_port_value t' = 0" and "t_userinfo t' = []"
  shows "split_userinfo (t_userinfo t \<noteq> []) (render_authority t) t' =
    Inr (t'\<lparr>t_userinfo := t_userinfo t, t_host := t_host t, t_port := t_port t,
            t_port_value := t_port_value t\<rparr>)"
proof (cases "t_userinfo t = []")
  case True
  then show ?thesis using split_host_ok [OF assms(1-3)] assms(4)
    by (simp add: split_userinfo_def render_authority_def)
next
  case False
  let ?r = "''@'' @ t_host t @ (if t_port t = [] then [] else '':'' @ t_port t)"
  have u: "\<forall>c \<in> set (t_userinfo t). is_user_char c" using assms(1) by (simp add: url_ok_def)
  have r: "?r = [] \<or> \<not> is_user_char (hd ?r)" by simp
  have "render_authority t = t_userinfo t @ ?r" using False by (simp add: render_authority_def)
  then show ?thesis
    using False split_host_ok [OF assms(1), of "t'\<lparr>t_userinfo := t_userinfo t\<rparr>"] assms(2,3)
    unfolding split_userinfo_def by (simp only: span_stop [OF u r]) simp
qed

lemma url_spec_render:
  assumes "url_ok t"
  shows "url_spec (render_url t) = Inr t"
proof -
  have tail: "render_tail t = [] \<or> \<not> is_authority_char (hd (render_tail t))"
    using assms by (cases "t_path t"; auto simp: render_tail_def url_ok_def)
  note a = authority_chars [OF assms]
  let ?t1 = "no_text\<lparr>t_scheme := t_scheme t\<rparr>"
  let ?t2 = "?t1\<lparr>t_host := render_authority t, t_path := t_path t, t_query := t_query t,
               t_fragment := t_fragment t\<rparr>"
  have st: "split_tail (render_tail t) (?t1\<lparr>t_host := render_authority t\<rparr>) = Inr ?t2"
    using split_tail_ok [OF assms, of "?t1\<lparr>t_host := render_authority t\<rparr>"] by (simp add: no_text_def)
  have sa: "split_authority (render_authority t @ render_tail t) ?t1 =
      (if \<not> at_ok False (render_authority t) then bad_char
       else map_sum id (Pair (CHR ''@'' \<in> set (render_authority t)))
         (split_tail (render_tail t) (?t1\<lparr>t_host := render_authority t\<rparr>)))"
    unfolding split_authority_def span_stop [OF a(1) tail] Let_def split_tail_def ..
  obtain c s where cs: "t_scheme t = c # s" and c: "isalpha_ascii c"
    and sc: "\<forall>c \<in> set (t_scheme t). is_scheme_char c"
    using assms by (cases "t_scheme t") (auto simp: url_ok_def)
  let ?r = "''://'' @ render_authority t @ render_tail t"
  have r: "?r = [] \<or> \<not> is_scheme_char (hd ?r)" by simp
  have ru: "render_url t = c # s @ ?r" "render_url t = t_scheme t @ ?r" by (simp_all add: render_url_def cs)
  have c': "c \<noteq> CHR ''/''" "c \<noteq> CHR ''*''" using c by (auto simp: isalpha_iff)
  have "split_url (render_url t) = Inr (t_userinfo t \<noteq> [], ?t2)"
    unfolding split_url_Cons [OF ru(1)] unfolding ru(2) span_stop [OF sc r] Let_def
    using c c' a(2,3) st sa by simp
  moreover have "split_userinfo (t_userinfo t \<noteq> []) (render_authority t) ?t2 = Inr t"
    using split_userinfo_ok [OF assms, of ?t2] by (simp add: no_text_def)
  ultimately show ?thesis using a(4) by (simp add: url_spec_def)
qed

section \<open>The port\<close>

text \<open>Nothing but the port section touches the port, and that section writes both members.\<close>

definition port_consistent :: "string \<Rightarrow> parsed_url \<Rightarrow> bool" where
  "port_consistent spec out =
     (port_value out = dec_val (sv spec (port out)) \<and> length (sv spec (port out)) = snd (port out) \<and>
      snd (port out) \<le> max_port_digits \<and> (\<forall>d \<in> set (sv spec (port out)). is_digit d) \<and>
      port_value out \<le> 65535)"

lemma port_consistent_empty: "port out = (i, 0) \<Longrightarrow> port_value out = 0 \<Longrightarrow> port_consistent spec out"
  by (simp add: port_consistent_def sv_def dec_val_def)

lemma set_part_port [simp]:
  "port (set_part p v out) = port out" "port_value (set_part p v out) = port_value out"
  by (cases "(p, v, out)" rule: set_part.cases; simp)+

lemma parse_step_port [simp]:
  "port (ps_out (parse_step s ps)) = port (ps_out ps)"
  "port_value (ps_out (parse_step s ps)) = port_value (ps_out ps)"
  by (simp_all add: parse_step_def Let_def)

lemma parse_loop_port:
  "parse_loop spec ps = (e, ps') \<Longrightarrow>
     port (ps_out ps') = port (ps_out ps) \<and> port_value (ps_out ps') = port_value (ps_out ps)"
proof (induction spec ps rule: parse_loop.induct)
  case (1 spec ps)
  show ?case
  proof (cases "ps_it ps < length spec \<and> get_state_for (ps_state ps) (spec ! ps_it ps) \<noteq> st_invalid")
    case True
    then have "parse_loop spec (parse_step (get_state_for (ps_state ps) (spec ! ps_it ps)) ps) = (e, ps')"
      using "1.prems" parse_loop.simps [of spec ps] by (simp add: Let_def)
    then show ?thesis using True "1.IH" by fastforce
  next
    case False
    then show ?thesis using "1.prems" parse_loop.simps [of spec ps] by (auto simp: Let_def split: if_splits)
  qed
qed

lemma parse_port_consistent:
  assumes "port out = empty_view" and "port_value out = 0" and "i < j" and "j \<le> length spec"
  shows "port_consistent spec (fst (parse_port spec i j out ec))"
proof -
  let ?ds = "sub spec (Suc i) j"
  have old: "port_consistent spec out" using assms(1,2) by (auto intro: port_consistent_empty)
  have new: "port_consistent spec (out\<lparr>port := (Suc i, j - Suc i), port_value := dec_val ?ds mod 2 ^ 16\<rparr>)"
    if "length ?ds \<le> 5" "\<forall>d \<in> set ?ds. is_digit d" "dec_val ?ds \<le> 65535"
    using that assms(3,4) by (simp add: port_consistent_def sv_sub max_port_digits_def)
  have t: "take 5 ?ds = ?ds" if "Suc (i + length (take 5 ?ds)) = j"
    using that assms(3,4) by auto
  show ?thesis
    using old assms(3,4) new t
    by (auto simp: parse_port_def port_digits_eq Let_def dec_val_def not_less split: option.split)
qed

lemma parse_host_consistent:
  assumes "port out = empty_view" and "port_value out = 0" and "i \<le> j" and "j \<le> length spec"
  shows "port_consistent spec (fst (parse_host spec i j out ec))"
proof (cases "i = j")
  case True
  then show ?thesis using assms port_consistent_empty by (simp add: parse_host_def)
next
  case False
  then have lt: "i < j" using assms by simp
  show ?thesis
  proof (cases "if spec ! i = CHR ''['' then bracket_host spec (Suc i) j False else plain_host spec i j")
    case None
    then show ?thesis using False assms port_consistent_empty by (simp add: parse_host_def)
  next
    case (Some f)
    have f: "f \<le> j" using host_bounds [OF lt assms(4) Some] by simp
    show ?thesis using False f assms parse_port_consistent [of _ f j spec] port_consistent_empty
      unfolding parse_host_def Some by (cases "f = j") (simp_all add: Let_def)
  qed
qed

lemma parse_authority_consistent:
  assumes "port out = empty_view" and "port_value out = 0" and "i \<le> j" and "j \<le> length spec"
  shows "port_consistent spec (fst (parse_authority spec i j hu out ec))"
proof (cases hu)
  case False
  then show ?thesis using parse_host_consistent [OF assms] by (simp add: parse_authority_def)
next
  case True
  have "skip_userinfo spec i j \<le> j" using skip_userinfo_bounds [OF assms(3,4)] by auto
  then show ?thesis using True assms port_consistent_empty parse_host_consistent [of _ "Suc (skip_userinfo spec i j)" j spec]
    by (simp add: parse_authority_def Let_def)
qed

lemma parse_url_port_consistent: "port_consistent spec (fst (parse_url spec parsed_url_init))"
proof -
  obtain e ps where pl: "parse_loop spec (parse_init parsed_url_init) = (e, ps)" by fastforce
  have p: "port (ps_out ps) = empty_view" "port_value (ps_out ps) = 0"
    using parse_loop_port [OF pl] by (simp_all add: parse_init_def parsed_url_init_def)
  note c = close_part_ok [OF conjunct1 [OF parse_loop_inv [OF loop_inv_init [OF views_ok_init] pl]]]
  show ?thesis
  proof (cases "e = no_error")
    case False
    then show ?thesis using pl p port_consistent_empty by (simp add: parse_url_def)
  next
    case True
    have b: "fst (host (close_part ps)) + snd (host (close_part ps)) \<le> length spec"
      using c by (simp add: views_ok_def view_ok_def)
    have "port (close_part ps) = empty_view" "port_value (close_part ps) = 0"
      using p by (simp_all add: close_part_def)
    then show ?thesis using True pl parse_authority_consistent [OF _ _ _ b] port_consistent_empty
      by (simp add: parse_url_def close_part_def [symmetric] Let_def)
  qed
qed

section \<open>Properties\<close>

text \<open>
  C1. The loop of \<^verbatim>\<open>parse_url\<close>, with its pointers and its rewind, and the authority parser
  compute the specification: on every text the same components, or the same error.
\<close>

theorem parse_url_computes_spec:
  "result_texts spec (parse_url spec parsed_url_init) = url_spec spec"
  by (rule parse_url_texts)

text \<open>
  C2. Round trip: the text put together from well-formed components parses without an error, to
  exactly these components and the port's value.
\<close>

theorem parse_url_round_trip:
  assumes "url_ok t"
  shows "result_texts (render_url t) (parse_url (render_url t) parsed_url_init) = Inr t"
  using url_spec_render [OF assms] parse_url_texts by simp

definition sample_url :: url_text where
  "sample_url =
     \<lparr>t_scheme = ''https'', t_userinfo = ''me:pw'', t_host = ''example.com'', t_port = ''8080'',
      t_path = ''/a/b'', t_query = ''x=1'', t_fragment = ''top'', t_port_value = 8080\<rparr>"

lemma sample_url_ok: "url_ok sample_url"
  by (simp add: url_ok_def sample_url_def is_scheme_char_def is_host_char_def is_digit_def dec_val_def
      is_query_char_def is_fragment_char_def char_class_iff)

theorem parse_url_round_trip_witness:
  "result_texts (render_url sample_url) (parse_url (render_url sample_url) parsed_url_init) = Inr sample_url"
  by (rule parse_url_round_trip [OF sample_url_ok])

text \<open>C40. Every view of the result lies within the text, whether or not there is an error.\<close>

theorem parse_url_views_in_bounds: "views_ok spec (fst (parse_url spec parsed_url_init))"
  by (rule parse_url_ok [OF views_ok_init])

text \<open>
  The port: at most five characters, all digits, and the 16 bit value is the decimal value of
  the text, so the narrowing cast loses nothing.
\<close>

theorem parse_url_port_is_decimal:
  "case parse_url spec parsed_url_init of (out, ec) \<Rightarrow>
     port_value out = dec_val (sv spec (port out)) \<and> port_value out < 2 ^ 16 \<and>
     length (sv spec (port out)) \<le> 5 \<and> list_all is_digit (sv spec (port out))"
  using parse_url_port_consistent [of spec]
  by (auto simp: port_consistent_def max_port_digits_def list_all_iff split: prod.split)

text \<open>
  An address in brackets is accepted without its closing bracket: the loop over the host
  ends at the end of the authority and the port section is skipped.
\<close>

lemma bracket_rest_open:
  "\<forall>c \<in> set a. is_hex c \<or> c = CHR '':'' \<or> c = CHR ''.'' \<Longrightarrow> bracket_rest False a = Some []"
  by (induction a) auto

theorem parse_url_accepts_open_bracket:
  assumes "\<forall>c \<in> set a. is_hex c \<or> c = CHR '':'' \<or> c = CHR ''.''"
  shows "result_texts (''http://['' @ a) (parse_url (''http://['' @ a) parsed_url_init) =
    Inr (no_text\<lparr>t_scheme := ''http'', t_host := CHR ''['' # a\<rparr>)"
proof -
  have au: "\<forall>c \<in> set (CHR ''['' # a). is_authority_char c"
    using assms by (auto simp: is_authority_char_def is_user_char_def is_hex_iff isalnum_iff is_mark_def)
  have at: "CHR ''@'' \<notin> set a" using assms by (auto simp: is_hex_iff)
  note sp = span_stop [OF au, of "[]", simplified]
  have sc: "\<forall>c \<in> set ''http''. is_scheme_char c" by (simp add: is_scheme_char_def char_class_iff)
  have r: "''://['' @ a = [] \<or> \<not> is_scheme_char (hd (''://['' @ a))" by simp
  have ru: "''http://['' @ a = CHR ''h'' # ''ttp://['' @ a" "''http://['' @ a = ''http'' @ (''://['' @ a)"
    by simp_all
  have alpha: "isalpha_ascii CHR ''h''" by (simp add: isalpha_iff)
  have "split_url (''http://['' @ a) =
      Inr (False, no_text\<lparr>t_scheme := ''http'', t_host := CHR ''['' # a\<rparr>)"
    unfolding split_url_Cons [OF ru(1)] unfolding ru(2) span_stop [OF sc r] Let_def
    using alpha at at_ok_no_at [of "CHR ''['' # a"] by (simp add: split_authority_def sp)
  then have "url_spec (''http://['' @ a) = Inr (no_text\<lparr>t_scheme := ''http'', t_host := CHR ''['' # a\<rparr>)"
    using bracket_rest_open [OF assms]
    by (simp add: url_spec_def split_userinfo_def split_host_def split_port_def)
  then show ?thesis using parse_url_texts by simp
qed

theorem parse_url_accepts_open_bracket_witness:
  "result_texts ''http://[::1'' (parse_url ''http://[::1'' parsed_url_init) =
    Inr (no_text\<lparr>t_scheme := ''http'', t_host := ''[::1''\<rparr>)"
  using parse_url_accepts_open_bracket [of "''::1''"] by (simp add: is_hex_iff)

end
