(* ===== verification/UrlView.thy ===== *)
theory UrlView
  imports UrlCorrect
begin

text \<open>
  The class \<^verbatim>\<open>url_view\<close> (\<^verbatim>\<open>url_view.hpp\<close>, \<^verbatim>\<open>impl/url_view.cpp\<close>):
  its two constructors and its accessors. The class holds views only, so each operation takes the
  text the views refer to as its first argument.
\<close>

record url_view =
  uv_spec :: view
  uv_url :: parsed_url

text \<open>The constructor with an \<^verbatim>\<open>error_code\<close>: an error empties \<open>uv_spec\<close> only.\<close>

definition url_view_ec :: "string \<Rightarrow> url_view \<times> error_code" where
  "url_view_ec s =
     (case parse_url s parsed_url_init of (url, ec) \<Rightarrow>
        (\<lparr>uv_spec = if ec_failed ec then empty_view else (0, length s), uv_url = url\<rparr>, ec))"

text \<open>The throwing constructor.\<close>

definition url_view_throw :: "string \<Rightarrow> cxx_exception + url_view" where
  "url_view_throw s =
     (case parse_url s parsed_url_init of (url, ec) \<Rightarrow>
        throw_error ec ''url_view (from string)'' \<lparr>uv_spec = (0, length s), uv_url = url\<rparr>)"

definition is_valid :: "url_view \<Rightarrow> bool" where
  "is_valid u = (snd (uv_spec u) \<noteq> 0)"

text \<open>The result of \<open>port()\<close> is a text: a view into the URL or one of three literals.\<close>

definition uv_port :: "string \<Rightarrow> url_view \<Rightarrow> string" where
  "uv_port s u =
     (if snd (port (uv_url u)) \<noteq> 0 then sv s (port (uv_url u))
      else if sv s (scheme (uv_url u)) = ''http'' then ''80''
      else if sv s (scheme (uv_url u)) = ''https'' then ''443''
      else if sv s (scheme (uv_url u)) = ''ftp'' then ''21''
      else [])"

definition uv_port_value :: "string \<Rightarrow> url_view \<Rightarrow> nat" where
  "uv_port_value s u =
     (if snd (port (uv_url u)) \<noteq> 0 then port_value (uv_url u)
      else if sv s (scheme (uv_url u)) = ''http'' then 80
      else if sv s (scheme (uv_url u)) = ''https'' then 443
      else if sv s (scheme (uv_url u)) = ''ftp'' then 21
      else 0)"

section \<open>Properties\<close>

lemma parse_url_error_codes:
  "snd (parse_url s parsed_url_init) = no_error \<or> ec_failed (snd (parse_url s parsed_url_init))"
proof -
  have pp: "snd (parse_port s i j out no_error) = no_error \<or> ec_failed (snd (parse_port s i j out no_error))"
    for i j out by (auto simp: parse_port_def Let_def split: option.split)
  have ph: "snd (parse_host s i j out no_error) = no_error \<or> ec_failed (snd (parse_host s i j out no_error))"
    for i j out using pp by (auto simp: parse_host_def Let_def split: option.split)
  have pa: "snd (parse_authority s i j hu out no_error) = no_error \<or>
      ec_failed (snd (parse_authority s i j hu out no_error))" for i j hu out
    using ph by (auto simp: parse_authority_def Let_def)
  obtain e ps where pl: "parse_loop s (parse_init parsed_url_init) = (e, ps)" by fastforce
  then have "e = no_error \<or> e = ec_url invalid_character"
    using parse_loop_inv [OF loop_inv_init [OF views_ok_init] pl] by blast
  then show ?thesis using pl pa by (auto simp: parse_url_def Let_def)
qed

text \<open>
  The two accessors agree: \<open>port_value()\<close> is the decimal value of the text
  \<open>port()\<close> returns, for an explicit port and for every default.
\<close>

theorem url_view_port_agrees:
  "uv_port_value s (fst (url_view_ec s)) = dec_val (uv_port s (fst (url_view_ec s)))"
proof -
  have d: "dec_val ''80'' = 80" "dec_val ''443'' = 443" "dec_val ''21'' = 21" "dec_val [] = 0"
    by (simp_all add: dec_val_def)
  have "port_value (fst (parse_url s parsed_url_init)) = dec_val (sv s (port (fst (parse_url s parsed_url_init))))"
    using parse_url_port_consistent [of s] by (simp add: port_consistent_def)
  then show ?thesis
    by (auto simp: url_view_ec_def uv_port_def uv_port_value_def d split: prod.split)
qed

text \<open>
  The constructors agree with each other and with the specification: the throwing one returns
  a view exactly when the other one reports no error, it is the same view, it is valid unless the
  text is empty, and it throws the other one's code otherwise.
\<close>

theorem url_view_constructors:
  "url_view_throw s =
     (case url_spec s of
        Inl e \<Rightarrow> Inl (system_error e ''url_view (from string)'')
      | Inr t \<Rightarrow> Inr (fst (url_view_ec s)))
   \<and> is_valid (fst (url_view_ec s)) = (s \<noteq> [] \<and> (\<exists>t. url_spec s = Inr t))"
proof -
  obtain out ec where p: "parse_url s parsed_url_init = (out, ec)" by fastforce
  have r: "url_spec s = (if ec \<noteq> no_error then Inl ec else Inr (texts s out))"
    using parse_url_texts [of s] p by (simp add: result_texts_def)
  have "ec = no_error \<or> ec_failed ec" using parse_url_error_codes [of s] p by simp
  then show ?thesis
    using p r by (auto simp: url_view_throw_def url_view_ec_def throw_error_def is_valid_def)
qed

end
