(* ===== verification/ByteHeap.thy ===== *)
theory ByteHeap
  imports Prelude "HOL-Library.Monad_Syntax"
begin

text \<open>
  Memory as the buffers of the library use it: blocks of bytes obtained from an allocator, with the
  C functions \<^verbatim>\<open>memcpy\<close> and \<^verbatim>\<open>memmove\<close> on them. A byte that was never written is
  \<open>None\<close>. The result \<open>None\<close> of an operation is undefined behaviour: an access outside a live
  block, overlapping ranges in \<^verbatim>\<open>memcpy\<close>, or a release of something that is not allocated
  with that size.
\<close>

section \<open>Blocks\<close>

type_synonym cell = "u8 option"
type_synonym cells = "cell list"

text \<open>A pointer is null, or a block and an offset into it.\<close>

type_synonym ptr = "(nat \<times> nat) option"

record heap =
  blocks :: "nat \<Rightarrow> cells option"
  next_id :: nat
  null_frees :: nat

definition heap_ok :: "heap \<Rightarrow> bool" where
  "heap_ok h = (\<forall>i. blocks h i \<noteq> None \<longrightarrow> i < next_id h)"

definition block_ptr :: "nat option \<Rightarrow> nat \<Rightarrow> ptr" where
  "block_ptr b off = map_option (\<lambda>i. (i, off)) b"

definition allocate :: "nat \<Rightarrow> heap \<Rightarrow> nat \<times> heap" where
  "allocate n h =
     (next_id h, h\<lparr>blocks := (blocks h)(next_id h \<mapsto> replicate n None), next_id := Suc (next_id h)\<rparr>)"

text \<open>
  \<^verbatim>\<open>deallocate\<close> of the standard allocator. A null pointer is passed on to
  \<^verbatim>\<open>operator delete\<close>, which ignores it; the requirements of an allocator do not allow
  that call, so it is counted.
\<close>

definition deallocate :: "nat option \<Rightarrow> nat \<Rightarrow> heap \<Rightarrow> heap option" where
  "deallocate b n h =
     (case b of
        None \<Rightarrow> Some (h\<lparr>null_frees := Suc (null_frees h)\<rparr>)
      | Some i \<Rightarrow>
          (case blocks h i of
             None \<Rightarrow> None
           | Some cs \<Rightarrow> if length cs = n then Some (h\<lparr>blocks := (blocks h)(i := None)\<rparr>) else None))"

section \<open>Reading and writing\<close>

definition mem_read :: "ptr \<Rightarrow> nat \<Rightarrow> heap \<Rightarrow> cells option" where
  "mem_read p n h =
     (if n = 0 then Some []
      else
        (case p of
           None \<Rightarrow> None
         | Some (i, off) \<Rightarrow>
             (case blocks h i of
                None \<Rightarrow> None
              | Some cs \<Rightarrow> if off + n \<le> length cs then Some (take n (drop off cs)) else None)))"

definition splice :: "nat \<Rightarrow> 'a list \<Rightarrow> 'a list \<Rightarrow> 'a list" where
  "splice off xs cs = take off cs @ xs @ drop (off + length xs) cs"

definition mem_write :: "ptr \<Rightarrow> cells \<Rightarrow> heap \<Rightarrow> heap option" where
  "mem_write p xs h =
     (if xs = [] then Some h
      else
        (case p of
           None \<Rightarrow> None
         | Some (i, off) \<Rightarrow>
             (case blocks h i of
                None \<Rightarrow> None
              | Some cs \<Rightarrow>
                  if off + length xs \<le> length cs
                  then Some (h\<lparr>blocks := (blocks h)(i \<mapsto> splice off xs cs)\<rparr>) else None)))"

definition memmove :: "ptr \<Rightarrow> ptr \<Rightarrow> nat \<Rightarrow> heap \<Rightarrow> heap option" where
  "memmove dst src n h = do { xs \<leftarrow> mem_read src n h; mem_write dst xs h }"

definition overlap :: "ptr \<Rightarrow> ptr \<Rightarrow> nat \<Rightarrow> bool" where
  "overlap p q n =
     (case (p, q) of
        (Some (i, a), Some (j, b)) \<Rightarrow> i = j \<and> a < b + n \<and> b < a + n
      | _ \<Rightarrow> False)"

definition memcpy :: "ptr \<Rightarrow> ptr \<Rightarrow> nat \<Rightarrow> heap \<Rightarrow> heap option" where
  "memcpy dst src n h = (if overlap dst src n then None else memmove dst src n h)"

section \<open>Facts\<close>

lemma length_splice [simp]: "off + length xs \<le> length cs \<Longrightarrow> length (splice off xs cs) = length cs"
  by (simp add: splice_def)

lemma splice_Nil [simp]: "splice off [] cs = cs"
  by (simp add: splice_def)

lemma take_splice:
  "off + length xs \<le> length cs \<Longrightarrow> n = off + length xs \<Longrightarrow> take n (splice off xs cs) = take off cs @ xs"
  by (simp add: splice_def)

lemma take_splice_before: "n \<le> off \<Longrightarrow> off \<le> length cs \<Longrightarrow> take n (splice off xs cs) = take n cs"
  by (simp add: splice_def)

lemma take_splice_inside:
  assumes "off + length xs \<le> n" and "n \<le> length cs"
  shows "take n (splice off xs cs) = splice off xs (take n cs)"
proof (cases "xs = []")
  case False
  then have "off < n" using assms(1) by (cases xs) auto
  then show ?thesis using assms by (simp add: splice_def drop_take min_def)
qed simp

lemma drop_splice_after:
  "off \<le> length cs \<Longrightarrow> off + length xs \<le> n \<Longrightarrow> drop n (splice off xs cs) = drop n cs"
  by (simp add: splice_def add.commute)

lemma allocate_blocks [simp]:
  "blocks (snd (allocate n h)) = (blocks h)(next_id h \<mapsto> replicate n None)"
  "fst (allocate n h) = next_id h"
  "next_id (snd (allocate n h)) = Suc (next_id h)"
  "null_frees (snd (allocate n h)) = null_frees h"
  by (simp_all add: allocate_def)

lemma fresh_block: "heap_ok h \<Longrightarrow> blocks h (next_id h) = None"
  by (auto simp: heap_ok_def)

lemma fresh_neq: "heap_ok h \<Longrightarrow> blocks h i = Some cs \<Longrightarrow> i \<noteq> next_id h"
  by (auto simp: fresh_block)

lemma mem_read_block:
  "blocks h i = Some cs \<Longrightarrow> off + n \<le> length cs \<Longrightarrow> mem_read (Some (i, off)) n h = Some (take n (drop off cs))"
  by (simp add: mem_read_def)

lemma mem_write_block:
  "blocks h i = Some cs \<Longrightarrow> off + length xs \<le> length cs \<Longrightarrow>
     mem_write (Some (i, off)) xs h = Some (h\<lparr>blocks := (blocks h)(i \<mapsto> splice off xs cs)\<rparr>)"
  by (auto simp: mem_write_def map_upd_triv)

lemma mem_read_length: "mem_read p n h = Some xs \<Longrightarrow> length xs = n"
  by (auto simp: mem_read_def split: if_splits option.splits)

lemma mem_read_cong:
  assumes "\<forall>i off. p = Some (i, off) \<longrightarrow> blocks h' i = blocks h i"
  shows "mem_read p n h' = mem_read p n h"
  using assms by (cases p) (auto simp: mem_read_def)

lemma heap_ok_upd: "heap_ok h \<Longrightarrow> blocks h i \<noteq> None \<Longrightarrow> heap_ok (h\<lparr>blocks := (blocks h)(i := x)\<rparr>)"
  by (auto simp: heap_ok_def)

lemma heap_ok_allocate: "heap_ok h \<Longrightarrow> heap_ok (snd (allocate n h))"
  by (auto simp: heap_ok_def less_Suc_eq allocate_def split: if_splits)

lemma heap_ok_free: "heap_ok h \<Longrightarrow> heap_ok (h\<lparr>blocks := (blocks h)(i := None)\<rparr>)"
  by (auto simp: heap_ok_def)

end
