(* ===== verification/LinearBuffer.thy ===== *)
theory LinearBuffer
  imports ByteHeap
begin

text \<open>
  \<^verbatim>\<open>basic_linear_buffer\<close> (\<^verbatim>\<open>linear_buffer.hpp\<close>,
  \<^verbatim>\<open>impl/linear_buffer.hpp\<close>) over the memory of \<open>ByteHeap\<close>. The members of the class
  are a record, \<open>rep_.data_\<close> is a block or null. An operation that can throw returns a sum; the
  outer option is undefined behaviour or, for the move assignment, a call that does not return.
  Allocation itself does not fail.
\<close>

section \<open>The class\<close>

record lbuf =
  data_block :: "nat option"
  capacity :: nat
  lb_size :: nat
  max_size :: nat

text \<open>The constructors. \<open>alloc_max\<close> is the allocator's \<^verbatim>\<open>max_size\<close>.\<close>

definition lb_new :: "nat \<Rightarrow> lbuf" where
  "lb_new alloc_max = \<lparr>data_block = None, capacity = 0, lb_size = 0, max_size = alloc_max\<rparr>"

definition lb_new_sized :: "nat \<Rightarrow> nat \<Rightarrow> nat \<Rightarrow> heap \<Rightarrow> lbuf \<times> heap" where
  "lb_new_sized alloc_max initial_size maximum_size h =
     (case allocate initial_size h of (i, h') \<Rightarrow>
        (\<lparr>data_block = Some i, capacity = initial_size, lb_size = initial_size,
          max_size = min alloc_max maximum_size\<rparr>, h'))"

definition lb_copy :: "lbuf \<Rightarrow> heap \<Rightarrow> (lbuf \<times> heap) option" where
  "lb_copy other h =
     (case allocate (lb_size other) h of (i, h1) \<Rightarrow>
        do {
          h2 \<leftarrow> memcpy (Some (i, 0)) (block_ptr (data_block other) 0) (lb_size other) h1;
          Some (\<lparr>data_block = Some i, capacity = lb_size other, lb_size = lb_size other,
                 max_size = max_size other\<rparr>, h2)
        })"

text \<open>The move constructor returns the new object and what it leaves in the other one.\<close>

definition lb_move :: "lbuf \<Rightarrow> lbuf \<times> lbuf" where
  "lb_move other = (other, other\<lparr>data_block := None, capacity := 0, lb_size := 0\<rparr>)"

definition lb_destroy :: "lbuf \<Rightarrow> heap \<Rightarrow> heap option" where
  "lb_destroy b h =
     (if data_block b \<noteq> None then deallocate (data_block b) (capacity b) h else Some h)"

definition lb_clear :: "lbuf \<Rightarrow> lbuf" where
  "lb_clear b = b\<lparr>lb_size := 0\<rparr>"

definition lb_at :: "lbuf \<Rightarrow> nat \<Rightarrow> heap \<Rightarrow> cell option" where
  "lb_at b i h = map_option hd (mem_read (block_ptr (data_block b) i) 1 h)"

definition calculate_capacity :: "lbuf \<Rightarrow> nat \<Rightarrow> nat" where
  "calculate_capacity b n =
     (if sz_mul (capacity b) 2 < max_size b then max n (sz_mul (capacity b) 2) else max_size b)"

text \<open>\<open>fill\<close> is the function object that fills the new block before the old one is released.\<close>

definition reallocate :: "nat \<Rightarrow> (ptr \<Rightarrow> heap \<Rightarrow> heap option) \<Rightarrow> lbuf \<Rightarrow> heap \<Rightarrow> (lbuf \<times> heap) option" where
  "reallocate cap fill b h =
     (case allocate cap h of (i, h1) \<Rightarrow>
        do {
          h2 \<leftarrow> fill (Some (i, 0)) h1;
          h3 \<leftarrow> deallocate (data_block b) (capacity b) h2;
          Some (b\<lparr>data_block := Some i, capacity := cap\<rparr>, h3)
        })"

type_synonym lb_result = "(cxx_exception + lbuf \<times> heap) option"

definition lb_append :: "ptr \<Rightarrow> nat \<Rightarrow> lbuf \<Rightarrow> heap \<Rightarrow> lb_result" where
  "lb_append data n b h =
     (if lb_size b > max_size b \<or> max_size b - lb_size b < n then Some (Inl length_error)
      else
        do {
          (b1, h1) \<leftarrow>
            (if lb_size b + n > capacity b
             then reallocate (calculate_capacity b (lb_size b + n))
                    (\<lambda>p. memcpy p (block_ptr (data_block b) 0) (lb_size b)) b h
             else Some (b, h));
          h2 \<leftarrow> memcpy (block_ptr (data_block b1) (lb_size b1)) data n h1;
          Some (Inr (b1\<lparr>lb_size := lb_size b1 + n\<rparr>, h2))
        })"

definition ptr_add :: "ptr \<Rightarrow> nat \<Rightarrow> ptr" where
  "ptr_add p n = map_option (\<lambda>(i, off). (i, off + n)) p"

definition lb_insert :: "nat \<Rightarrow> ptr \<Rightarrow> nat \<Rightarrow> lbuf \<Rightarrow> heap \<Rightarrow> lb_result" where
  "lb_insert before_this data n b h =
     (if lb_size b > max_size b \<or> max_size b - lb_size b < n then Some (Inl length_error)
      else
        do {
          (b1, h1) \<leftarrow>
            (if lb_size b + n > capacity b
             then reallocate (calculate_capacity b (lb_size b + n))
                    (\<lambda>p g. do {
                       g1 \<leftarrow> memcpy p (block_ptr (data_block b) 0) before_this g;
                       g2 \<leftarrow> memcpy (ptr_add p before_this) data n g1;
                       memcpy (ptr_add p (before_this + n)) (block_ptr (data_block b) before_this)
                         (sz_sub (lb_size b) before_this) g2
                     }) b h
             else
               do {
                 g1 \<leftarrow> memmove (block_ptr (data_block b) before_this)
                        (block_ptr (data_block b) (before_this + n)) (sz_sub (lb_size b) before_this) h;
                 g2 \<leftarrow> memcpy (block_ptr (data_block b) before_this) data n g1;
                 Some (b, g2)
               });
          Some (Inr (b1\<lparr>lb_size := lb_size b1 + n\<rparr>, h1))
        })"

definition lb_erase :: "nat \<Rightarrow> lbuf \<Rightarrow> heap \<Rightarrow> (lbuf \<times> heap) option" where
  "lb_erase pos b h =
     do {
       h1 \<leftarrow> memmove (block_ptr (data_block b) pos) (block_ptr (data_block b) (pos + 1))
              (sz_sub (sz_sub (lb_size b) pos) 1) h;
       Some (b\<lparr>lb_size := sz_sub (lb_size b) 1\<rparr>, h1)
     }"

definition lb_erase_range :: "nat \<Rightarrow> nat \<Rightarrow> lbuf \<Rightarrow> heap \<Rightarrow> (lbuf \<times> heap) option" where
  "lb_erase_range first lst b h =
     (let n = sz_sub lst first in
      do {
        h1 \<leftarrow> memmove (block_ptr (data_block b) first) (block_ptr (data_block b) lst)
               (sz_sub (sz_sub (lb_size b) first) n) h;
        Some (b\<lparr>lb_size := sz_sub (lb_size b) n\<rparr>, h1)
      })"

definition lb_reserve :: "nat \<Rightarrow> lbuf \<Rightarrow> heap \<Rightarrow> lb_result" where
  "lb_reserve min_cap b h =
     (if min_cap > max_size b then Some (Inl length_error)
      else if min_cap > capacity b
      then map_option Inr (reallocate min_cap
             (\<lambda>p. memcpy p (block_ptr (data_block b) 0) (lb_size b)) b h)
      else Some (Inr (b, h)))"

definition lb_resize :: "nat \<Rightarrow> lbuf \<Rightarrow> heap \<Rightarrow> lb_result" where
  "lb_resize new_size b h =
     (if new_size > max_size b then Some (Inl length_error)
      else
        do {
          (b1, h1) \<leftarrow>
            (if new_size > capacity b
             then reallocate (calculate_capacity b new_size)
                    (\<lambda>p. memcpy p (block_ptr (data_block b) 0) (lb_size b)) b h
             else Some (b, h));
          Some (Inr (b1\<lparr>lb_size := new_size\<rparr>, h1))
        })"

text \<open>Copy assignment; \<open>other\<close> may be the object itself.\<close>

definition lb_copy_assign :: "lbuf \<Rightarrow> lbuf \<Rightarrow> heap \<Rightarrow> lb_result" where
  "lb_copy_assign b other h =
     (let n = lb_size other in
      if n > max_size b then Some (Inl length_error)
      else
        do {
          (b1, h1) \<leftarrow>
            (if n > capacity b then reallocate (calculate_capacity b n) (\<lambda>p g. Some g) b h
             else Some (b, h));
          h2 \<leftarrow> memcpy (block_ptr (data_block b1) 0) (block_ptr (data_block other) 0) n h1;
          Some (Inr (b1\<lparr>lb_size := n\<rparr>, h2))
        })"

text \<open>
  Move assignment. With \<^verbatim>\<open>propagate_on_container_move_assignment\<close> the members are taken
  over; the result is the target, the source and the memory.
\<close>

definition lb_move_assign_true :: "lbuf \<Rightarrow> lbuf \<Rightarrow> heap \<Rightarrow> lbuf \<times> lbuf \<times> heap" where
  "lb_move_assign_true b other h =
     (\<lparr>data_block = data_block other, capacity = capacity other, lb_size = lb_size other,
       max_size = max_size other\<rparr>,
      other\<lparr>data_block := None, capacity := 0, lb_size := 0\<rparr>, h)"

text \<open>
  Without it, \<open>equal_alloc\<close> says whether the two allocators compare equal. In that case the
  source calls the overload it is in once more.
\<close>

partial_function (option) lb_move_assign_false ::
    "bool \<Rightarrow> lbuf \<Rightarrow> lbuf \<Rightarrow> heap \<Rightarrow> (lbuf \<times> lbuf \<times> heap) option" where
  "lb_move_assign_false equal_alloc b other h =
     (if \<not> equal_alloc then
        do {
          h1 \<leftarrow> (if data_block b \<noteq> None then deallocate (data_block b) (capacity b) h else Some h);
          (let (i, h2) = allocate (capacity other) h1 in
           do {
             h3 \<leftarrow> memcpy (Some (i, 0)) (block_ptr (data_block other) 0) (lb_size other) h2;
             Some (b\<lparr>capacity := capacity other, lb_size := lb_size other, data_block := Some i\<rparr>,
                   other, h3)
           })
        }
      else lb_move_assign_false equal_alloc b other h)"

declare lb_move_assign_false.simps [code]

definition lb_move_assign :: "bool \<Rightarrow> bool \<Rightarrow> lbuf \<Rightarrow> lbuf \<Rightarrow> heap \<Rightarrow> (lbuf \<times> lbuf \<times> heap) option" where
  "lb_move_assign propagate equal_alloc b other h =
     (if propagate then Some (lb_move_assign_true b other h)
      else lb_move_assign_false equal_alloc b other h)"

section \<open>The invariant and the abstraction\<close>

text \<open>A buffer owns its block, of the length \<open>capacity\<close>; no size wraps around.\<close>

definition block_of :: "lbuf \<Rightarrow> heap \<Rightarrow> cells" where
  "block_of b h =
     (case data_block b of None \<Rightarrow> [] | Some i \<Rightarrow> (case blocks h i of None \<Rightarrow> [] | Some cs \<Rightarrow> cs))"

definition lb_ok :: "lbuf \<Rightarrow> heap \<Rightarrow> bool" where
  "lb_ok b h =
     (heap_ok h \<and> (\<forall>i. data_block b = Some i \<longrightarrow> blocks h i \<noteq> None) \<and>
      length (block_of b h) = capacity b \<and> lb_size b \<le> capacity b \<and>
      capacity b \<le> size_max \<and> max_size b \<le> size_max)"

text \<open>The bytes the buffer holds: the first \<open>size()\<close> cells of its block.\<close>

definition content :: "lbuf \<Rightarrow> heap \<Rightarrow> cells" where
  "content b h = take (lb_size b) (block_of b h)"

text \<open>
  What an operation leaves alone: every block that is neither the buffer's old nor its new one is
  as before, a new block is one that was not in use, and a block given up is released.
\<close>

definition owns_step :: "lbuf \<Rightarrow> heap \<Rightarrow> lbuf \<Rightarrow> heap \<Rightarrow> bool" where
  "owns_step b h b' h' =
     ((\<forall>i. Some i \<noteq> data_block b \<longrightarrow> Some i \<noteq> data_block b' \<longrightarrow> blocks h' i = blocks h i) \<and>
      (data_block b' \<noteq> data_block b \<longrightarrow>
         (\<forall>i. data_block b' = Some i \<longrightarrow> blocks h i = None) \<and>
         (\<forall>i. data_block b = Some i \<longrightarrow> blocks h' i = None)))"

text \<open>A step of a buffer that leaves the bytes \<open>ys\<close>.\<close>

definition lb_step :: "lbuf \<Rightarrow> heap \<Rightarrow> lbuf \<Rightarrow> heap \<Rightarrow> cells \<Rightarrow> bool" where
  "lb_step b h b' h' ys =
     (lb_ok b' h' \<and> content b' h' = ys \<and> max_size b' = max_size b \<and> owns_step b h b' h')"

section \<open>Reallocation\<close>

lemma calculate_capacity_bounds:
  "n \<le> max_size b \<Longrightarrow> n \<le> calculate_capacity b n \<and> calculate_capacity b n \<le> max_size b"
  by (auto simp: calculate_capacity_def)

lemma calculate_capacity_doubles:
  "2 * capacity b < max_size b \<Longrightarrow> max_size b \<le> size_max \<Longrightarrow>
     calculate_capacity b n = max n (2 * capacity b)"
  by (simp add: calculate_capacity_def sz_mul_id mult.commute)

lemma block_of_Some:
  "data_block b = Some i \<Longrightarrow> blocks h i = Some cs \<Longrightarrow> block_of b h = cs"
  "data_block b = None \<Longrightarrow> block_of b h = []"
  by (simp_all add: block_of_def)

lemma lb_ok_block:
  assumes "lb_ok b h" and "data_block b = Some i"
  shows "blocks h i = Some (block_of b h)"
  using assms by (auto simp: lb_ok_def block_of_def)

lemma block_of_cong:
  "data_block b' = data_block b \<Longrightarrow> (\<And>i. data_block b = Some i \<Longrightarrow> blocks h' i = blocks h i) \<Longrightarrow>
     block_of b' h' = block_of b h"
  by (cases "data_block b") (auto simp: block_of_def)

lemma read_own:
  assumes "lb_ok b h" and "k + n \<le> capacity b"
  shows "mem_read (block_ptr (data_block b) k) n h = Some (take n (drop k (block_of b h)))"
proof (cases "data_block b")
  case None
  then have "capacity b = 0" using assms by (auto simp: lb_ok_def block_of_Some)
  then show ?thesis using assms None by (simp add: mem_read_def block_ptr_def)
next
  case (Some i)
  have "k + n \<le> length (block_of b h)" using assms by (simp add: lb_ok_def)
  from mem_read_block [OF lb_ok_block [OF assms(1) Some] this] show ?thesis
    by (simp add: block_ptr_def Some)
qed

text \<open>Copying from the buffer's block into another block.\<close>

lemma copy_out:
  assumes "lb_ok b h" and "k + n \<le> capacity b" and "data_block b \<noteq> Some j"
    and "blocks g j = Some cs" and "off + n \<le> length cs"
    and "\<And>i. data_block b = Some i \<Longrightarrow> blocks g i = blocks h i"
  shows "memcpy (Some (j, off)) (block_ptr (data_block b) k) n g =
    Some (g\<lparr>blocks := (blocks g)(j \<mapsto> splice off (take n (drop k (block_of b h))) cs)\<rparr>)"
proof -
  have "\<not> overlap (Some (j, off)) (block_ptr (data_block b) k) n"
    using assms(3) by (auto simp: overlap_def block_ptr_def split: option.split)
  moreover have "mem_read (block_ptr (data_block b) k) n g = mem_read (block_ptr (data_block b) k) n h"
    by (rule mem_read_cong) (use assms(6) in \<open>auto simp: block_ptr_def\<close>)
  moreover have "mem_write (Some (j, off)) (take n (drop k (block_of b h))) g =
      Some (g\<lparr>blocks := (blocks g)(j \<mapsto> splice off (take n (drop k (block_of b h))) cs)\<rparr>)"
    by (rule mem_write_block [OF assms(4)]) (use assms(1,2,5) in \<open>simp add: lb_ok_def\<close>)
  ultimately show ?thesis
    by (simp add: memcpy_def memmove_def read_own [OF assms(1,2)])
qed

lemma reallocate_fill:
  assumes "lb_ok b h" and "cap \<le> size_max" and "lb_size b \<le> cap" and "length xs = cap"
    and "fill (Some (next_id h, 0)) (snd (allocate cap h)) =
      Some ((snd (allocate cap h))\<lparr>blocks := (blocks (snd (allocate cap h)))(next_id h \<mapsto> xs)\<rparr>)"
  shows "\<exists>h'. reallocate cap fill b h = Some (b\<lparr>data_block := Some (next_id h), capacity := cap\<rparr>, h') \<and>
    lb_ok (b\<lparr>data_block := Some (next_id h), capacity := cap\<rparr>) h' \<and>
    block_of (b\<lparr>data_block := Some (next_id h), capacity := cap\<rparr>) h' = xs \<and>
    owns_step b h (b\<lparr>data_block := Some (next_id h), capacity := cap\<rparr>) h'"
proof -
  have hok: "heap_ok h" using assms(1) by (simp add: lb_ok_def)
  let ?h1 = "h\<lparr>next_id := Suc (next_id h), blocks := (blocks h)(next_id h \<mapsto> xs)\<rparr>"
  have r: "reallocate cap fill b h =
      Option.bind (deallocate (data_block b) (capacity b) ?h1)
        (\<lambda>h3. Some (b\<lparr>data_block := Some (next_id h), capacity := cap\<rparr>, h3))"
    using assms(5) by (simp add: reallocate_def allocate_def)
  show ?thesis
  proof (cases "data_block b")
    case None
    then show ?thesis using assms(1-4) fresh_block [OF hok]
      by (auto simp: r deallocate_def lb_ok_def owns_step_def heap_ok_def block_of_def less_Suc_eq)
  next
    case (Some i)
    have bi: "blocks h i = Some (block_of b h)" by (rule lb_ok_block [OF assms(1) Some])
    have "i \<noteq> next_id h" by (rule fresh_neq [OF hok bi])
    then show ?thesis using Some bi assms(1-4) fresh_block [OF hok]
      by (auto simp: r deallocate_def lb_ok_def owns_step_def heap_ok_def block_of_def less_Suc_eq)
  qed
qed

text \<open>Growing with the bytes kept, as \<open>append\<close>, \<open>reserve\<close> and \<open>resize\<close> do.\<close>

lemma reallocate_keep:
  assumes "lb_ok b h" and "cap \<le> size_max" and "lb_size b \<le> cap"
  shows "\<exists>h'. reallocate cap (\<lambda>p. memcpy p (block_ptr (data_block b) 0) (lb_size b)) b h =
      Some (b\<lparr>data_block := Some (next_id h), capacity := cap\<rparr>, h') \<and>
    lb_step b h (b\<lparr>data_block := Some (next_id h), capacity := cap\<rparr>) h' (content b h)"
proof -
  let ?xs = "splice 0 (content b h) (replicate cap None)"
  have size: "lb_size b \<le> capacity b" "length (block_of b h) = capacity b"
    using assms(1) by (simp_all add: lb_ok_def)
  have hok: "heap_ok h" using assms(1) by (simp add: lb_ok_def)
  have nb: "data_block b \<noteq> Some (next_id h)"
    using lb_ok_block [OF assms(1)] fresh_block [OF hok] by auto
  have "memcpy (Some (next_id h, 0)) (block_ptr (data_block b) 0) (lb_size b) (snd (allocate cap h)) =
      Some ((snd (allocate cap h))\<lparr>blocks := (blocks (snd (allocate cap h)))(next_id h \<mapsto> ?xs)\<rparr>)"
    by (subst copy_out [OF assms(1), of 0 "lb_size b" "next_id h" _ "replicate cap None" 0])
      (use size assms(3) nb in \<open>auto simp: content_def\<close>)
  note fill = reallocate_fill [where xs = ?xs and fill = "\<lambda>p. memcpy p (block_ptr (data_block b) 0) (lb_size b)",
      OF assms(1-3) _ this]
  obtain h' where h': "reallocate cap (\<lambda>p. memcpy p (block_ptr (data_block b) 0) (lb_size b)) b h =
      Some (b\<lparr>data_block := Some (next_id h), capacity := cap\<rparr>, h')"
    "lb_ok (b\<lparr>data_block := Some (next_id h), capacity := cap\<rparr>) h'"
    "block_of (b\<lparr>data_block := Some (next_id h), capacity := cap\<rparr>) h' = ?xs"
    "owns_step b h (b\<lparr>data_block := Some (next_id h), capacity := cap\<rparr>) h'"
    using fill size assms(3) by (auto simp: content_def)
  have "take (lb_size b) ?xs = content b h"
    using size assms(3) by (simp add: splice_def content_def)
  then show ?thesis using h' by (auto simp: lb_step_def content_def)
qed

section \<open>Writing into the buffer's own block\<close>

lemma write_own:
  assumes "lb_ok b h" and "k + length xs \<le> capacity b"
  shows "\<exists>h'. mem_write (block_ptr (data_block b) k) xs h = Some h' \<and> lb_ok b h' \<and>
    block_of b h' = splice k xs (block_of b h) \<and> owns_step b h b h'"
proof (cases "data_block b")
  case None
  then have "xs = []" using assms by (auto simp: lb_ok_def block_of_Some)
  then show ?thesis using assms None by (simp add: mem_write_def owns_step_def)
next
  case (Some i)
  let ?cs = "block_of b h"
  let ?h = "h\<lparr>blocks := (blocks h)(i \<mapsto> splice k xs ?cs)\<rparr>"
  have i: "blocks h i = Some ?cs" by (rule lb_ok_block [OF assms(1) Some])
  have le: "k + length xs \<le> length ?cs" using assms by (simp add: lb_ok_def)
  have "mem_write (block_ptr (data_block b) k) xs h = Some ?h"
    using mem_write_block [OF i le] by (simp add: block_ptr_def Some)
  moreover have bo: "block_of b ?h = splice k xs ?cs" using Some by (simp add: block_of_Some)
  moreover have "heap_ok ?h" using assms(1) i by (intro heap_ok_upd) (auto simp: lb_ok_def)
  then have "lb_ok b ?h" using assms(1) bo le Some by (auto simp: lb_ok_def)
  moreover have "owns_step b h b ?h" using Some by (simp add: owns_step_def)
  ultimately show ?thesis by blast
qed

text \<open>\<^verbatim>\<open>memmove\<close> within the block.\<close>

lemma move_own:
  assumes "lb_ok b h" and "src + n \<le> capacity b" and "dst + n \<le> capacity b"
  shows "\<exists>h'. memmove (block_ptr (data_block b) dst) (block_ptr (data_block b) src) n h = Some h' \<and>
    lb_ok b h' \<and> block_of b h' = splice dst (take n (drop src (block_of b h))) (block_of b h) \<and>
    owns_step b h b h'"
proof -
  let ?xs = "take n (drop src (block_of b h))"
  have "length ?xs = n" using assms by (simp add: lb_ok_def)
  then show ?thesis
    using write_own [OF assms(1), of dst ?xs] read_own [OF assms(1,2)] assms(3)
    by (simp add: memmove_def)
qed

text \<open>Bytes from outside the buffer: the pointer is not into its block.\<close>

definition outside :: "ptr \<Rightarrow> lbuf \<Rightarrow> bool" where
  "outside p b = (\<forall>i off. p = Some (i, off) \<longrightarrow> data_block b \<noteq> Some i)"

lemma copy_in:
  assumes "lb_ok b h" and "k + n \<le> capacity b" and "outside data b" and "mem_read data n h = Some xs"
  shows "\<exists>h'. memcpy (block_ptr (data_block b) k) data n h = Some h' \<and> lb_ok b h' \<and>
    block_of b h' = splice k xs (block_of b h) \<and> owns_step b h b h'"
proof -
  have "\<not> overlap (block_ptr (data_block b) k) data n"
    using assms(3) by (auto simp: outside_def overlap_def block_ptr_def split: option.split)
  then show ?thesis
    using write_own [OF assms(1), of k xs] assms(2,4) mem_read_length [OF assms(4)]
    by (simp add: memcpy_def memmove_def)
qed

text \<open>After a reallocation bytes from outside are still there, and still outside.\<close>

lemma owns_step_read:
  assumes "owns_step b h b' h'" and "outside data b" and "mem_read data n h = Some xs"
  shows "mem_read data n h' = Some xs"
proof (cases "n = 0")
  case True
  then show ?thesis using assms(3) by (simp add: mem_read_def)
next
  case False
  then obtain i off cs where d: "data = Some (i, off)" "blocks h i = Some cs"
    using assms(3) by (auto simp: mem_read_def split: option.splits)
  have ne: "Some i \<noteq> data_block b" using d assms(2) unfolding outside_def by metis
  then have ne': "Some i \<noteq> data_block b'" using assms(1) d unfolding owns_step_def by (metis option.distinct(1))
  have "blocks h' i = blocks h i" using assms(1) ne ne' unfolding owns_step_def by blast
  then have "mem_read data n h' = mem_read data n h" using d by (intro mem_read_cong) auto
  then show ?thesis using assms(3) by simp
qed

lemma owns_step_outside:
  assumes "owns_step b h b' h'" and "outside data b" and "mem_read data n h = Some xs" and "n \<noteq> 0"
  shows "outside data b'"
proof -
  obtain i off cs where d: "data = Some (i, off)" "blocks h i = Some cs"
    using assms(3,4) by (auto simp: mem_read_def split: option.splits)
  have ne: "Some i \<noteq> data_block b" using d assms(2) unfolding outside_def by metis
  then have "Some i \<noteq> data_block b'" using assms(1) d unfolding owns_step_def by (metis option.distinct(1))
  then show ?thesis using d(1) by (auto simp: outside_def)
qed

lemma owns_step_trans:
  assumes "owns_step b h b1 h1" and "owns_step b1 h1 b1 h2"
  shows "owns_step b h b1 h2"
  using assms unfolding owns_step_def by (metis)

lemma owns_step_refl [simp]: "owns_step b h b h"
  by (simp add: owns_step_def)

text \<open>Only the block and the size matter to what a step says.\<close>

lemma lb_ok_size: "lb_ok b h \<Longrightarrow> n \<le> capacity b \<Longrightarrow> lb_ok (b\<lparr>lb_size := n\<rparr>) h"
  by (simp add: lb_ok_def block_of_def)

lemma block_of_size [simp]: "block_of (b\<lparr>lb_size := n\<rparr>) h = block_of b h"
  by (simp add: block_of_def)

lemma owns_step_size [simp]: "owns_step b h (b'\<lparr>lb_size := n\<rparr>) h' = owns_step b h b' h'"
  by (simp add: owns_step_def)

lemma lb_stepI:
  assumes "lb_ok b' h'" and "n \<le> capacity b'" and "take n (block_of b' h') = ys"
    and "max_size b' = max_size b" and "owns_step b h b' h'"
  shows "lb_step b h (b'\<lparr>lb_size := n\<rparr>) h' ys"
  using assms by (simp add: lb_step_def lb_ok_size content_def)

lemma length_content: "lb_ok b h \<Longrightarrow> length (content b h) = lb_size b"
  by (simp add: content_def lb_ok_def)

section \<open>What the operations do\<close>

text \<open>The room for \<open>n\<close> bytes in total is there after the first half of \<open>append\<close> and \<open>resize\<close>.\<close>

definition ensure :: "nat \<Rightarrow> lbuf \<Rightarrow> heap \<Rightarrow> (lbuf \<times> heap) option" where
  "ensure n b h =
     (if n > capacity b
      then reallocate (calculate_capacity b n)
             (\<lambda>p. memcpy p (block_ptr (data_block b) 0) (lb_size b)) b h
      else Some (b, h))"

lemma ensure_ok:
  assumes "lb_ok b h" and "n \<le> max_size b"
  shows "\<exists>b1 h1. ensure n b h = Some (b1, h1) \<and> lb_step b h b1 h1 (content b h) \<and>
    n \<le> capacity b1 \<and> capacity b \<le> capacity b1 \<and> lb_size b1 = lb_size b"
proof (cases "n > capacity b")
  case True
  let ?cap = "calculate_capacity b n"
  note c = calculate_capacity_bounds [OF assms(2)]
  have cap: "?cap \<le> size_max" "lb_size b \<le> ?cap" using c assms(1) True by (auto simp: lb_ok_def)
  show ?thesis using reallocate_keep [OF assms(1) cap] True c by (auto simp: ensure_def)
next
  case False
  then show ?thesis using assms(1) by (simp add: ensure_def lb_step_def)
qed

lemma lb_append_ok:
  assumes "lb_ok b h" and "outside data b" and "mem_read data n h = Some xs"
    and "lb_size b \<le> max_size b" and "n \<le> max_size b - lb_size b"
  shows "\<exists>b' h'. lb_append data n b h = Some (Inr (b', h')) \<and> lb_step b h b' h' (content b h @ xs)"
proof -
  have le: "lb_size b + n \<le> max_size b" using assms(4,5) by simp
  obtain b1 h1 where e: "ensure (lb_size b + n) b h = Some (b1, h1)" "lb_step b h b1 h1 (content b h)"
    "lb_size b + n \<le> capacity b1" "lb_size b1 = lb_size b"
    using ensure_ok [OF assms(1) le] by blast
  have ok1: "lb_ok b1 h1" and c1: "content b1 h1 = content b h" and ow: "owns_step b h b1 h1"
    and mx: "max_size b1 = max_size b" using e(2) by (simp_all add: lb_step_def)
  have rd: "mem_read data n h1 = Some xs" by (rule owns_step_read [OF ow assms(2,3)])
  have "\<exists>h'. memcpy (block_ptr (data_block b1) (lb_size b1)) data n h1 = Some h' \<and> lb_ok b1 h' \<and>
      block_of b1 h' = splice (lb_size b1) xs (block_of b1 h1) \<and> owns_step b1 h1 b1 h'"
  proof (cases "n = 0")
    case True
    then show ?thesis using rd ok1 e(3,4)
      by (auto simp: memcpy_def memmove_def mem_read_def mem_write_def overlap_def split: option.split)
  next
    case False
    then show ?thesis using copy_in [OF ok1 _ owns_step_outside [OF ow assms(2,3)] rd] e(3,4) by simp
  qed
  then obtain h' where h': "memcpy (block_ptr (data_block b1) (lb_size b1)) data n h1 = Some h'" "lb_ok b1 h'"
    "block_of b1 h' = splice (lb_size b1) xs (block_of b1 h1)" "owns_step b1 h1 b1 h'" by blast
  have "lb_append data n b h = Some (Inr (b1\<lparr>lb_size := lb_size b1 + n\<rparr>, h'))"
    using e(1) h'(1) assms(4,5) unfolding lb_append_def ensure_def by simp
  moreover have "take (lb_size b1 + n) (block_of b1 h') = content b h @ xs"
    using c1 h'(3) mem_read_length [OF rd] ok1 e(3,4) by (simp add: take_splice content_def lb_ok_def)
  then have "lb_step b h (b1\<lparr>lb_size := lb_size b1 + n\<rparr>) h' (content b h @ xs)"
    using h' e(3,4) mx owns_step_trans [OF ow h'(4)] by (intro lb_stepI) auto
  ultimately show ?thesis by blast
qed

lemma lb_resize_ok:
  assumes "lb_ok b h" and "n \<le> max_size b"
  shows "\<exists>b' h' ys. lb_resize n b h = Some (Inr (b', h')) \<and> lb_step b h b' h' ys \<and>
    lb_size b' = n \<and> length ys = n \<and> take (lb_size b) ys = take n (content b h)"
proof -
  obtain b1 h1 where e: "ensure n b h = Some (b1, h1)" "lb_step b h b1 h1 (content b h)"
    "n \<le> capacity b1" "lb_size b1 = lb_size b"
    using ensure_ok [OF assms] by blast
  let ?ys = "take n (block_of b1 h1)"
  have "lb_resize n b h = Some (Inr (b1\<lparr>lb_size := n\<rparr>, h1))"
    using e(1) assms(2) unfolding lb_resize_def ensure_def by simp
  moreover have "lb_step b h (b1\<lparr>lb_size := n\<rparr>) h1 ?ys"
    by (rule lb_stepI) (use e in \<open>auto simp: lb_step_def\<close>)
  moreover have "length ?ys = n" using e by (simp add: lb_step_def lb_ok_def)
  moreover have "content b1 h1 = content b h" using e(2) by (simp add: lb_step_def)
  moreover have "take (lb_size b) ?ys = take n (content b1 h1)"
    using e(4) by (simp add: content_def min.commute)
  ultimately show ?thesis by (intro exI [of _ "b1\<lparr>lb_size := n\<rparr>"] exI [of _ h1] exI [of _ ?ys]) simp
qed

lemma lb_reserve_ok:
  assumes "lb_ok b h" and "n \<le> max_size b"
  shows "\<exists>b' h'. lb_reserve n b h = Some (Inr (b', h')) \<and> lb_step b h b' h' (content b h) \<and>
    lb_size b' = lb_size b \<and> capacity b' = max n (capacity b)"
proof (cases "n > capacity b")
  case True
  then have n: "n \<le> size_max" "lb_size b \<le> n" using assms by (auto simp: lb_ok_def)
  show ?thesis using reallocate_keep [OF assms(1) n] True assms(2) by (auto simp: lb_reserve_def)
next
  case False
  then show ?thesis using assms by (simp add: lb_reserve_def lb_step_def)
qed

lemma lb_erase_range_ok:
  assumes "lb_ok b h" and "i \<le> j" and "j \<le> lb_size b"
  shows "\<exists>b' h'. lb_erase_range i j b h = Some (b', h') \<and>
    lb_step b h b' h' (take i (content b h) @ drop j (content b h)) \<and> capacity b' = capacity b \<and>
    lb_size b' = lb_size b - (j - i)"
proof -
  let ?n = "lb_size b - j"
  have sz: "lb_size b \<le> size_max" "lb_size b \<le> capacity b" using assms(1) by (auto simp: lb_ok_def)
  have m: "sz_sub j i = j - i" using assms sz by simp
  have m': "sz_sub (sz_sub (lb_size b) i) (j - i) = ?n" using assms(2,3) sz by simp
  have src: "j + ?n \<le> capacity b" and dst: "i + ?n \<le> capacity b" using assms(2,3) sz by auto
  obtain h' where h': "memmove (block_ptr (data_block b) i) (block_ptr (data_block b) j) ?n h = Some h'"
    "lb_ok b h'" "block_of b h' = splice i (take ?n (drop j (block_of b h))) (block_of b h)"
    "owns_step b h b h'"
    using move_own [OF assms(1) src dst] by blast
  have l: "length (block_of b h) = capacity b" using assms(1) by (simp add: lb_ok_def)
  have "take (lb_size b - (j - i)) (block_of b h') = take i (content b h) @ drop j (content b h)"
    using assms(2,3) sz l unfolding h'(3)
    by (subst take_splice) (auto simp: content_def min_def drop_take)
  then have "lb_step b h (b\<lparr>lb_size := lb_size b - (j - i)\<rparr>) h' (take i (content b h) @ drop j (content b h))"
    using h' sz by (intro lb_stepI) auto
  moreover have "lb_erase_range i j b h = Some (b\<lparr>lb_size := lb_size b - (j - i)\<rparr>, h')"
    using h'(1) m m' assms sz by (simp add: lb_erase_range_def Let_def)
  ultimately show ?thesis by auto
qed

lemma lb_erase_ok:
  assumes "lb_ok b h" and "i < lb_size b"
  shows "\<exists>b' h'. lb_erase i b h = Some (b', h') \<and>
    lb_step b h b' h' (take i (content b h) @ drop (Suc i) (content b h))"
proof -
  have sz: "lb_size b \<le> size_max" using assms(1) by (auto simp: lb_ok_def)
  have "lb_erase i b h = lb_erase_range i (Suc i) b h"
    using assms(2) sz by (simp add: lb_erase_def lb_erase_range_def)
  then show ?thesis using lb_erase_range_ok [OF assms(1), of i "Suc i"] assms(2) by auto
qed

text \<open>Insertion with a reallocation puts the bytes where they belong.\<close>

lemma copy_fresh:
  fixes h cap
  defines "g \<equiv> \<lambda>c. (snd (allocate cap h))\<lparr>blocks := (blocks (snd (allocate cap h)))(next_id h \<mapsto> c)\<rparr>"
  assumes "heap_ok h" and "mem_read data n h = Some xs" and "k + n \<le> length c"
  shows "memcpy (Some (next_id h, k)) data n (g c) = Some (g (splice k xs c))"
proof -
  have lx: "length xs = n" by (rule mem_read_length [OF assms(3)])
  have far: "mem_read data n (g c) = Some xs \<and> \<not> overlap (Some (next_id h, k)) data n"
  proof (cases "n = 0")
    case True
    then show ?thesis using assms(3) by (auto simp: mem_read_def overlap_def split: option.split)
  next
    case False
    then obtain i off d where d: "data = Some (i, off)" "blocks h i = Some d"
      using assms(3) by (auto simp: mem_read_def split: option.splits)
    then have ne: "i \<noteq> next_id h" using fresh_neq [OF assms(2)] by auto
    then have "mem_read data n (g c) = mem_read data n h" using d by (intro mem_read_cong) (auto simp: g_def)
    then show ?thesis using assms(3) ne d by (auto simp: overlap_def)
  qed
  have "mem_write (Some (next_id h, k)) xs (g c) = Some (g (splice k xs c))"
    by (subst mem_write_block [where cs = c]) (use lx assms(4) in \<open>auto simp: g_def\<close>)
  then show ?thesis using far by (simp add: memcpy_def memmove_def)
qed

text \<open>What the three copies of an insertion leave in the new block.\<close>

lemma three_copies:
  assumes "length c0 = cap" and "length p = k" and "length p + length xs + length q \<le> cap"
  shows "take (length p + length xs + length q) (splice (k + length xs) q (splice k xs (splice 0 p c0))) = p @ xs @ q"
    and "length (splice (k + length xs) q (splice k xs (splice 0 p c0))) = cap"
  using assms by (simp_all add: splice_def)

lemma lb_insert_grow:
  assumes "lb_ok b h" and "outside data b" and "mem_read data n h = Some xs" and "k \<le> lb_size b"
    and "lb_size b \<le> max_size b" and "n \<le> max_size b - lb_size b" and "lb_size b + n > capacity b"
  shows "\<exists>b' h'. lb_insert k data n b h = Some (Inr (b', h')) \<and>
    lb_step b h b' h' (take k (content b h) @ xs @ drop k (content b h))"
proof -
  let ?n = "lb_size b + n" and ?cap = "calculate_capacity b (lb_size b + n)" and ?j = "next_id h"
  let ?p = "take k (block_of b h)" and ?q = "take (lb_size b - k) (drop k (block_of b h))"
  define c0 where "c0 = replicate ?cap (None :: cell)"
  define c1 where "c1 = splice 0 ?p c0"
  define c3 where "c3 = splice (k + n) ?q (splice k xs c1)"
  have hok: "heap_ok h" and len: "length (block_of b h) = capacity b" and sz: "lb_size b \<le> capacity b"
    and smx: "max_size b \<le> size_max"
    using assms(1) by (simp_all add: lb_ok_def)
  have le: "?n \<le> max_size b" using assms(5,6) by simp
  note cb = calculate_capacity_bounds [OF le]
  have lx: "length xs = n" by (rule mem_read_length [OF assms(3)])
  have lp: "length ?p = k" "length ?q = lb_size b - k" using len sz assms(4) by auto
  have all: "length ?p + length xs + length ?q = ?n" using lp lx assms(4) by simp
  have l0: "length c0 = ?cap" by (simp add: c0_def)
  have l1: "length c1 = ?cap" unfolding c1_def by (subst length_splice) (use l0 cb lp assms(4) in auto)
  let ?init = "snd (allocate ?cap h)"
  let ?gg = "\<lambda>c. ?init\<lparr>blocks := (blocks ?init)(?j \<mapsto> c)\<rparr>"
  have nb: "data_block b \<noteq> Some ?j" using lb_ok_block [OF assms(1)] fresh_block [OF hok] by auto
  then have other: "blocks (?gg c) i = blocks h i" if "data_block b = Some i" for i c using that by auto
  have s1: "memcpy (Some (?j, 0)) (block_ptr (data_block b) 0) k ?init = Some (?gg c1)"
    using copy_out [OF assms(1), of 0 k ?j ?init c0 0] nb sz assms(4) l0 cb other [of _ c0]
    by (simp add: c1_def c0_def)
  have s2: "memcpy (Some (?j, k)) data n (?gg c1) = Some (?gg (splice k xs c1))"
    by (rule copy_fresh [OF hok assms(3)]) (use l1 cb assms(4) in simp)
  have s3: "memcpy (Some (?j, k + n)) (block_ptr (data_block b) k) (lb_size b - k) (?gg (splice k xs c1)) =
      Some (?gg c3)"
    using copy_out [OF assms(1), of k "lb_size b - k" ?j "?gg (splice k xs c1)" "splice k xs c1" "k + n"]
      nb sz assms(4) l1 lx cb other [of _ "splice k xs c1"]
    by (simp add: c3_def)
  have sub: "sz_sub (lb_size b) k = lb_size b - k" using assms(1,4) by (auto simp: lb_ok_def)
  define fill where "fill = (\<lambda>p g. do {
      g1 \<leftarrow> memcpy p (block_ptr (data_block b) 0) k g;
      g2 \<leftarrow> memcpy (ptr_add p k) data n g1;
      memcpy (ptr_add p (k + n)) (block_ptr (data_block b) k) (sz_sub (lb_size b) k) g2 })"
  have f: "fill (Some (?j, 0)) ?init = Some (?gg c3)"
    unfolding fill_def using s1 s2 s3 sub by (simp add: ptr_add_def)
  let ?b = "b\<lparr>data_block := Some ?j, capacity := ?cap\<rparr>"
  have cap: "?cap \<le> size_max" "lb_size b \<le> ?cap" using cb smx by auto
  have le3: "length ?p + length xs + length ?q \<le> ?cap" unfolding all using cb by simp
  have c3: "take ?n c3 = ?p @ xs @ ?q" "length c3 = ?cap"
    using three_copies [OF l0 lp(1) le3] unfolding all c3_def c1_def by (simp_all only: lx)
  obtain h' where h': "reallocate ?cap fill b h = Some (?b, h')" "lb_ok ?b h'" "block_of ?b h' = c3"
    "owns_step b h ?b h'"
    using reallocate_fill [where xs = c3 and fill = fill, OF assms(1) cap c3(2) f] by blast
  have "take ?n (block_of ?b h') = take k (content b h) @ xs @ drop k (content b h)"
    using assms(4) by (simp add: h'(3) c3(1) content_def drop_take min_def)
  then have "lb_step b h (?b\<lparr>lb_size := ?n\<rparr>) h' (take k (content b h) @ xs @ drop k (content b h))"
    using h' cb by (intro lb_stepI) auto
  moreover have "lb_insert k data n b h = Some (Inr (?b\<lparr>lb_size := lb_size ?b + n\<rparr>, h'))"
    using h'(1) assms(5-7) unfolding lb_insert_def fill_def by simp
  ultimately show ?thesis by (intro exI conjI) (assumption | simp)+
qed

text \<open>
  Insertion without a reallocation: the \<^verbatim>\<open>memmove\<close> of the source goes towards the front,
  so what follows the new bytes is what the moved block holds \<open>n\<close> cells further on.
\<close>

lemma lb_insert_in_place:
  assumes "lb_ok b h" and "outside data b" and "mem_read data n h = Some xs" and "k \<le> lb_size b"
    and "lb_size b \<le> max_size b" and "n \<le> max_size b - lb_size b" and "lb_size b + n \<le> capacity b"
  shows "\<exists>b' h'. lb_insert k data n b h = Some (Inr (b', h')) \<and>
    lb_step b h b' h' (take k (content b h) @ xs @
      take (lb_size b - k) (drop (k + n) (splice k (take (lb_size b - k) (drop (k + n) (block_of b h)))
        (block_of b h))))"
proof -
  let ?cs = "block_of b h" and ?m = "lb_size b - k"
  have sub: "sz_sub (lb_size b) k = ?m" using assms(1,4) by (auto simp: lb_ok_def)
  have src: "k + n + ?m \<le> capacity b" and dst: "k + ?m \<le> capacity b" using assms(4,7) by auto
  obtain g where g: "memmove (block_ptr (data_block b) k) (block_ptr (data_block b) (k + n)) ?m h = Some g"
    "lb_ok b g" "block_of b g = splice k (take ?m (drop (k + n) ?cs)) ?cs" "owns_step b h b g"
    using move_own [OF assms(1) src dst] by blast
  have rd: "mem_read data n g = Some xs" by (rule owns_step_read [OF g(4) assms(2,3)])
  have kn: "k + n \<le> capacity b" using assms(4,7) by simp
  obtain h' where h': "memcpy (block_ptr (data_block b) k) data n g = Some h'" "lb_ok b h'"
    "block_of b h' = splice k xs (block_of b g)" "owns_step b g b h'"
    using copy_in [OF g(2) kn assms(2) rd] by blast
  have lx: "length xs = n" by (rule mem_read_length [OF rd])
  have lg: "length (block_of b g) = capacity b" using g(2) by (simp add: lb_ok_def)
  have lc: "length ?cs = capacity b" using assms(1) by (simp add: lb_ok_def)
  have tk: "take k (splice k (take ?m (drop (k + n) ?cs)) ?cs) = take k ?cs"
    by (rule take_splice_before) (use lc assms(4,7) in auto)
  have "take (lb_size b + n) (block_of b h') = take k (block_of b g) @ xs @ take ?m (drop (k + n) (block_of b g))"
    using lg lx assms(4,7) by (simp add: h'(3) splice_def)
  also have "\<dots> = take k (content b h) @ xs @ take ?m (drop (k + n) (splice k (take ?m (drop (k + n) ?cs)) ?cs))"
    using assms(4) by (simp add: tk g(3) content_def min_absorb1)
  finally have "lb_step b h (b\<lparr>lb_size := lb_size b + n\<rparr>) h' (take k (content b h) @ xs @
      take ?m (drop (k + n) (splice k (take ?m (drop (k + n) ?cs)) ?cs)))"
    using h' assms(7) owns_step_trans [OF g(4) h'(4)] by (intro lb_stepI) auto
  moreover have "lb_insert k data n b h = Some (Inr (b\<lparr>lb_size := lb_size b + n\<rparr>, h'))"
    using g(1) h'(1) sub assms(5-7) unfolding lb_insert_def by simp
  ultimately show ?thesis by blast
qed

lemma lb_copy_ok:
  assumes "lb_ok b h"
  shows "\<exists>b' h'. lb_copy b h = Some (b', h') \<and> lb_ok b' h' \<and> lb_ok b h' \<and>
    content b' h' = content b h \<and> content b h' = content b h \<and>
    data_block b' = Some (next_id h) \<and> data_block b \<noteq> Some (next_id h) \<and>
    (\<forall>i. i \<noteq> next_id h \<longrightarrow> blocks h' i = blocks h i)"
proof -
  let ?n = "lb_size b" and ?j = "next_id h"
  let ?c = "splice 0 (take ?n (block_of b h)) (replicate ?n None)"
  have hok: "heap_ok h" and len: "length (block_of b h) = capacity b" and sz: "?n \<le> capacity b"
    using assms by (simp_all add: lb_ok_def)
  have nb: "data_block b \<noteq> Some ?j" using lb_ok_block [OF assms] fresh_block [OF hok] by auto
  let ?h' = "(snd (allocate ?n h))\<lparr>blocks := (blocks (snd (allocate ?n h)))(?j \<mapsto> ?c)\<rparr>"
  have "memcpy (Some (?j, 0)) (block_ptr (data_block b) 0) ?n (snd (allocate ?n h)) = Some ?h'"
    by (subst copy_out [OF assms, of 0 ?n ?j _ "replicate ?n None" 0]) (use nb sz in auto)
  then have e: "lb_copy b h = Some (\<lparr>data_block = Some ?j, capacity = ?n, lb_size = ?n,
      max_size = max_size b\<rparr>, ?h')"
    by (simp add: lb_copy_def split_beta)
  have c: "?c = content b h" using len sz by (simp add: splice_def content_def)
  have bo: "block_of b ?h' = block_of b h" by (rule block_of_cong) (use nb in auto)
  have "heap_ok ?h'" by (intro heap_ok_upd heap_ok_allocate hok) auto
  then show ?thesis unfolding e using assms nb bo len sz
    by (auto simp: lb_ok_def content_def block_of_Some splice_def)
qed

lemma lb_copy_assign_ok:
  assumes "lb_ok b h" and "lb_ok b2 h" and "data_block b = None \<or> data_block b2 \<noteq> data_block b"
    and "lb_size b2 \<le> max_size b"
  shows "\<exists>b' h'. lb_copy_assign b b2 h = Some (Inr (b', h')) \<and> lb_step b h b' h' (content b2 h)"
proof -
  let ?n = "lb_size b2"
  let ?p = "block_ptr (data_block b2) 0"
  have out: "outside ?p b" using assms(3) by (auto simp: outside_def block_ptr_def)
  have rd: "mem_read ?p ?n h = Some (content b2 h)"
    using read_own [OF assms(2), of 0 ?n] assms(2) by (simp add: lb_ok_def content_def)
  obtain b1 h1 where e: "(if ?n > capacity b then reallocate (calculate_capacity b ?n) (\<lambda>p g. Some g) b h
      else Some (b, h)) = Some (b1, h1)" "lb_ok b1 h1" "owns_step b h b1 h1" "?n \<le> capacity b1"
      "max_size b1 = max_size b"
  proof (cases "?n > capacity b")
    case True
    let ?cap = "calculate_capacity b ?n"
    note c = calculate_capacity_bounds [OF assms(4)]
    have cap: "?cap \<le> size_max" "lb_size b \<le> ?cap" using c assms(1) True by (auto simp: lb_ok_def)
    have "(\<lambda>p g. Some g) (Some (next_id h, 0) :: ptr) (snd (allocate ?cap h)) =
      Some ((snd (allocate ?cap h))\<lparr>blocks := (blocks (snd (allocate ?cap h)))(next_id h \<mapsto> replicate ?cap None)\<rparr>)"
      by simp
    from reallocate_fill [where xs = "replicate ?cap None" and fill = "\<lambda>p g. Some g", OF assms(1) cap _ this]
    show ?thesis using that True c by auto
  next
    case False
    then show ?thesis using that assms(1) by simp
  qed
  have rd1: "mem_read ?p ?n h1 = Some (content b2 h)" by (rule owns_step_read [OF e(3) out rd])
  have "\<exists>h'. memcpy (block_ptr (data_block b1) 0) ?p ?n h1 = Some h' \<and> lb_ok b1 h' \<and>
      block_of b1 h' = splice 0 (content b2 h) (block_of b1 h1) \<and> owns_step b1 h1 b1 h'"
  proof (cases "?n = 0")
    case True
    then show ?thesis using rd1 e(2)
      by (auto simp: memcpy_def memmove_def mem_read_def mem_write_def overlap_def split: option.split)
  next
    case False
    then show ?thesis using copy_in [OF e(2) _ owns_step_outside [OF e(3) out rd] rd1] e(4) by simp
  qed
  then obtain h' where h': "memcpy (block_ptr (data_block b1) 0) ?p ?n h1 = Some h'" "lb_ok b1 h'"
      "block_of b1 h' = splice 0 (content b2 h) (block_of b1 h1)" "owns_step b1 h1 b1 h'" by blast
  have "take ?n (block_of b1 h') = content b2 h"
    using mem_read_length [OF rd] e(2,4) unfolding h'(3) by (subst take_splice) (auto simp: lb_ok_def)
  then have "lb_step b h (b1\<lparr>lb_size := ?n\<rparr>) h' (content b2 h)"
    using h' e owns_step_trans [OF e(3) h'(4)] by (intro lb_stepI) auto
  moreover have "lb_copy_assign b b2 h = Some (Inr (b1\<lparr>lb_size := ?n\<rparr>, h'))"
    using e(1) h'(1) assms(4) unfolding lb_copy_assign_def Let_def by simp
  ultimately show ?thesis by blast
qed

text \<open>The move assignment between equal allocators has no result.\<close>

lemma move_assign_false_equal: "lb_move_assign_false True b other h = None"
proof -
  have "\<not> e" if "lb_move_assign_false e b other h = Some r" for e r
    by (rule lb_move_assign_false.raw_induct [where P = "\<lambda>e b other h r. \<not> e", OF _ that])
      (metis)
  then show ?thesis by (cases "lb_move_assign_false True b other h") auto
qed

end
