(* ===== verification/DynamicBuffer.thy ===== *)
theory DynamicBuffer
  imports LinearBuffer
begin

text \<open>
  \<^verbatim>\<open>dynamic_linear_buffer\<close>: the adapter that gives a \<^verbatim>\<open>basic_linear_buffer\<close> the
  DynamicBuffer interface, in both of its versions (prepare/commit and grow/shrink). The adapter
  holds a reference, so its operations take the adapter, the buffer and the memory as one state.
  The interface itself is the locale \<open>dynamic_buffer\<close>, interpreted on the adapter below.
\<close>

section \<open>The adapter\<close>

text \<open>\<open>size_max\<close> in \<open>v1_size\<close> means that only the second version has been used so far.\<close>

record dbuf =
  v1_size :: nat
  db_max :: nat

type_synonym dstate = "dbuf \<times> lbuf \<times> heap"

definition db_new :: "lbuf \<Rightarrow> nat \<Rightarrow> dbuf" where
  "db_new b maximum_size = \<lparr>v1_size = size_max, db_max = min (max_size b) maximum_size\<rparr>"

fun db_size :: "dstate \<Rightarrow> nat" where
  "db_size (d, b, h) = (if v1_size d \<noteq> size_max then v1_size d else min (lb_size b) (db_max d))"

fun db_capacity :: "dstate \<Rightarrow> nat" where
  "db_capacity (d, b, h) = min (capacity b) (db_max d)"

text \<open>A buffer object is a pointer and a length.\<close>

fun db_data :: "dstate \<Rightarrow> ptr \<times> nat" where
  "db_data (d, b, h) = (block_ptr (data_block b) 0, v1_size d)"

fun db_data_at :: "nat \<Rightarrow> nat \<Rightarrow> dstate \<Rightarrow> ptr \<times> nat" where
  "db_data_at pos n (d, b, h) =
     (let siz = lb_size b;
          pos' = (if pos > siz then siz else pos);
          n' = (if sz_add pos' n > siz then sz_sub siz pos' else n)
      in (block_ptr (data_block b) pos', n'))"

text \<open>A throwing operation gives the exception instead of a state.\<close>

definition db_resize :: "nat \<Rightarrow> dstate \<Rightarrow> (cxx_exception + dstate) option" where
  "db_resize n s =
     (case s of (d, b, h) \<Rightarrow>
        map_option (map_sum id (\<lambda>(b', h'). (d, b', h'))) (lb_resize n b h))"

definition db_prepare :: "nat \<Rightarrow> dstate \<Rightarrow> (cxx_exception + (ptr \<times> nat) \<times> dstate) option" where
  "db_prepare n s =
     (case s of (d, b, h) \<Rightarrow>
        let siz = (if v1_size d = size_max then lb_size b else v1_size d) in
        if siz > db_max d \<or> db_max d - siz < n then Some (Inl length_error)
        else
          map_option (map_sum id (\<lambda>(d', b', h').
              ((block_ptr (data_block b') siz, sz_sub (lb_size b') siz), (d', b', h'))))
            (db_resize (siz + n) (d\<lparr>v1_size := siz\<rparr>, b, h)))"

definition db_prepare_ec ::
    "nat \<Rightarrow> dstate \<Rightarrow> (cxx_exception + (ptr \<times> nat) \<times> error_code \<times> dstate) option" where
  "db_prepare_ec n s =
     (case s of (d, b, h) \<Rightarrow>
        let siz = (if v1_size d = size_max then lb_size b else v1_size d) in
        if siz > db_max d \<or> db_max d - siz < n then Some (Inr ((None, 0), ec_asio no_memory, s))
        else
          map_option (map_sum id (\<lambda>(d', b', h').
              ((block_ptr (data_block b') siz, sz_sub (lb_size b') siz), no_error, (d', b', h'))))
            (db_resize (siz + n) (d\<lparr>v1_size := siz\<rparr>, b, h)))"

definition db_commit :: "nat \<Rightarrow> dstate \<Rightarrow> (cxx_exception + dstate) option" where
  "db_commit n s =
     (case s of (d, b, h) \<Rightarrow>
        let siz = sz_add (v1_size d) (min n (sz_sub (lb_size b) (v1_size d))) in
        db_resize siz (d\<lparr>v1_size := siz\<rparr>, b, h))"

definition db_grow :: "nat \<Rightarrow> dstate \<Rightarrow> (cxx_exception + dstate) option" where
  "db_grow n s =
     (case s of (d, b, h) \<Rightarrow>
        let siz = db_size s in
        if siz > db_max d \<or> db_max d - siz < n then Some (Inl length_error)
        else db_resize (siz + n) s)"

definition db_shrink :: "nat \<Rightarrow> dstate \<Rightarrow> (cxx_exception + dstate) option" where
  "db_shrink n s = (let siz = db_size s in db_resize (siz - min siz n) s)"

definition db_consume :: "nat \<Rightarrow> dstate \<Rightarrow> dstate option" where
  "db_consume n s =
     (case s of (d, b, h) \<Rightarrow>
        if v1_size d \<noteq> size_max
        then
          (let consume_length = min n (v1_size d) in
           map_option (\<lambda>(b', h'). (d\<lparr>v1_size := v1_size d - consume_length\<rparr>, b', h'))
             (lb_erase_range 0 consume_length b h))
        else
          map_option (\<lambda>(b', h'). (d, b', h'))
            (lb_erase_range 0 (min (min (lb_size b) (db_max d)) n) b h))"

text \<open>
  What a client does with the buffer objects: read the bytes \<open>data()\<close> stands for, and write
  bytes through the pointer of a buffer object that \<open>prepare\<close> has returned.
\<close>

definition db_view :: "dstate \<Rightarrow> cells option" where
  "db_view s = (case s of (d, b, h) \<Rightarrow> (case db_data s of (p, n) \<Rightarrow> mem_read p n h))"

definition db_write :: "ptr \<times> nat \<Rightarrow> cells \<Rightarrow> dstate \<Rightarrow> dstate option" where
  "db_write buf xs s =
     (case s of (d, b, h) \<Rightarrow> map_option (\<lambda>h'. (d, b, h')) (mem_write (fst buf) xs h))"

section \<open>Abstraction\<close>

text \<open>
  The bytes that can be read, and the region the last \<open>prepare\<close> made writable, its bytes and where it
  is: it follows the bytes that can be read. Before the first \<open>prepare\<close> nothing is writable.
\<close>

fun db_readable :: "dstate \<Rightarrow> cells" where
  "db_readable (d, b, h) = take (db_size (d, b, h)) (content b h)"

fun db_writable :: "dstate \<Rightarrow> cells" where
  "db_writable (d, b, h) = (if v1_size d = size_max then [] else drop (v1_size d) (content b h))"

fun db_region :: "dstate \<Rightarrow> ptr \<times> nat" where
  "db_region (d, b, h) = (block_ptr (data_block b) (v1_size d), lb_size b - v1_size d)"

fun db_ready :: "dstate \<Rightarrow> bool" where
  "db_ready (d, b, h) = (v1_size d \<noteq> size_max)"

text \<open>
  The invariant. The limit of the adapter is below the largest size, so that the marker of the
  first version cannot be a size.
\<close>

fun db_ok :: "dstate \<Rightarrow> bool" where
  "db_ok (d, b, h) =
     (lb_ok b h \<and> db_max d \<le> max_size b \<and> db_max d < size_max \<and> lb_size b \<le> db_max d \<and>
      (v1_size d \<noteq> size_max \<longrightarrow> v1_size d \<le> lb_size b))"

fun db_limit :: "dstate \<Rightarrow> nat" where
  "db_limit (d, b, h) = db_max d"

text \<open>What a step of the adapter leaves alone in memory.\<close>

fun db_frame :: "dstate \<Rightarrow> dstate \<Rightarrow> bool" where
  "db_frame (d, b, h) (d', b', h') = owns_step b h b' h'"

lemma db_new_ok:
  "lb_ok b h \<Longrightarrow> maximum_size < size_max \<Longrightarrow> lb_size b \<le> min (max_size b) maximum_size \<Longrightarrow>
     db_ok (db_new b maximum_size, b, h)"
  by (auto simp: db_new_def)

lemma db_size_readable: "db_ok s \<Longrightarrow> db_size s = length (db_readable s)"
  by (cases s) (auto simp: length_content min_def)

lemma db_resize_ok:
  assumes "lb_ok b h" and "n \<le> max_size b"
  shows "\<exists>b' h' ys. db_resize n (d, b, h) = Some (Inr (d, b', h')) \<and> lb_step b h b' h' ys \<and>
    lb_size b' = n \<and> length ys = n \<and> take (lb_size b) ys = take n (content b h)"
  using lb_resize_ok [OF assms] by (auto simp: db_resize_def)

section \<open>What the operations do\<close>

lemma db_ready_facts:
  assumes "db_ok (d, b, h)" and "db_ready (d, b, h)"
  shows "v1_size d \<noteq> size_max" and "v1_size d \<le> lb_size b" and "lb_ok b h"
    and "length (content b h) = lb_size b" and "db_readable (d, b, h) = take (v1_size d) (content b h)"
    and "db_writable (d, b, h) = drop (v1_size d) (content b h)"
    and "content b h = db_readable (d, b, h) @ db_writable (d, b, h)"
  using assms by (auto simp: length_content)

lemma db_start:
  assumes "db_ok (d, b, h)"
  shows "(if v1_size d = size_max then lb_size b else v1_size d) = length (db_readable (d, b, h))"
  using assms by (auto simp: length_content)

lemma take_prefix_eq: "take m ys = take k xs \<Longrightarrow> n \<le> m \<Longrightarrow> n \<le> k \<Longrightarrow> take n ys = take n xs"
  by (metis min.absorb1 take_take)

lemma db_prepare_ok:
  assumes "db_ok s" and "length (db_readable s) + n \<le> db_limit s"
  shows "\<exists>s'. db_prepare n s = Some (Inr (db_region s', s')) \<and>
    db_prepare_ec n s = Some (Inr (db_region s', no_error, s')) \<and>
    db_ok s' \<and> db_ready s' \<and> db_readable s' = db_readable s \<and> snd (db_region s') = n \<and>
    length (db_writable s') = n \<and> db_limit s' = db_limit s \<and> db_frame s s'"
proof -
  obtain d b h where s: "s = (d, b, h)" by (cases s) auto
  let ?siz = "if v1_size d = size_max then lb_size b else v1_size d"
  have sz: "?siz = length (db_readable s)" using db_start assms(1) s by blast
  have ok: "lb_ok b h" "db_max d \<le> max_size b" "db_max d < size_max" "lb_size b \<le> db_max d"
    "?siz \<le> lb_size b" using assms(1) s by (auto split: if_splits)
  have le: "?siz + n \<le> max_size b" "?siz + n \<le> db_max d" "?siz + n \<le> size_max"
    using assms(2) ok sz s by auto
  obtain b' h' ys where r: "db_resize (?siz + n) (d\<lparr>v1_size := ?siz\<rparr>, b, h) = Some (Inr (d\<lparr>v1_size := ?siz\<rparr>, b', h'))"
    "lb_step b h b' h' ys" "lb_size b' = ?siz + n" "length ys = ?siz + n"
    "take (lb_size b) ys = take (?siz + n) (content b h)"
    using db_resize_ok [OF ok(1) le(1), of "d\<lparr>v1_size := ?siz\<rparr>"] by blast
  let ?s = "(d\<lparr>v1_size := ?siz\<rparr>, b', h')"
  have c: "content b' h' = ys" "lb_ok b' h'" "max_size b' = max_size b" "owns_step b h b' h'"
    using r(2) by (simp_all add: lb_step_def)
  have g: "\<not> (?siz > db_max d \<or> db_max d - ?siz < n)" using le(2) by auto
  have n: "sz_sub (lb_size b') ?siz = n" using r(3) le(3) by simp
  have t: "take ?siz ys = take ?siz (content b h)"
    by (rule take_prefix_eq [OF r(5)]) (use ok in auto)
  have rd: "db_readable s = take ?siz (content b h)" using s ok by (auto simp: length_content)
  have "?siz \<noteq> size_max" using ok by auto
  then have "db_ok ?s \<and> db_ready ?s \<and> db_readable ?s = db_readable s \<and> length (db_writable ?s) = n \<and>
      db_limit ?s = db_limit s \<and> db_frame s ?s"
    using c ok le r(3,4) t rd s by auto
  moreover have reg: "db_region ?s = (block_ptr (data_block b') ?siz, n)" using r(3) by simp
  moreover have "db_prepare n s = Some (Inr (db_region ?s, ?s))"
    "db_prepare_ec n s = Some (Inr (db_region ?s, no_error, ?s))"
    using g n r(1) unfolding reg s db_prepare_def db_prepare_ec_def Let_def by simp_all
  ultimately show ?thesis by (metis snd_conv)
qed

lemma db_prepare_full:
  assumes "db_ok s" and "length (db_readable s) + n > db_limit s"
  shows "db_prepare n s = Some (Inl length_error)"
    and "db_prepare_ec n s = Some (Inr ((None, 0), ec_asio no_memory, s))"
proof -
  obtain d b h where s: "s = (d, b, h)" by (cases s) auto
  have sz: "(if v1_size d = size_max then lb_size b else v1_size d) = length (db_readable s)"
    using db_start assms(1) s by blast
  have g: "(if v1_size d = size_max then lb_size b else v1_size d) > db_max d \<or>
      db_max d - (if v1_size d = size_max then lb_size b else v1_size d) < n"
    using assms(2) unfolding sz by (auto simp: s)
  show "db_prepare n s = Some (Inl length_error)"
    "db_prepare_ec n s = Some (Inr ((None, 0), ec_asio no_memory, s))"
    using g unfolding db_prepare_def db_prepare_ec_def s Let_def by simp_all
qed

lemma db_commit_ok:
  assumes "db_ok s" and "db_ready s"
  shows "\<exists>s'. db_commit n s = Some (Inr s') \<and> db_ok s' \<and> db_ready s' \<and>
    db_readable s' = db_readable s @ take n (db_writable s) \<and> db_writable s' = [] \<and>
    db_limit s' = db_limit s \<and> db_frame s s'"
proof -
  obtain d b h where s: "s = (d, b, h)" by (cases s) auto
  note f = db_ready_facts [OF assms [unfolded s]]
  let ?siz = "v1_size d + min n (lb_size b - v1_size d)"
  have ok: "db_max d \<le> max_size b" "db_max d < size_max" "lb_size b \<le> db_max d"
    using assms(1) s by auto
  have sz: "lb_size b \<le> size_max" using ok by simp
  have e: "sz_add (v1_size d) (min n (sz_sub (lb_size b) (v1_size d))) = ?siz"
    using f(2) sz by simp
  have le: "?siz \<le> lb_size b" using f(2) by simp
  have lem: "?siz \<le> max_size b" using le ok by simp
  obtain b' h' ys where r: "db_resize ?siz (d\<lparr>v1_size := ?siz\<rparr>, b, h) = Some (Inr (d\<lparr>v1_size := ?siz\<rparr>, b', h'))"
    "lb_step b h b' h' ys" "lb_size b' = ?siz" "length ys = ?siz"
    "take (lb_size b) ys = take ?siz (content b h)"
    using db_resize_ok [OF f(3) lem, of "d\<lparr>v1_size := ?siz\<rparr>"] by blast
  let ?s = "(d\<lparr>v1_size := ?siz\<rparr>, b', h')"
  have c: "content b' h' = ys" "lb_ok b' h'" "max_size b' = max_size b" "owns_step b h b' h'"
    using r(2) by (simp_all add: lb_step_def)
  have ys: "ys = take ?siz (content b h)" using r(4,5) le by simp
  have "take ?siz (content b h) = db_readable s @ take n (db_writable s)"
    unfolding s f(5,6) using f(2,4) by (simp add: take_add min_def)
  moreover have m: "?siz \<noteq> size_max" using le sz ok by linarith
  moreover have "db_readable ?s = ys" using m c(1) r(4) by simp
  moreover have "db_writable ?s = []" using m c(1) r(4) by simp
  moreover have "db_ok ?s \<and> db_ready ?s \<and> db_limit ?s = db_limit s \<and> db_frame s ?s"
    using m c ok le r(3) s by auto
  ultimately have "db_ok ?s \<and> db_ready ?s \<and> db_readable ?s = db_readable s @ take n (db_writable s) \<and>
      db_writable ?s = [] \<and> db_limit ?s = db_limit s \<and> db_frame s ?s"
    using ys by (simp del: db_readable.simps db_writable.simps db_ready.simps db_ok.simps db_limit.simps
        db_frame.simps)
  moreover have "db_commit n s = Some (Inr ?s)" using r(1) unfolding s db_commit_def Let_def prod.case e .
  ultimately show ?thesis by blast
qed

lemma db_consume_ok:
  assumes "db_ok s"
  shows "\<exists>s'. db_consume n s = Some s' \<and> db_ok s' \<and> db_ready s' = db_ready s \<and>
    db_readable s' = drop n (db_readable s) \<and> db_writable s' = db_writable s \<and>
    db_limit s' = db_limit s \<and> db_frame s s'"
proof -
  obtain d b h where s: "s = (d, b, h)" by (cases s) auto
  have ok: "lb_ok b h" "db_max d \<le> max_size b" "db_max d < size_max" "lb_size b \<le> db_max d"
    using assms s by auto
  show ?thesis
  proof (cases "v1_size d = size_max")
    case False
    let ?k = "min n (v1_size d)"
    have v: "v1_size d \<le> lb_size b" using assms s False by auto
    have k: "?k \<le> lb_size b" using v by simp
    obtain b' h' where r: "lb_erase_range 0 ?k b h = Some (b', h')"
      "lb_step b h b' h' (drop ?k (content b h))" "lb_size b' = lb_size b - ?k"
      using lb_erase_range_ok [OF ok(1) _ k, of 0] by auto
    have c: "content b' h' = drop ?k (content b h)" "lb_ok b' h'" "max_size b' = max_size b" "owns_step b h b' h'"
      using r(2) by (simp_all add: lb_step_def)
    let ?s = "(d\<lparr>v1_size := v1_size d - ?k\<rparr>, b', h')"
    have m: "v1_size d - ?k \<noteq> size_max" using v ok by simp
    have "db_readable ?s = drop n (db_readable s)"
      using m c(1) False v length_content [OF ok(1)] by (auto simp: s drop_take min_def)
    moreover have "db_writable ?s = db_writable s" using m c(1) False by (simp add: s)
    moreover have "db_ok ?s \<and> db_ready ?s = db_ready s \<and> db_limit ?s = db_limit s \<and> db_frame s ?s"
      using c ok v m r(3) False by (auto simp: s)
    moreover have "db_consume n s = Some ?s" using r(1) False by (simp add: s db_consume_def Let_def)
    ultimately show ?thesis by blast
  next
    case True
    have k: "min (min (lb_size b) (db_max d)) n = min (lb_size b) n" using ok by simp
    obtain b' h' where r: "lb_erase_range 0 (min (lb_size b) n) b h = Some (b', h')"
      "lb_step b h b' h' (drop (min (lb_size b) n) (content b h))" "lb_size b' = lb_size b - min (lb_size b) n"
      using lb_erase_range_ok [OF ok(1), of 0 "min (lb_size b) n"] by auto
    have c: "content b' h' = drop (min (lb_size b) n) (content b h)" "lb_ok b' h'" "max_size b' = max_size b"
      "owns_step b h b' h'"
      using r(2) by (simp_all add: lb_step_def)
    let ?s = "(d, b', h')"
    have lc: "length (content b h) = lb_size b" by (rule length_content [OF ok(1)])
    then have "drop (min (lb_size b) n) (content b h) = drop n (content b h)" by (auto simp: min_def)
    then have "db_readable ?s = drop n (db_readable s)"
      using True c(1) ok r(3) lc by (simp add: s)
    moreover have "db_writable ?s = db_writable s" using True by (simp add: s)
    moreover have "db_ok ?s \<and> db_ready ?s = db_ready s \<and> db_limit ?s = db_limit s \<and> db_frame s ?s"
      using c ok r(3) True by (auto simp: s)
    moreover have "db_consume n s = Some ?s" using r(1) True k by (simp add: s db_consume_def)
    ultimately show ?thesis by blast
  qed
qed

lemma db_write_ok:
  assumes "db_ok s" and "db_ready s" and "length xs \<le> length (db_writable s)"
  shows "\<exists>s'. db_write (db_region s) xs s = Some s' \<and> db_ok s' \<and> db_ready s' \<and>
    db_readable s' = db_readable s \<and> db_writable s' = splice 0 xs (db_writable s) \<and>
    db_limit s' = db_limit s \<and> db_frame s s'"
proof -
  obtain d b h where s: "s = (d, b, h)" by (cases s) auto
  note f = db_ready_facts [OF assms(1,2) [unfolded s]]
  let ?v = "v1_size d"
  have le: "?v + length xs \<le> lb_size b" using assms(3) f(2,4) by (simp add: s f(6) del: db_writable.simps)
  have cap: "lb_size b \<le> capacity b" "length (block_of b h) = capacity b"
    using f(3) by (simp_all add: lb_ok_def)
  obtain h' where h': "mem_write (block_ptr (data_block b) ?v) xs h = Some h'" "lb_ok b h'"
    "block_of b h' = splice ?v xs (block_of b h)" "owns_step b h b h'"
    using write_own [OF f(3), of ?v xs] le cap by auto
  have c: "content b h' = splice ?v xs (content b h)"
    unfolding content_def h'(3) by (rule take_splice_inside) (use le cap in auto)
  let ?s = "(d, b, h')"
  have "db_readable ?s = db_readable s"
    using f(1) le cap f(4) by (simp add: s c take_splice_before)
  moreover have "db_writable ?s = splice 0 xs (db_writable s)"
    using f(1) le f(4) by (simp add: s c splice_def drop_take add.commute add.left_commute)
  moreover have "db_ok ?s \<and> db_ready ?s \<and> db_limit ?s = db_limit s \<and> db_frame s ?s"
    using assms(1,2) h' by (auto simp: s)
  moreover have "db_write (db_region s) xs s = Some ?s" using h'(1) by (simp add: s db_write_def)
  ultimately show ?thesis by blast
qed

lemma db_view_ok:
  assumes "db_ok s" and "db_ready s"
  shows "db_view s = Some (db_readable s)"
proof -
  obtain d b h where s: "s = (d, b, h)" by (cases s) auto
  note f = db_ready_facts [OF assms [unfolded s]]
  have "0 + v1_size d \<le> capacity b" using f(2,3) by (simp add: lb_ok_def)
  from read_own [OF f(3) this] show ?thesis
    using f(1,2) by (simp add: s db_view_def content_def min_absorb1)
qed

text \<open>
  The second version of the interface, used alone: \<open>grow\<close> keeps the bytes and makes room
  behind them, \<open>shrink\<close> cuts at the end.
\<close>

lemma db_grow_ok:
  assumes "db_ok s" and "\<not> db_ready s" and "length (db_readable s) + n \<le> db_limit s"
  shows "\<exists>s'. db_grow n s = Some (Inr s') \<and> db_ok s' \<and> \<not> db_ready s' \<and>
    length (db_readable s') = length (db_readable s) + n \<and>
    take (length (db_readable s)) (db_readable s') = db_readable s \<and> db_frame s s'"
proof -
  obtain d b h where s: "s = (d, b, h)" by (cases s) auto
  have ok: "lb_ok b h" "db_max d \<le> max_size b" "db_max d < size_max" "lb_size b \<le> db_max d"
    and v: "v1_size d = size_max" using assms(1,2) s by auto
  have lc: "length (content b h) = lb_size b" by (rule length_content [OF ok(1)])
  have rd: "db_readable s = content b h" "db_size s = lb_size b" using ok v lc by (auto simp: s)
  have le: "lb_size b + n \<le> db_max d" "lb_size b + n \<le> max_size b" using assms(3) rd ok lc by (auto simp: s)
  obtain b' h' ys where r: "db_resize (lb_size b + n) (d, b, h) = Some (Inr (d, b', h'))"
    "lb_step b h b' h' ys" "lb_size b' = lb_size b + n" "length ys = lb_size b + n"
    "take (lb_size b) ys = take (lb_size b + n) (content b h)"
    using db_resize_ok [OF ok(1) le(2)] by blast
  have c: "content b' h' = ys" "lb_ok b' h'" "max_size b' = max_size b" "owns_step b h b' h'"
    using r(2) by (simp_all add: lb_step_def)
  have "db_readable (d, b', h') = ys" using v c(1) r(3,4) le(1) by simp
  moreover have "take (lb_size b) ys = content b h" using r(5) lc by simp
  moreover have "db_ok (d, b', h') \<and> \<not> db_ready (d, b', h') \<and> db_frame s (d, b', h')"
    using c ok v r(3) le(1) by (auto simp: s)
  moreover have "db_grow n s = Some (Inr (d, b', h'))"
    using r(1) rd(2) le(1) unfolding s db_grow_def Let_def by auto
  ultimately show ?thesis using rd lc r(4) by (intro exI [of _ "(d, b', h')"]) simp
qed

lemma db_shrink_ok:
  assumes "db_ok s" and "\<not> db_ready s"
  shows "\<exists>s'. db_shrink n s = Some (Inr s') \<and> db_ok s' \<and> \<not> db_ready s' \<and>
    db_readable s' = take (length (db_readable s) - n) (db_readable s) \<and> db_frame s s'"
proof -
  obtain d b h where s: "s = (d, b, h)" by (cases s) auto
  have ok: "lb_ok b h" "db_max d \<le> max_size b" "db_max d < size_max" "lb_size b \<le> db_max d"
    and v: "v1_size d = size_max" using assms(1,2) s by auto
  have lc: "length (content b h) = lb_size b" by (rule length_content [OF ok(1)])
  have rd: "db_readable s = content b h" "db_size s = lb_size b" using ok v lc by (auto simp: s)
  let ?k = "lb_size b - min (lb_size b) n"
  have k: "?k = lb_size b - n" by simp
  have le: "?k \<le> max_size b" using ok by simp
  obtain b' h' ys where r: "db_resize ?k (d, b, h) = Some (Inr (d, b', h'))"
    "lb_step b h b' h' ys" "lb_size b' = ?k" "length ys = ?k"
    "take (lb_size b) ys = take ?k (content b h)"
    using db_resize_ok [OF ok(1) le] by blast
  have c: "content b' h' = ys" "lb_ok b' h'" "max_size b' = max_size b" "owns_step b h b' h'"
    using r(2) by (simp_all add: lb_step_def)
  have "db_readable (d, b', h') = ys" using v c(1) r(3,4) ok(4) by simp
  moreover have "ys = take (lb_size b - n) (content b h)" using r(4,5) k by simp
  moreover have "db_ok (d, b', h') \<and> \<not> db_ready (d, b', h') \<and> db_frame s (d, b', h')"
    using c ok v r(3) by (auto simp: s)
  moreover have "db_shrink n s = Some (Inr (d, b', h'))"
    using r(1) rd(2) unfolding s db_shrink_def Let_def by simp
  ultimately show ?thesis using rd lc by (intro exI [of _ "(d, b', h')"]) simp
qed

declare db_readable.simps [simp del] db_writable.simps [simp del] db_ready.simps [simp del]
  db_region.simps [simp del] db_ok.simps [simp del] db_limit.simps [simp del] db_frame.simps [simp del]

section \<open>The DynamicBuffer interface\<close>

text \<open>
  Templates of the library take any type with these member functions. Such a type is a record of
  its operations on a state. \<open>op_view\<close> reads the bytes of \<^verbatim>\<open>data()\<close>, \<open>op_write\<close>
  writes through a buffer object that \<^verbatim>\<open>prepare\<close> has returned.
\<close>

record 's dyn_ops =
  op_size :: "'s \<Rightarrow> nat"
  op_prepare :: "nat \<Rightarrow> 's \<Rightarrow> (cxx_exception + (ptr \<times> nat) \<times> 's) option"
  op_view :: "'s \<Rightarrow> cells option"
  op_write :: "ptr \<times> nat \<Rightarrow> cells \<Rightarrow> 's \<Rightarrow> 's option"
  op_commit :: "nat \<Rightarrow> 's \<Rightarrow> (cxx_exception + 's) option"
  op_consume :: "nat \<Rightarrow> 's \<Rightarrow> 's option"

text \<open>
  How the library appends a packet: \<open>prepare(size)\<close>, write the packet at the start of the
  region, \<open>commit(size)\<close>. The two sizes are separate arguments, as the callers compute them
  separately.
\<close>

definition put_packet :: "'s dyn_ops \<Rightarrow> nat \<Rightarrow> cells \<Rightarrow> 's \<Rightarrow> (cxx_exception + 's) option" where
  "put_packet ops sz xs s =
     do {
       r \<leftarrow> op_prepare ops sz s;
       (case r of
          Inl e \<Rightarrow> Some (Inl e)
        | Inr (buf, s1) \<Rightarrow> do { s2 \<leftarrow> op_write ops buf xs s1; op_commit ops sz s2 })
     }"

locale dynamic_buffer =
  fixes ops :: "'s dyn_ops"
    and inv :: "'s \<Rightarrow> bool"
    and ready :: "'s \<Rightarrow> bool"
    and rd :: "'s \<Rightarrow> cells"
    and wr :: "'s \<Rightarrow> cells"
    and region :: "'s \<Rightarrow> ptr \<times> nat"
    and lim :: "'s \<Rightarrow> nat"
  assumes size_law: "inv s \<Longrightarrow> op_size ops s = length (rd s)"
    and prepare_law: "inv s \<Longrightarrow> length (rd s) + n \<le> lim s \<Longrightarrow>
      \<exists>s'. op_prepare ops n s = Some (Inr (region s', s')) \<and> inv s' \<and> ready s' \<and> rd s' = rd s \<and>
        length (wr s') = n \<and> snd (region s') = n \<and> lim s' = lim s"
    and prepare_full_law: "inv s \<Longrightarrow> length (rd s) + n > lim s \<Longrightarrow>
      op_prepare ops n s = Some (Inl length_error)"
    and view_law: "inv s \<Longrightarrow> ready s \<Longrightarrow> op_view ops s = Some (rd s)"
    and write_law: "inv s \<Longrightarrow> ready s \<Longrightarrow> length xs \<le> length (wr s) \<Longrightarrow>
      \<exists>s'. op_write ops (region s) xs s = Some s' \<and> inv s' \<and> ready s' \<and> rd s' = rd s \<and>
        wr s' = splice 0 xs (wr s) \<and> lim s' = lim s"
    and commit_law: "inv s \<Longrightarrow> ready s \<Longrightarrow>
      \<exists>s'. op_commit ops n s = Some (Inr s') \<and> inv s' \<and> ready s' \<and>
        rd s' = rd s @ take n (wr s) \<and> lim s' = lim s"
    and consume_law: "inv s \<Longrightarrow>
      \<exists>s'. op_consume ops n s = Some s' \<and> inv s' \<and> (ready s \<longrightarrow> ready s') \<and>
        rd s' = drop n (rd s) \<and> lim s' = lim s"
begin

lemma splice_all: "length xs = length ys \<Longrightarrow> splice 0 xs ys = xs"
  by (simp add: splice_def)

lemma write_commit:
  assumes "inv s" and "ready s" and "length xs = length (wr s)"
  shows "\<exists>s1 s2. op_write ops (region s) xs s = Some s1 \<and> op_commit ops (length xs) s1 = Some (Inr s2) \<and>
    inv s2 \<and> ready s2 \<and> rd s2 = rd s @ xs \<and> lim s2 = lim s"
proof -
  obtain s1 where s1: "op_write ops (region s) xs s = Some s1" "inv s1" "ready s1" "rd s1 = rd s"
    "wr s1 = splice 0 xs (wr s)" "lim s1 = lim s"
    using write_law [OF assms(1,2), of xs] assms(3) by auto
  have "wr s1 = xs" using s1(5) splice_all assms(3) by simp
  then show ?thesis using commit_law [OF s1(2,3), of "length xs"] s1 by auto
qed

lemma put_packet_ok:
  assumes "inv s" and "length (rd s) + length xs \<le> lim s"
  shows "\<exists>s'. put_packet ops (length xs) xs s = Some (Inr s') \<and> inv s' \<and> ready s' \<and>
    rd s' = rd s @ xs \<and> lim s' = lim s"
proof -
  obtain s1 where s1: "op_prepare ops (length xs) s = Some (Inr (region s1, s1))" "inv s1" "ready s1" "rd s1 = rd s"
    "length (wr s1) = length xs" "lim s1 = lim s"
    using prepare_law [OF assms] by blast
  obtain s2 s3 where "op_write ops (region s1) xs s1 = Some s2" "op_commit ops (length xs) s2 = Some (Inr s3)"
    "inv s3" "ready s3" "rd s3 = rd s1 @ xs" "lim s3 = lim s1"
    using write_commit [OF s1(2,3)] s1(5) by metis
  then show ?thesis using s1 by (auto simp: put_packet_def)
qed

lemma put_packet_full:
  "inv s \<Longrightarrow> length (rd s) + n > lim s \<Longrightarrow> put_packet ops n xs s = Some (Inl length_error)"
  by (simp add: put_packet_def prepare_full_law)

end

text \<open>The adapter of the library provides the interface.\<close>

definition linear_ops :: "dstate dyn_ops" where
  "linear_ops =
     \<lparr>op_size = db_size, op_prepare = db_prepare, op_view = db_view, op_write = db_write,
      op_commit = db_commit, op_consume = db_consume\<rparr>"

interpretation lin: dynamic_buffer linear_ops db_ok db_ready db_readable db_writable db_region db_limit
proof unfold_locales
  fix s n assume "db_ok s" "length (db_readable s) + n \<le> db_limit s"
  from db_prepare_ok [OF this]
  show "\<exists>s'. op_prepare linear_ops n s = Some (Inr (db_region s', s')) \<and> db_ok s' \<and>
      db_ready s' \<and> db_readable s' = db_readable s \<and> length (db_writable s') = n \<and>
      snd (db_region s') = n \<and> db_limit s' = db_limit s"
    by (auto simp: linear_ops_def)
next
  fix s n assume a: "db_ok s" "db_ready s"
  from db_commit_ok [OF this, of n] show "\<exists>s'. op_commit linear_ops n s = Some (Inr s') \<and> db_ok s' \<and>
      db_ready s' \<and> db_readable s' = db_readable s @ take n (db_writable s) \<and> db_limit s' = db_limit s"
    by (auto simp: linear_ops_def)
next
  fix s and xs :: cells assume "db_ok s" "db_ready s" "length xs \<le> length (db_writable s)"
  from db_write_ok [OF this] show "\<exists>s'. op_write linear_ops (db_region s) xs s = Some s' \<and> db_ok s' \<and>
      db_ready s' \<and> db_readable s' = db_readable s \<and> db_writable s' = splice 0 xs (db_writable s) \<and>
      db_limit s' = db_limit s"
    by (auto simp: linear_ops_def)
next
  fix s n assume "db_ok s"
  from db_consume_ok [OF this, of n] show "\<exists>s'. op_consume linear_ops n s = Some s' \<and> db_ok s' \<and>
      (db_ready s \<longrightarrow> db_ready s') \<and> db_readable s' = drop n (db_readable s) \<and> db_limit s' = db_limit s"
    by (auto simp: linear_ops_def)
qed (simp_all add: linear_ops_def db_size_readable db_prepare_full db_view_ok)

end
