(* ===== verification/BufferCorrect.thy ===== *)
theory BufferCorrect
  imports DynamicBuffer
begin

text \<open>
  The properties of \<^verbatim>\<open>basic_linear_buffer\<close> and \<^verbatim>\<open>dynamic_linear_buffer\<close>, each
  with an instance on a concrete memory.
\<close>

section \<open>A concrete memory\<close>

text \<open>Block 0 holds two bytes of a user, block 1 is a buffer of capacity 4 with two bytes in it.\<close>

definition mem0 :: heap where
  "mem0 = \<lparr>blocks = [0 \<mapsto> [Some 7, Some 8], 1 \<mapsto> [Some 1, Some 2, None, None]], next_id = 2, null_frees = 0\<rparr>"

definition buf0 :: lbuf where
  "buf0 = \<lparr>data_block = Some 1, capacity = 4, lb_size = 2, max_size = 100\<rparr>"

lemma buf0_ok: "lb_ok buf0 mem0"
  by (auto simp: lb_ok_def buf0_def mem0_def heap_ok_def block_of_def size_max_def)

lemma data0: "outside (Some (0, 0)) buf0" "mem_read (Some (0, 0)) 2 mem0 = Some [Some 7, Some 8]"
  "mem_read (Some (0, 0)) 1 mem0 = Some [Some 7]"
  by (simp_all add: outside_def buf0_def mem_read_def mem0_def)

lemma content0: "content buf0 mem0 = [Some 1, Some 2]"
  by (simp add: content_def block_of_def buf0_def mem0_def)

section \<open>Properties of the linear buffer\<close>

text \<open>
  C8. \<open>append\<close> puts the caller's bytes behind the buffer's, growing the block when it has to,
  or throws \<^verbatim>\<open>length_error\<close> exactly when the limit does not allow it; it touches no
  block but its own and releases the one it gives up.
\<close>

theorem append_appends:
  assumes "lb_ok b h" and "outside data b" and "mem_read data n h = Some xs"
  shows "if lb_size b \<le> max_size b \<and> n \<le> max_size b - lb_size b
    then \<exists>b' h'. lb_append data n b h = Some (Inr (b', h')) \<and> lb_ok b' h' \<and>
           content b' h' = content b h @ xs \<and> owns_step b h b' h'
    else lb_append data n b h = Some (Inl length_error)"
  using lb_append_ok [OF assms] by (auto simp: lb_step_def lb_append_def)

theorem append_appends_witness:
  "\<exists>b' h'. lb_append (Some (0, 0)) 2 buf0 mem0 = Some (Inr (b', h')) \<and> lb_ok b' h' \<and>
     content b' h' = [Some 1, Some 2, Some 7, Some 8] \<and> owns_step buf0 mem0 b' h'"
proof -
  have c: "lb_size buf0 \<le> max_size buf0 \<and> 2 \<le> max_size buf0 - lb_size buf0" by (simp add: buf0_def)
  show ?thesis using append_appends [OF buf0_ok data0(1,2)] unfolding if_P [OF c] content0 by simp
qed

text \<open>
  Appending bytes of the buffer to itself is undefined behaviour when the buffer grows: the
  source pointer refers to the block that has just been released.
\<close>

theorem append_own_bytes_when_growing:
  assumes "lb_ok b h" and "data_block b = Some i" and "0 < n" and "k + n \<le> lb_size b"
    and "lb_size b + n \<le> max_size b" and "capacity b < lb_size b + n"
  shows "lb_append (Some (i, k)) n b h = None"
proof -
  let ?cap = "calculate_capacity b (lb_size b + n)"
  note c = calculate_capacity_bounds [OF assms(5)]
  have cap: "?cap \<le> size_max" "lb_size b \<le> ?cap" using c assms(1) by (auto simp: lb_ok_def)
  obtain h' where h': "reallocate ?cap (\<lambda>p. memcpy p (block_ptr (data_block b) 0) (lb_size b)) b h =
      Some (b\<lparr>data_block := Some (next_id h), capacity := ?cap\<rparr>, h')"
    "lb_step b h (b\<lparr>data_block := Some (next_id h), capacity := ?cap\<rparr>) h' (content b h)"
    using reallocate_keep [OF assms(1) cap] by blast
  have "i \<noteq> next_id h" using lb_ok_block [OF assms(1,2)] assms(1) fresh_neq by (auto simp: lb_ok_def)
  then have "blocks h' i = None" using h'(2) assms(2) by (auto simp: lb_step_def owns_step_def)
  then have "mem_read (Some (i, k)) n h' = None" using assms(3) by (simp add: mem_read_def)
  then show ?thesis using h'(1) assms(3,5,6) by (simp add: lb_append_def memcpy_def memmove_def)
qed

theorem append_own_bytes_when_growing_witness:
  "lb_append (Some (1, 0)) 1
     \<lparr>data_block = Some 1, capacity = 2, lb_size = 2, max_size = 100\<rparr>
     \<lparr>blocks = [1 \<mapsto> [Some 1, Some 2]], next_id = 2, null_frees = 0\<rparr> = None"
  by (rule append_own_bytes_when_growing)
    (auto simp: lb_ok_def heap_ok_def block_of_def size_max_def)

text \<open>
  \<open>erase(first, last)\<close> removes exactly the bytes of the range and keeps the capacity;
  \<open>erase(pos)\<close> removes one.
\<close>

theorem erase_removes_range:
  assumes "lb_ok b h" and "i \<le> j" and "j \<le> lb_size b"
  shows "(\<exists>b' h'. lb_erase_range i j b h = Some (b', h') \<and> lb_ok b' h' \<and> capacity b' = capacity b \<and>
      content b' h' = take i (content b h) @ drop j (content b h) \<and> owns_step b h b' h') \<and>
    (j = Suc i \<longrightarrow> lb_erase i b h = lb_erase_range i j b h)"
proof -
  have "lb_size b \<le> size_max" using assms(1) by (auto simp: lb_ok_def)
  then show ?thesis using lb_erase_range_ok [OF assms] assms(2,3)
    by (auto simp: lb_step_def lb_erase_def lb_erase_range_def Let_def)
qed

theorem erase_removes_range_witness:
  "\<exists>b' h'. lb_erase_range 0 1 buf0 mem0 = Some (b', h') \<and> lb_ok b' h' \<and> content b' h' = [Some 2]"
  using erase_removes_range [OF buf0_ok, of 0 1] by (auto simp: content0) (auto simp: buf0_def)

text \<open>
  \<open>resize\<close> keeps the bytes up to the smaller of the two sizes, and throws exactly when
  the new size is above the limit.
\<close>

theorem resize_keeps_prefix:
  assumes "lb_ok b h"
  shows "if n \<le> max_size b
    then \<exists>b' h'. lb_resize n b h = Some (Inr (b', h')) \<and> lb_ok b' h' \<and> lb_size b' = n \<and>
           take (lb_size b) (content b' h') = take n (content b h) \<and> owns_step b h b' h'
    else lb_resize n b h = Some (Inl length_error)"
proof (cases "n \<le> max_size b")
  case True
  show ?thesis using lb_resize_ok [OF assms True] True by (auto simp: lb_step_def)
qed (simp add: lb_resize_def)

theorem resize_keeps_prefix_witness:
  "\<exists>b' h'. lb_resize 9 buf0 mem0 = Some (Inr (b', h')) \<and> lb_ok b' h' \<and> lb_size b' = 9 \<and>
     take 2 (content b' h') = [Some 1, Some 2]"
proof -
  have c: "9 \<le> max_size buf0" and sz: "lb_size buf0 = 2" by (simp_all add: buf0_def)
  show ?thesis using resize_keeps_prefix [OF buf0_ok, of 9] unfolding if_P [OF c] content0 sz by auto
qed

text \<open>
  C10. \<open>insert\<close> with enough capacity does not move the bytes behind the insertion point back
  but forth: what follows the new bytes is read from cells behind the end of the buffer. With a
  reallocation the result is the one intended.
\<close>

definition insert_result :: "nat \<Rightarrow> cells \<Rightarrow> lbuf \<Rightarrow> heap \<Rightarrow> cells" where
  "insert_result k xs b h =
     (let n = length xs; m = lb_size b - k; cs = block_of b h in
      if lb_size b + n > capacity b then take k (content b h) @ xs @ drop k (content b h)
      else take k (content b h) @ xs @ take m (drop (k + n) (splice k (take m (drop (k + n) cs)) cs)))"

theorem insert_what_it_does:
  assumes "lb_ok b h" and "outside data b" and "mem_read data n h = Some xs" and "k \<le> lb_size b"
    and "lb_size b \<le> max_size b" and "n \<le> max_size b - lb_size b"
  shows "\<exists>b' h'. lb_insert k data n b h = Some (Inr (b', h')) \<and> lb_ok b' h' \<and>
    content b' h' = insert_result k xs b h \<and> owns_step b h b' h'"
proof -
  have n: "length xs = n" by (rule mem_read_length [OF assms(3)])
  show ?thesis
  proof (cases "lb_size b + n > capacity b")
    case True
    then show ?thesis using lb_insert_grow [OF assms True] n
      by (auto simp: lb_step_def insert_result_def Let_def)
  next
    case False
    then have "lb_size b + n \<le> capacity b" by simp
    from lb_insert_in_place [OF assms this] False n show ?thesis
      by (auto simp: lb_step_def insert_result_def Let_def)
  qed
qed

text \<open>Inserting 7 in front of the bytes 1 and 2, with room for it, leaves 7 and two stale cells.\<close>

theorem insert_what_it_does_witness:
  "\<exists>b' h'. lb_insert 0 (Some (0, 0)) 1 buf0 mem0 = Some (Inr (b', h')) \<and>
     content b' h' = [Some 7, None, None] \<and> content b' h' \<noteq> Some 7 # content buf0 mem0"
proof -
  have r: "insert_result 0 [Some 7] buf0 mem0 = [Some 7, None, None]"
    by (simp add: insert_result_def Let_def content_def block_of_def buf0_def mem0_def splice_def)
  show ?thesis
    using insert_what_it_does [OF buf0_ok data0(1,3), of 0] r
    by (simp add: content0) (auto simp: buf0_def)
qed

text \<open>
  Move assignment. Between equal allocators that do not propagate the call never returns. With
  propagation the members are taken over without a release of the old block: it stays allocated and
  neither object refers to it.
\<close>

theorem move_assign_hangs_or_leaks:
  assumes "lb_ok b h" and "data_block b = Some i" and "data_block other \<noteq> Some i"
  shows "lb_move_assign False True b other h = None \<and>
    (\<exists>b' other' h'. lb_move_assign True e b other h = Some (b', other', h') \<and>
       content b' h' = content other h \<and> blocks h' i \<noteq> None \<and>
       data_block b' \<noteq> Some i \<and> data_block other' \<noteq> Some i)"
  using lb_ok_block [OF assms(1,2)] assms(3)
  by (simp add: lb_move_assign_def move_assign_false_equal lb_move_assign_true_def content_def block_of_def)

theorem move_assign_hangs_or_leaks_witness:
  "lb_move_assign False True buf0 (lb_new 100) mem0 = None \<and>
    (\<exists>b' other' h'. lb_move_assign True True buf0 (lb_new 100) mem0 = Some (b', other', h') \<and>
       content b' h' = content (lb_new 100) mem0 \<and> blocks h' 1 \<noteq> None \<and>
       data_block b' \<noteq> Some 1 \<and> data_block other' \<noteq> Some 1)"
  by (rule move_assign_hangs_or_leaks [OF buf0_ok]) (simp_all add: buf0_def lb_new_def)

text \<open>
  A copy holds the same bytes in a block of its own, so neither object sees what the other one
  does; copy assignment gives the target the bytes of the source.
\<close>

theorem copy_is_independent:
  assumes "lb_ok b h"
  shows "\<exists>c h'. lb_copy b h = Some (c, h') \<and> lb_ok c h' \<and> lb_ok b h' \<and> content c h' = content b h \<and>
    content b h' = content b h \<and> data_block c \<noteq> data_block b"
  using lb_copy_ok [OF assms] by force

theorem copy_is_independent_witness:
  "\<exists>c h'. lb_copy buf0 mem0 = Some (c, h') \<and> lb_ok c h' \<and> content c h' = [Some 1, Some 2] \<and>
     data_block c \<noteq> Some 1"
  using copy_is_independent [OF buf0_ok] by (auto simp: content0) (auto simp: buf0_def)

section \<open>Properties of the adapter\<close>

text \<open>
  C9. The cycle of the first version of the interface: \<open>prepare\<close>, writing through the pointer it
  returns, \<open>commit\<close> and \<open>consume\<close> behave as a queue of bytes, as long as the limit allows it: what is
  written there follows the bytes that were in the queue, and these are unharmed. The \<open>prepare\<close> that
  reports an error code returns the same.
\<close>

theorem dynamic_buffer_is_queue:
  assumes "db_ok s" and "length (db_readable s) + length xs \<le> db_limit s"
  shows "\<exists>p s1 s2 s3 s4. db_prepare (length xs) s = Some (Inr (p, s1)) \<and>
    db_prepare_ec (length xs) s = Some (Inr (p, no_error, s1)) \<and> snd p = length xs \<and>
    db_write p xs s1 = Some s2 \<and> db_commit (length xs) s2 = Some (Inr s3) \<and>
    db_view s3 = Some (db_readable s @ xs) \<and>
    db_consume n s3 = Some s4 \<and> db_ok s4 \<and> db_view s4 = Some (drop n (db_readable s @ xs))"
proof -
  obtain s1 where s1: "db_prepare (length xs) s = Some (Inr (db_region s1, s1))" "db_ok s1" "db_ready s1"
    "db_readable s1 = db_readable s" "length (db_writable s1) = length xs"
    "snd (db_region s1) = length xs"
    "db_prepare_ec (length xs) s = Some (Inr (db_region s1, no_error, s1))"
    using db_prepare_ok [OF assms] by blast
  obtain s2 s3 where s2: "db_write (db_region s1) xs s1 = Some s2" "db_commit (length xs) s2 = Some (Inr s3)"
    "db_ok s3" "db_ready s3" "db_readable s3 = db_readable s @ xs"
    using lin.write_commit [OF s1(2,3), of xs] s1(4,5) by (auto simp: linear_ops_def)
  obtain s4 where s4: "db_consume n s3 = Some s4" "db_ok s4" "db_ready s4" "db_readable s4 = drop n (db_readable s3)"
    using db_consume_ok [OF s2(3), of n] s2(4) by auto
  show ?thesis
    using s1(1,6,7) s2(1,2) s4(1,2) db_view_ok [OF s2(3,4)] db_view_ok [OF s4(2,3)]
    unfolding s4(4) s2(5) by blast
qed

definition dyn0 :: dstate where
  "dyn0 = (db_new (lb_new 100) 50, lb_new 100, \<lparr>blocks = Map.empty, next_id = 0, null_frees = 0\<rparr>)"

lemma dyn0_ok: "db_ok dyn0" "db_readable dyn0 = []" "db_limit dyn0 = 50" "\<not> db_ready dyn0"
  by (auto simp: dyn0_def db_ok.simps db_readable.simps db_limit.simps db_ready.simps db_new_def lb_new_def
      lb_ok_def heap_ok_def block_of_def size_max_def content_def)

theorem dynamic_buffer_is_queue_witness:
  "\<exists>p s1 s2 s3 s4. db_prepare 2 dyn0 = Some (Inr (p, s1)) \<and> snd p = 2 \<and>
    db_write p [Some 5, Some 6] s1 = Some s2 \<and> db_commit 2 s2 = Some (Inr s3) \<and>
    db_view s3 = Some [Some 5, Some 6] \<and>
    db_consume 1 s3 = Some s4 \<and> db_ok s4 \<and> db_view s4 = Some [Some 6]"
  using dynamic_buffer_is_queue [OF dyn0_ok(1), of "[Some 5, Some 6]" 1]
  by (simp add: dyn0_ok numeral_2_eq_2) blast

text \<open>
  \<open>data(pos, n)\<close> stays within the buffer as long as \<open>pos + n\<close> does not wrap
  around; with a length that wraps it returns that length unclamped. \<open>data()\<close> before the first
  \<open>prepare\<close> returns the marker, the largest \<open>size_t\<close>, as the length.
\<close>

theorem data_at_clamps_unless_wrapping:
  assumes "lb_size b \<le> size_max" and "pos \<le> lb_size b" and "n \<le> size_max"
  shows "(pos + n \<le> size_max \<longrightarrow>
      db_data_at pos n (d, b, h) = (block_ptr (data_block b) pos, min n (lb_size b - pos))) \<and>
    (pos + n > size_max \<longrightarrow> db_data_at pos n (d, b, h) = (block_ptr (data_block b) pos, n)) \<and>
    snd (db_data (db_new b m, b, h)) = size_max"
proof -
  have "sz_add pos n = pos + n - 2 ^ 64" if "pos + n > size_max"
  proof -
    have "2 ^ 64 \<le> pos + n" "pos + n < 2 * 2 ^ 64" using that assms by (simp_all add: size_max_def)
    then show ?thesis unfolding sz_add_def by (simp add: mod_if)
  qed
  then have w: "pos + n > size_max \<Longrightarrow> sz_add pos n \<le> lb_size b"
    using assms by (simp add: size_max_def)
  show ?thesis using assms w by (auto simp: Let_def db_new_def min_def)
qed

theorem data_at_clamps_unless_wrapping_witness:
  "db_data_at 1 size_max (db_new buf0 50, buf0, mem0) = (Some (1, 1), size_max) \<and>
   db_data_at 1 5 (db_new buf0 50, buf0, mem0) = (Some (1, 1), 1)"
  using data_at_clamps_unless_wrapping [of buf0 1 size_max "db_new buf0 50" mem0]
    data_at_clamps_unless_wrapping [of buf0 1 5 "db_new buf0 50" mem0]
  by (auto simp: buf0_def size_max_def block_ptr_def simp del: db_data_at.simps)

end
