(* ===== verification/Programs.thy ===== *)
theory Programs
  imports Prelude
begin

text \<open>
  Programs that make one call after the other, and what it takes for a class to behave as its
  specification in all of them: the contract of a single call is the locale \<open>simulation\<close>.
\<close>

section \<open>Lists of calls\<close>

text \<open>A call gives the state after it and its result; \<open>None\<close> is undefined or does not return.\<close>

fun exec_all :: "('op \<Rightarrow> 's \<Rightarrow> ('s \<times> 'r) option) \<Rightarrow> 'op list \<Rightarrow> 's \<Rightarrow> ('s \<times> 'r list) option" where
  "exec_all exec [] s = Some (s, [])"
| "exec_all exec (op # ops) s =
     (case exec op s of
        None \<Rightarrow> None
      | Some (s, r) \<Rightarrow> map_option (\<lambda>(s, rs). (s, r # rs)) (exec_all exec ops s))"

text \<open>The specification may leave the result and the state after a call open.\<close>

inductive spec_all ::
    "('op \<Rightarrow> 'a \<Rightarrow> 'r \<Rightarrow> 'a \<Rightarrow> bool) \<Rightarrow> 'op list \<Rightarrow> 'a \<Rightarrow> 'r list \<Rightarrow> 'a \<Rightarrow> bool"
  for spec where
  spec_stop: "spec_all spec [] a [] a"
| spec_go: "spec op a r a' \<Longrightarrow> spec_all spec ops a' rs a'' \<Longrightarrow> spec_all spec (op # ops) a (r # rs) a''"

inductive_simps spec_all_Nil [simp]: "spec_all spec [] a rs a'"
inductive_simps spec_all_Cons: "spec_all spec (op # ops) a rs a'"

lemma spec_all_length: "spec_all spec ops a rs a' \<Longrightarrow> length rs = length ops"
  by (induction rule: spec_all.induct) simp_all

section \<open>The contract of a call\<close>

text \<open>
  What a caller has to see to may depend on the state: \<open>all_ok\<close> holds of a program if every call is
  allowed in whatever abstract state the specification can have reached before it.
\<close>

fun all_ok ::
    "('a \<Rightarrow> 'op \<Rightarrow> bool) \<Rightarrow> ('op \<Rightarrow> 'a \<Rightarrow> 'r \<Rightarrow> 'a \<Rightarrow> bool) \<Rightarrow> 'op list \<Rightarrow> 'a \<Rightarrow> bool" where
  "all_ok ok spec [] a = True"
| "all_ok ok spec (op # ops) a = (ok a op \<and> (\<forall>r a'. spec op a r a' \<longrightarrow> all_ok ok spec ops a'))"

lemma all_ok_static: "\<forall>op \<in> set ops. P op \<Longrightarrow> all_ok (\<lambda>_. P) spec ops a"
  by (induction ops arbitrary: a) simp_all

text \<open>
  Every call that is \<open>ok\<close> is defined in a state that represents an abstract one, and what it does is
  what the specification allows. \<open>c\<close> is what the calls depend on besides the state.
\<close>

locale simulation =
  fixes exec :: "'c \<Rightarrow> 'op \<Rightarrow> 's \<Rightarrow> ('s \<times> 'r) option"
    and spec :: "'c \<Rightarrow> 'op \<Rightarrow> 'a \<Rightarrow> 'r \<Rightarrow> 'a \<Rightarrow> bool"
    and rel :: "'c \<Rightarrow> 'a \<Rightarrow> 's \<Rightarrow> bool"
    and ok :: "'c \<Rightarrow> 'a \<Rightarrow> 'op \<Rightarrow> bool"
  assumes step: "rel c a s \<Longrightarrow> ok c a op \<Longrightarrow>
    \<exists>s' r a'. exec c op s = Some (s', r) \<and> spec c op a r a' \<and> rel c a' s'"
begin

lemma run:
  assumes "rel c a s" and "all_ok (ok c) (spec c) ops a"
  shows "\<exists>s' rs a'. exec_all (exec c) ops s = Some (s', rs) \<and> spec_all (spec c) ops a rs a' \<and> rel c a' s'"
  using assms
proof (induction ops arbitrary: a s)
  case Nil
  then show ?case by auto
next
  case (Cons op ops)
  from step [OF Cons.prems(1), of op] Cons.prems(2) obtain s1 r a1 where
    1: "exec c op s = Some (s1, r)" "spec c op a r a1" "rel c a1 s1" by auto
  then have "all_ok (ok c) (spec c) ops a1" using Cons.prems(2) by auto
  from Cons.IH [OF 1(3) this] obtain s' rs a' where
    2: "exec_all (exec c) ops s1 = Some (s', rs)" "spec_all (spec c) ops a1 rs a'" "rel c a' s'" by auto
  show ?case using spec_go [of "spec c", OF 1(2) 2(2)] 1(1) 2(1,3) by auto
qed

end

end
