(* ===== verification/BufferPrograms.thy ===== *)
theory BufferPrograms
  imports BufferCorrect Programs
begin

text \<open>
  Programs over any number of \<^verbatim>\<open>basic_linear_buffer\<close> objects in one memory: no object sees what
  is done with another one, every object owns its block alone, and no block is lost but by the move
  assignment of an allocator that propagates. \<open>propagate\<close> is
  \<^verbatim>\<open>propagate_on_container_move_assignment\<close> of the allocator, true of
  \<^verbatim>\<open>std::allocator\<close>. An allocator is known by a number, two compare equal if they have the
  same one, and 0 is the one that the default constructor makes.
\<close>

section \<open>Calls\<close>

text \<open>
  The bytes that \<open>append\<close> and \<open>insert\<close> are given: \<open>n\<close> bytes of a block of the rest of the program, or of
  another buffer, from an offset.
\<close>

datatype source =
    Foreign nat nat nat
  | Of_buffer nat nat nat

text \<open>
  The constructors are given the object, the number of the allocator and the allocator's
  \<^verbatim>\<open>max_size\<close>.
\<close>

datatype buf_op =
    Buf_new nat nat nat
  | Buf_new_sized nat nat nat nat nat
  | Buf_copy nat nat
  | Buf_move nat nat
  | Buf_destroy nat
  | Buf_append nat source
  | Buf_insert nat nat source
  | Buf_erase nat nat
  | Buf_erase_range nat nat nat
  | Buf_clear nat
  | Buf_reserve nat nat
  | Buf_resize nat nat
  | Buf_assign nat nat
  | Buf_move_assign nat nat

text \<open>
  The objects and their allocators, which of them exist, and the memory. \<open>lost\<close> is not in the program:
  it records the blocks that a move assignment has dropped.
\<close>

record buffers =
  buf_at :: "nat \<Rightarrow> lbuf"
  alloc_of :: "nat \<Rightarrow> nat"
  made :: "nat set"
  lost :: "nat set"
  memory :: heap

definition no_buffers :: "heap \<Rightarrow> buffers" where
  "no_buffers h = \<lparr>buf_at = \<lambda>_. lb_new 0, alloc_of = \<lambda>_. 0, made = {}, lost = {}, memory = h\<rparr>"

definition set_buf :: "nat \<Rightarrow> lbuf \<Rightarrow> heap \<Rightarrow> buffers \<Rightarrow> buffers" where
  "set_buf i b h s = s\<lparr>buf_at := (buf_at s)(i := b), memory := h\<rparr>"

definition make_buf :: "nat \<Rightarrow> nat \<Rightarrow> lbuf \<Rightarrow> heap \<Rightarrow> buffers \<Rightarrow> buffers" where
  "make_buf i a b h s =
     set_buf i b h (s\<lparr>made := insert i (made s), alloc_of := (alloc_of s)(i := a)\<rparr>)"

text \<open>
  The allocator is assigned along with the members; the block that the target had is nobody's
  afterwards.
\<close>

definition take_over :: "nat \<Rightarrow> nat \<Rightarrow> buffers \<Rightarrow> buffers" where
  "take_over i j s =
     s\<lparr>alloc_of := (alloc_of s)(i := alloc_of s j),
        lost := lost s \<union> set_option (data_block (buf_at s i))\<rparr>"

text \<open>A call that can throw changes nothing when it does.\<close>

definition after_call :: "nat \<Rightarrow> buffers \<Rightarrow> lb_result \<Rightarrow> (buffers \<times> (cxx_exception + unit)) option" where
  "after_call i s r =
     (case r of
        None \<Rightarrow> None
      | Some (Inl e) \<Rightarrow> Some (s, Inl e)
      | Some (Inr (b, h)) \<Rightarrow> Some (set_buf i b h s, Inr ()))"

fun source_ptr :: "source \<Rightarrow> buffers \<Rightarrow> ptr" where
  "source_ptr (Foreign e off n) s = Some (e, off)"
| "source_ptr (Of_buffer j off n) s = block_ptr (data_block (buf_at s j)) off"

fun source_size :: "source \<Rightarrow> nat" where
  "source_size (Foreign e off n) = n"
| "source_size (Of_buffer j off n) = n"

definition done_call :: "buffers \<Rightarrow> (buffers \<times> (cxx_exception + unit)) option" where
  "done_call s = Some (s, Inr ())"

fun buf_call :: "bool \<Rightarrow> buf_op \<Rightarrow> buffers \<Rightarrow> (buffers \<times> (cxx_exception + unit)) option" where
  "buf_call propagate (Buf_new i a alloc_max) s =
     done_call (make_buf i a (lb_new alloc_max) (memory s) s)"
| "buf_call propagate (Buf_new_sized i a alloc_max n limit) s =
     (case lb_new_sized alloc_max n limit (memory s) of (b, h) \<Rightarrow> done_call (make_buf i a b h s))"
| "buf_call propagate (Buf_copy i j) s =
     (case lb_copy (buf_at s j) (memory s) of
        None \<Rightarrow> None
      | Some (b, h) \<Rightarrow> done_call (make_buf i 0 b h s))"
| "buf_call propagate (Buf_move i j) s =
     (case lb_move (buf_at s j) of
        (b, b2) \<Rightarrow> done_call (set_buf j b2 (memory s) (make_buf i (alloc_of s j) b (memory s) s)))"
| "buf_call propagate (Buf_destroy i) s =
     (case lb_destroy (buf_at s i) (memory s) of
        None \<Rightarrow> None
      | Some h \<Rightarrow> done_call (s\<lparr>made := made s - {i}, memory := h\<rparr>))"
| "buf_call propagate (Buf_append i src) s =
     after_call i s (lb_append (source_ptr src s) (source_size src) (buf_at s i) (memory s))"
| "buf_call propagate (Buf_insert i k src) s =
     after_call i s (lb_insert k (source_ptr src s) (source_size src) (buf_at s i) (memory s))"
| "buf_call propagate (Buf_erase i k) s = after_call i s (map_option Inr (lb_erase k (buf_at s i) (memory s)))"
| "buf_call propagate (Buf_erase_range i k l) s =
     after_call i s (map_option Inr (lb_erase_range k l (buf_at s i) (memory s)))"
| "buf_call propagate (Buf_clear i) s = done_call (set_buf i (lb_clear (buf_at s i)) (memory s) s)"
| "buf_call propagate (Buf_reserve i n) s = after_call i s (lb_reserve n (buf_at s i) (memory s))"
| "buf_call propagate (Buf_resize i n) s = after_call i s (lb_resize n (buf_at s i) (memory s))"
| "buf_call propagate (Buf_assign i j) s =
     after_call i s (lb_copy_assign (buf_at s i) (buf_at s j) (memory s))"
| "buf_call propagate (Buf_move_assign i j) s =
     (case lb_move_assign propagate (alloc_of s i = alloc_of s j) (buf_at s i) (buf_at s j) (memory s) of
        None \<Rightarrow> None
      | Some (b, b2, h) \<Rightarrow>
          done_call (set_buf j b2 h (set_buf i b h (if propagate then take_over i j s else s))))"

section \<open>What the caller has to see to\<close>

text \<open>
  A program is permitted if the objects it uses exist and those it makes do not, positions are inside,
  sizes are values of \<^verbatim>\<open>size_t\<close>, the bytes it passes are there and not those of the buffer they
  go into, a buffer that is not empty is not assigned to itself (the copy would be a
  \<^verbatim>\<open>memcpy\<close> of a range onto itself, \<open>self_assign_overlaps\<close>), and no move assignment is between
  equal allocators that do not propagate (the call would not return, \<open>move_assign_hangs_or_leaks\<close>).
  All this is decided by the shapes of the buffers, and \<open>after\<close> is what a call does to them.
\<close>

record shape =
  sh_size :: nat
  sh_limit :: nat
  sh_alloc :: nat

type_synonym shapes = "nat \<Rightarrow> shape option"

fun source_ok :: "(nat \<Rightarrow> cells option) \<Rightarrow> shapes \<Rightarrow> nat \<Rightarrow> source \<Rightarrow> bool" where
  "source_ok F S i (Foreign e off n) = (case F e of None \<Rightarrow> False | Some cs \<Rightarrow> off + n \<le> length cs)"
| "source_ok F S i (Of_buffer j off n) =
     (j \<noteq> i \<and> (case S j of None \<Rightarrow> False | Some v \<Rightarrow> off + n \<le> sh_size v))"

definition exists_with :: "shapes \<Rightarrow> nat \<Rightarrow> (shape \<Rightarrow> bool) \<Rightarrow> bool" where
  "exists_with S i Q = (case S i of None \<Rightarrow> False | Some v \<Rightarrow> Q v)"

fun call_ok :: "bool \<Rightarrow> (nat \<Rightarrow> cells option) \<Rightarrow> shapes \<Rightarrow> buf_op \<Rightarrow> bool" where
  "call_ok propagate F S (Buf_new i a alloc_max) = (S i = None \<and> alloc_max \<le> size_max)"
| "call_ok propagate F S (Buf_new_sized i a alloc_max n limit) =
     (S i = None \<and> alloc_max \<le> size_max \<and> n \<le> size_max)"
| "call_ok propagate F S (Buf_copy i j) = (S i = None \<and> S j \<noteq> None)"
| "call_ok propagate F S (Buf_move i j) = (S i = None \<and> S j \<noteq> None)"
| "call_ok propagate F S (Buf_destroy i) = (S i \<noteq> None)"
| "call_ok propagate F S (Buf_append i src) = (S i \<noteq> None \<and> source_ok F S i src)"
| "call_ok propagate F S (Buf_insert i k src) =
     (exists_with S i (\<lambda>v. k \<le> sh_size v) \<and> source_ok F S i src)"
| "call_ok propagate F S (Buf_erase i k) = exists_with S i (\<lambda>v. k < sh_size v)"
| "call_ok propagate F S (Buf_erase_range i k l) = exists_with S i (\<lambda>v. k \<le> l \<and> l \<le> sh_size v)"
| "call_ok propagate F S (Buf_clear i) = (S i \<noteq> None)"
| "call_ok propagate F S (Buf_reserve i n) = (S i \<noteq> None)"
| "call_ok propagate F S (Buf_resize i n) = (S i \<noteq> None)"
| "call_ok propagate F S (Buf_assign i j) =
     (S i \<noteq> None \<and> exists_with S j (\<lambda>v. i \<noteq> j \<or> sh_size v = 0))"
| "call_ok propagate F S (Buf_move_assign i j) =
     exists_with S i (\<lambda>v. exists_with S j (\<lambda>u. propagate \<or> sh_alloc v \<noteq> sh_alloc u))"

definition reshape :: "nat \<Rightarrow> (shape \<Rightarrow> shape) \<Rightarrow> shapes \<Rightarrow> shapes" where
  "reshape i f S = S(i := map_option f (S i))"

definition sized :: "nat \<Rightarrow> shape \<Rightarrow> shape" where
  "sized n v = (if n \<le> sh_limit v then v\<lparr>sh_size := n\<rparr> else v)"

fun after :: "bool \<Rightarrow> buf_op \<Rightarrow> shapes \<Rightarrow> shapes" where
  "after propagate (Buf_new i a alloc_max) S =
     S(i \<mapsto> \<lparr>sh_size = 0, sh_limit = alloc_max, sh_alloc = a\<rparr>)"
| "after propagate (Buf_new_sized i a alloc_max n limit) S =
     S(i \<mapsto> \<lparr>sh_size = n, sh_limit = min alloc_max limit, sh_alloc = a\<rparr>)"
| "after propagate (Buf_copy i j) S = S(i := map_option (sh_alloc_update (\<lambda>_. 0)) (S j))"
| "after propagate (Buf_move i j) S = reshape j (sh_size_update (\<lambda>_. 0)) (S(i := S j))"
| "after propagate (Buf_destroy i) S = S(i := None)"
| "after propagate (Buf_append i src) S = reshape i (\<lambda>v. sized (sh_size v + source_size src) v) S"
| "after propagate (Buf_insert i k src) S = reshape i (\<lambda>v. sized (sh_size v + source_size src) v) S"
| "after propagate (Buf_erase i k) S = reshape i (sh_size_update (\<lambda>n. n - 1)) S"
| "after propagate (Buf_erase_range i k l) S = reshape i (sh_size_update (\<lambda>n. n - (l - k))) S"
| "after propagate (Buf_clear i) S = reshape i (sh_size_update (\<lambda>_. 0)) S"
| "after propagate (Buf_reserve i n) S = S"
| "after propagate (Buf_resize i n) S = reshape i (sized n) S"
| "after propagate (Buf_assign i j) S =
     (case S j of None \<Rightarrow> S | Some v \<Rightarrow> reshape i (sized (sh_size v)) S)"
| "after propagate (Buf_move_assign i j) S =
     (case S j of
        None \<Rightarrow> S
      | Some v \<Rightarrow>
          if propagate then S(i \<mapsto> v, j \<mapsto> v\<lparr>sh_size := 0\<rparr>)
          else reshape i (sh_size_update (\<lambda>_. sh_size v)) S)"

fun permitted :: "bool \<Rightarrow> (nat \<Rightarrow> cells option) \<Rightarrow> shapes \<Rightarrow> buf_op list \<Rightarrow> bool" where
  "permitted propagate F S [] = True"
| "permitted propagate F S (op # ops) =
     (call_ok propagate F S op \<and> permitted propagate F (after propagate op S) ops)"

section \<open>Values\<close>

text \<open>
  The value of a buffer: its bytes, its limit and its allocator. A call changes the value of one
  object, or of the one it moves from too.
\<close>

type_synonym buf_val = "cells \<times> nat \<times> nat"

type_synonym values_of = "nat \<Rightarrow> buf_val option"

fun shape_of :: "buf_val \<Rightarrow> shape" where
  "shape_of (xs, lim, a) = \<lparr>sh_size = length xs, sh_limit = lim, sh_alloc = a\<rparr>"

definition shapes_of :: "values_of \<Rightarrow> shapes" where
  "shapes_of A i = map_option shape_of (A i)"

fun source_cells :: "(nat \<Rightarrow> cells option) \<Rightarrow> values_of \<Rightarrow> source \<Rightarrow> cells" where
  "source_cells F A (Foreign e off n) = take n (drop off (the (F e)))"
| "source_cells F A (Of_buffer j off n) = take n (drop off (fst (the (A j))))"

text \<open>
  \<open>room\<close>: a call that needs the length \<open>n\<close> throws \<^verbatim>\<open>length_error\<close> and does nothing when the limit
  is lower.
\<close>

definition room ::
    "nat \<Rightarrow> nat \<Rightarrow> nat \<Rightarrow> cells \<Rightarrow> nat \<Rightarrow> values_of \<Rightarrow> cxx_exception + unit \<Rightarrow> values_of \<Rightarrow> bool" where
  "room n lim i xs a A r A' \<longleftrightarrow>
     (if n \<le> lim then r = Inr () \<and> A' = A(i \<mapsto> (xs, lim, a)) else r = Inl length_error \<and> A' = A)"

text \<open>
  What follows inserted bytes is open, see \<open>insert_what_it_does\<close>, and so are the bytes that \<open>resize\<close>
  and the constructor with a size add. A copy has the default allocator, and copy assignment keeps the
  target's. Move assignment gives the target the whole value and leaves the source without bytes if
  the allocator propagates; if not, the target has the bytes only, with its own limit and allocator,
  and the source keeps them.
\<close>

inductive buf_effect ::
    "bool \<Rightarrow> (nat \<Rightarrow> cells option) \<Rightarrow> buf_op \<Rightarrow> values_of \<Rightarrow> cxx_exception + unit \<Rightarrow> values_of \<Rightarrow> bool"
  for propagate F where
  e_new: "buf_effect propagate F (Buf_new i a alloc_max) A (Inr ()) (A(i \<mapsto> ([], alloc_max, a)))"
| e_new_sized: "length xs = n \<Longrightarrow>
    buf_effect propagate F (Buf_new_sized i a alloc_max n limit) A (Inr ())
      (A(i \<mapsto> (xs, min alloc_max limit, a)))"
| e_copy: "A j = Some (xs, lim, a) \<Longrightarrow>
    buf_effect propagate F (Buf_copy i j) A (Inr ()) (A(i \<mapsto> (xs, lim, 0)))"
| e_move: "A j = Some (xs, lim, a) \<Longrightarrow>
    buf_effect propagate F (Buf_move i j) A (Inr ()) (A(i \<mapsto> (xs, lim, a), j \<mapsto> ([], lim, a)))"
| e_destroy: "buf_effect propagate F (Buf_destroy i) A (Inr ()) (A(i := None))"
| e_append: "A i = Some (xs, lim, a) \<Longrightarrow>
    room (length xs + source_size src) lim i (xs @ source_cells F A src) a A r A' \<Longrightarrow>
    buf_effect propagate F (Buf_append i src) A r A'"
| e_insert: "A i = Some (xs, lim, a) \<Longrightarrow> length zs = length xs - k \<Longrightarrow>
    room (length xs + source_size src) lim i (take k xs @ source_cells F A src @ zs) a A r A' \<Longrightarrow>
    buf_effect propagate F (Buf_insert i k src) A r A'"
| e_erase: "A i = Some (xs, lim, a) \<Longrightarrow>
    buf_effect propagate F (Buf_erase i k) A (Inr ()) (A(i \<mapsto> (take k xs @ drop (Suc k) xs, lim, a)))"
| e_erase_range: "A i = Some (xs, lim, a) \<Longrightarrow>
    buf_effect propagate F (Buf_erase_range i k l) A (Inr ()) (A(i \<mapsto> (take k xs @ drop l xs, lim, a)))"
| e_clear: "A i = Some (xs, lim, a) \<Longrightarrow>
    buf_effect propagate F (Buf_clear i) A (Inr ()) (A(i \<mapsto> ([], lim, a)))"
| e_reserve: "A i = Some (xs, lim, a) \<Longrightarrow> room n lim i xs a A r A' \<Longrightarrow>
    buf_effect propagate F (Buf_reserve i n) A r A'"
| e_resize: "A i = Some (xs, lim, a) \<Longrightarrow> length ys = n \<Longrightarrow> take (length xs) ys = take n xs \<Longrightarrow>
    room n lim i ys a A r A' \<Longrightarrow> buf_effect propagate F (Buf_resize i n) A r A'"
| e_assign: "A i = Some (xs, lim, a) \<Longrightarrow> A j = Some (ys, lim2, a2) \<Longrightarrow>
    room (length ys) lim i ys a A r A' \<Longrightarrow> buf_effect propagate F (Buf_assign i j) A r A'"
| e_move_assign_true: "propagate \<Longrightarrow> A j = Some (ys, lim, a) \<Longrightarrow>
    buf_effect propagate F (Buf_move_assign i j) A (Inr ()) (A(i \<mapsto> (ys, lim, a), j \<mapsto> ([], lim, a)))"
| e_move_assign_false: "\<not> propagate \<Longrightarrow> A i = Some (xs, lim, a) \<Longrightarrow> A j = Some (ys, lim2, a2) \<Longrightarrow>
    buf_effect propagate F (Buf_move_assign i j) A (Inr ()) (A(i \<mapsto> (ys, lim, a)))"

lemma shapes_of_upd [simp]:
  "shapes_of (A(i := v)) = (shapes_of A)(i := map_option shape_of v)"
  by (auto simp: shapes_of_def fun_eq_iff)

lemma shape_at: "A i = Some v \<Longrightarrow> shapes_of A i = Some (shape_of v)"
  by (simp add: shapes_of_def)

lemma fun_upd_Some_same: "f i = Some v \<Longrightarrow> f(i \<mapsto> v) = f"
  by (simp add: fun_upd_idem)

lemma room_shape:
  assumes "room n lim i xs a A r A'" and "A i = Some (ys, lim, a)" and "length xs = n"
  shows "shapes_of A' = reshape i (sized n) (shapes_of A)"
  using assms by (auto simp: room_def reshape_def sized_def shape_at fun_upd_Some_same split: if_splits)

lemma source_length:
  "source_ok F (shapes_of A) i src \<Longrightarrow> length (source_cells F A src) = source_size src"
  by (cases src) (auto simp: shapes_of_def split: option.splits)

lemma effect_shape:
  assumes "buf_effect propagate F op A r A'" and "call_ok propagate F (shapes_of A) op"
  shows "shapes_of A' = after propagate op (shapes_of A)"
  using assms
proof cases
  case (e_append i xs lim a src)
  have n: "length (xs @ source_cells F A src) = length xs + source_size src"
    using source_length [of F A i src] assms(2) e_append(1) by simp
  show ?thesis
    using room_shape [OF e_append(3,2) n] e_append(1,2) by (simp add: reshape_def shape_at)
next
  case (e_insert i xs lim a zs k src)
  have n: "length (take k xs @ source_cells F A src @ zs) = length xs + source_size src"
    using source_length [of F A i src] assms(2) e_insert(1-3)
    by (auto simp: exists_with_def shape_at)
  show ?thesis
    using room_shape [OF e_insert(4,2) n] e_insert(1,2) by (simp add: reshape_def shape_at)
next
  case (e_erase i xs lim a k)
  then show ?thesis using assms(2) by (auto simp: reshape_def shape_at exists_with_def)
next
  case (e_erase_range i xs lim a k l)
  then show ?thesis using assms(2) by (auto simp: reshape_def shape_at exists_with_def add.commute)
next
  case (e_reserve i xs lim a n)
  then show ?thesis by (auto simp: room_def fun_upd_Some_same split: if_splits)
next
  case (e_resize i xs lim a ys n)
  show ?thesis using room_shape [OF e_resize(5,2) e_resize(3)] e_resize(1) by simp
next
  case (e_assign i xs lim a j ys lim2 a2)
  show ?thesis
    using room_shape [OF e_assign(4,2)] e_assign(1,3) by (simp add: shape_at)
qed (simp_all add: reshape_def shape_at)

section \<open>Ownership\<close>

text \<open>
  Every object is well formed, has its block for itself, and every block belongs to an object, is a
  foreign one, which is as it was, or is lost: nobody has it, and it is not released.
\<close>

definition buffers_ok :: "(nat \<Rightarrow> cells option) \<Rightarrow> buffers \<Rightarrow> bool" where
  "buffers_ok F s \<longleftrightarrow>
     heap_ok (memory s)
     \<and> (\<forall>i \<in> made s. lb_ok (buf_at s i) (memory s))
     \<and> (\<forall>i \<in> made s. \<forall>j \<in> made s. \<forall>b.
          data_block (buf_at s i) = Some b \<longrightarrow> data_block (buf_at s j) = Some b \<longrightarrow> i = j)
     \<and> (\<forall>e cs. F e = Some cs \<longrightarrow>
          blocks (memory s) e = Some cs \<and> (\<forall>i \<in> made s. data_block (buf_at s i) \<noteq> Some e))
     \<and> (\<forall>b. blocks (memory s) b \<noteq> None \<longrightarrow>
          F b \<noteq> None \<or> b \<in> lost s \<or> (\<exists>i \<in> made s. data_block (buf_at s i) = Some b))
     \<and> (\<forall>b \<in> lost s. blocks (memory s) b \<noteq> None \<and> F b = None
          \<and> (\<forall>i \<in> made s. data_block (buf_at s i) \<noteq> Some b))"

definition buf_value :: "buffers \<Rightarrow> values_of" where
  "buf_value s i =
     (if i \<in> made s then Some (content (buf_at s i) (memory s), max_size (buf_at s i), alloc_of s i)
      else None)"

definition buf_rel :: "(nat \<Rightarrow> cells option) \<Rightarrow> values_of \<Rightarrow> buffers \<Rightarrow> bool" where
  "buf_rel F A s \<longleftrightarrow> buffers_ok F s \<and> A = buf_value s"

lemma set_buf_simps [simp]:
  "buf_at (set_buf i b h s) = (buf_at s)(i := b)" "memory (set_buf i b h s) = h"
  "made (set_buf i b h s) = made s" "lost (set_buf i b h s) = lost s"
  "alloc_of (set_buf i b h s) = alloc_of s"
  "buf_at (make_buf i a b h s) = (buf_at s)(i := b)" "memory (make_buf i a b h s) = h"
  "made (make_buf i a b h s) = insert i (made s)" "lost (make_buf i a b h s) = lost s"
  "alloc_of (make_buf i a b h s) = (alloc_of s)(i := a)"
  by (simp_all add: set_buf_def make_buf_def)

lemma buffers_okD:
  assumes "buffers_ok F s"
  shows "heap_ok (memory s)"
    and "i \<in> made s \<Longrightarrow> lb_ok (buf_at s i) (memory s)"
    and "i \<in> made s \<Longrightarrow> j \<in> made s \<Longrightarrow> data_block (buf_at s i) = Some b \<Longrightarrow>
      data_block (buf_at s j) = Some b \<Longrightarrow> i = j"
    and "F e = Some cs \<Longrightarrow> blocks (memory s) e = Some cs"
    and "F e \<noteq> None \<Longrightarrow> i \<in> made s \<Longrightarrow> data_block (buf_at s i) \<noteq> Some e"
    and "blocks (memory s) b \<noteq> None \<Longrightarrow>
      F b \<noteq> None \<or> b \<in> lost s \<or> (\<exists>i \<in> made s. data_block (buf_at s i) = Some b)"
    and "b \<in> lost s \<Longrightarrow> blocks (memory s) b \<noteq> None \<and> F b = None"
    and "b \<in> lost s \<Longrightarrow> i \<in> made s \<Longrightarrow> data_block (buf_at s i) \<noteq> Some b"
  using assms unfolding buffers_ok_def by blast+

lemma lb_ok_frame:
  assumes "lb_ok b h" and "heap_ok h'" and "\<And>i. data_block b = Some i \<Longrightarrow> blocks h' i = blocks h i"
  shows "lb_ok b h'" and "content b h' = content b h"
proof -
  have "block_of b h' = block_of b h" by (rule block_of_cong) (use assms(3) in auto)
  then show "lb_ok b h'" and "content b h' = content b h"
    using assms by (auto simp: lb_ok_def content_def)
qed

text \<open>A step of one object leaves the others alone.\<close>

lemma buffers_step:
  assumes ok: "buffers_ok F s" and i: "i \<in> made s" and b: "lb_ok b h" "owns_step (buf_at s i) (memory s) b h"
  shows "buffers_ok F (set_buf i b h s)"
    and "buf_value (set_buf i b h s) = (buf_value s)(i \<mapsto> (content b h, max_size b, alloc_of s i))"
proof -
  note d = buffers_okD [OF ok]
  have hok: "heap_ok h" using b(1) by (simp add: lb_ok_def)
  have same: "blocks h k = blocks (memory s) k"
    if "data_block (buf_at s i) \<noteq> Some k" "data_block b \<noteq> Some k" for k
    using b(2) that unfolding owns_step_def by metis
  have fresh: "data_block (buf_at s i) = Some k \<or> blocks (memory s) k = None" if "data_block b = Some k" for k
    using b(2) that unfolding owns_step_def by metis
  have freed: "data_block b = Some k \<or> blocks h k = None" if "data_block (buf_at s i) = Some k" for k
    using b(2) that unfolding owns_step_def by metis
  have block: "blocks (memory s) k \<noteq> None" if "j \<in> made s" "data_block (buf_at s j) = Some k" for j k
    using lb_ok_block [OF d(2) [OF that(1)] that(2)] by simp
  have other: "data_block (buf_at s i) \<noteq> Some k \<and> data_block b \<noteq> Some k"
    if "j \<in> made s" "j \<noteq> i" "data_block (buf_at s j) = Some k" for j k
    using d(3) [OF i that(1)] fresh [of k] block [OF that(1,3)] that(2,3) by blast
  have keep: "lb_ok (buf_at s j) h \<and> content (buf_at s j) h = content (buf_at s j) (memory s)"
    if "j \<in> made s" "j \<noteq> i" for j
    using lb_ok_frame [OF d(2) [OF that(1)] hok] same other [OF that] by blast
  have foreign: "data_block (buf_at s i) \<noteq> Some e \<and> data_block b \<noteq> Some e" if "F e = Some cs" for e cs
    using d(4) [OF that] d(5) [of e i] fresh [of e] that i by auto
  show "buffers_ok F (set_buf i b h s)"
    unfolding buffers_ok_def
  proof (intro conjI)
    show "heap_ok (memory (set_buf i b h s))" using hok by simp
    show "\<forall>j \<in> made (set_buf i b h s). lb_ok (buf_at (set_buf i b h s) j) (memory (set_buf i b h s))"
      using keep b(1) by simp
    show "\<forall>j \<in> made (set_buf i b h s). \<forall>l \<in> made (set_buf i b h s). \<forall>k.
          data_block (buf_at (set_buf i b h s) j) = Some k \<longrightarrow>
          data_block (buf_at (set_buf i b h s) l) = Some k \<longrightarrow> j = l"
      using other d(3) by (auto split: if_splits)
    show "\<forall>e cs. F e = Some cs \<longrightarrow> blocks (memory (set_buf i b h s)) e = Some cs \<and>
          (\<forall>j \<in> made (set_buf i b h s). data_block (buf_at (set_buf i b h s) j) \<noteq> Some e)"
      using foreign same d(4,5) by (auto split: if_splits)
    show "\<forall>k. blocks (memory (set_buf i b h s)) k \<noteq> None \<longrightarrow>
          F k \<noteq> None \<or> k \<in> lost (set_buf i b h s)
          \<or> (\<exists>j \<in> made (set_buf i b h s). data_block (buf_at (set_buf i b h s) j) = Some k)"
    proof (intro allI impI)
      fix k assume "blocks (memory (set_buf i b h s)) k \<noteq> None"
      then have k: "blocks h k \<noteq> None" by simp
      show "F k \<noteq> None \<or> k \<in> lost (set_buf i b h s)
          \<or> (\<exists>j \<in> made (set_buf i b h s). data_block (buf_at (set_buf i b h s) j) = Some k)"
      proof (cases "data_block b = Some k")
        case True
        then show ?thesis using i by auto
      next
        case False
        then have "data_block (buf_at s i) \<noteq> Some k" using freed [of k] k by blast
        then show ?thesis using d(6) [of k] same [OF _ False] k by auto
      qed
    qed
    have left: "data_block (buf_at s i) \<noteq> Some k \<and> data_block b \<noteq> Some k" if "k \<in> lost s" for k
      using d(8) [OF that i] d(7) [OF that] fresh [of k] by auto
    show "\<forall>k \<in> lost (set_buf i b h s). blocks (memory (set_buf i b h s)) k \<noteq> None \<and> F k = None
        \<and> (\<forall>j \<in> made (set_buf i b h s). data_block (buf_at (set_buf i b h s) j) \<noteq> Some k)"
      using left same d(7,8) by auto
  qed
  show "buf_value (set_buf i b h s) = (buf_value s)(i \<mapsto> (content b h, max_size b, alloc_of s i))"
    using keep i by (auto simp: buf_value_def fun_eq_iff)
qed

text \<open>An object without a block comes and goes.\<close>

lemma buffers_make_empty:
  assumes "buffers_ok F s" and "i \<notin> made s" and "m \<le> size_max"
  shows "buffers_ok F (make_buf i a (lb_new m) (memory s) s)"
    and "buf_value (make_buf i a (lb_new m) (memory s) s) = (buf_value s)(i \<mapsto> ([], m, a))"
proof -
  have ok: "lb_ok (lb_new m) (memory s)"
    using assms(1,3) by (simp add: lb_ok_def lb_new_def block_of_def buffers_ok_def)
  have "data_block (lb_new m) = None" by (simp add: lb_new_def)
  then show "buffers_ok F (make_buf i a (lb_new m) (memory s) s)"
    using assms(1,2) ok unfolding buffers_ok_def by (auto split: if_splits)
  show "buf_value (make_buf i a (lb_new m) (memory s) s) = (buf_value s)(i \<mapsto> ([], m, a))"
    using assms(2) by (auto simp: buf_value_def fun_eq_iff content_def lb_new_def)
qed

lemma buffers_drop_empty:
  assumes "buffers_ok F s" and "data_block (buf_at s i) = None"
  shows "buffers_ok F (s\<lparr>made := made s - {i}\<rparr>)"
    and "buf_value (s\<lparr>made := made s - {i}\<rparr>) = (buf_value s)(i := None)"
proof -
  note d = buffers_okD [OF assms(1)]
  have owner: "F k \<noteq> None \<or> k \<in> lost s \<or> (\<exists>l \<in> made s - {i}. data_block (buf_at s l) = Some k)"
    if "blocks (memory s) k \<noteq> None" for k
    using d(6) [OF that] assms(2) by (metis Diff_iff option.distinct(1) singletonD)
  show "buffers_ok F (s\<lparr>made := made s - {i}\<rparr>)"
    unfolding buffers_ok_def
  proof (intro conjI)
    show "\<forall>k. blocks (memory (s\<lparr>made := made s - {i}\<rparr>)) k \<noteq> None \<longrightarrow>
        F k \<noteq> None \<or> k \<in> lost (s\<lparr>made := made s - {i}\<rparr>)
        \<or> (\<exists>l \<in> made (s\<lparr>made := made s - {i}\<rparr>). data_block (buf_at (s\<lparr>made := made s - {i}\<rparr>) l) = Some k)"
      using owner by simp
    show "\<forall>k \<in> made (s\<lparr>made := made s - {i}\<rparr>). \<forall>l \<in> made (s\<lparr>made := made s - {i}\<rparr>). \<forall>b.
        data_block (buf_at (s\<lparr>made := made s - {i}\<rparr>) k) = Some b \<longrightarrow>
        data_block (buf_at (s\<lparr>made := made s - {i}\<rparr>) l) = Some b \<longrightarrow> k = l"
      using d(3) by simp
  qed (use d(1,2,4,5,7,8) in simp_all)
  show "buf_value (s\<lparr>made := made s - {i}\<rparr>) = (buf_value s)(i := None)"
    by (simp add: buf_value_def fun_eq_iff)
qed

text \<open>A new object with a block of its own.\<close>

lemma buffers_make:
  assumes "buffers_ok F s" and "i \<notin> made s" and "lb_ok b h"
    and "owns_step (lb_new 0) (memory s) b h"
  shows "buffers_ok F (make_buf i a b h s)"
    and "buf_value (make_buf i a b h s) = (buf_value s)(i \<mapsto> (content b h, max_size b, a))"
proof -
  let ?s = "make_buf i a (lb_new 0) (memory s) s"
  have s: "buffers_ok F ?s" "buf_value ?s = (buf_value s)(i \<mapsto> ([], 0, a))"
    using buffers_make_empty [OF assms(1,2), of 0 a] by simp_all
  have eq: "make_buf i a b h s = set_buf i b h ?s" by (simp add: make_buf_def set_buf_def)
  have "i \<in> made ?s" "owns_step (buf_at ?s i) (memory ?s) b h" using assms(4) by simp_all
  from buffers_step [OF s(1) this(1) assms(3) this(2)]
  show "buffers_ok F (make_buf i a b h s)"
    and "buf_value (make_buf i a b h s) = (buf_value s)(i \<mapsto> (content b h, max_size b, a))"
    unfolding eq s(2) by simp_all
qed

lemma buffers_move:
  assumes ok: "buffers_ok F s" and i: "i \<notin> made s" and j: "j \<in> made s"
  shows "buffers_ok F (set_buf j (snd (lb_move (buf_at s j))) (memory s) (make_buf i a (buf_at s j) (memory s) s))"
    and "buf_value (set_buf j (snd (lb_move (buf_at s j))) (memory s) (make_buf i a (buf_at s j) (memory s) s)) =
      (buf_value s)(i \<mapsto> (content (buf_at s j) (memory s), max_size (buf_at s j), a),
        j \<mapsto> ([], max_size (buf_at s j), alloc_of s j))"
proof -
  define b where "b = snd (lb_move (buf_at s j))"
  define t where "t = set_buf j b (memory s) (make_buf i a (buf_at s j) (memory s) s)"
  note d = buffers_okD [OF ok]
  have ij: "i \<noteq> j" using i j by blast
  have b: "data_block b = None" "lb_ok b (memory s)" "content b (memory s) = []" "max_size b = max_size (buf_at s j)"
    using d(2) [OF j] by (simp_all add: b_def lb_move_def lb_ok_def block_of_def content_def)
  have made_t: "k \<in> made t \<longleftrightarrow> k = i \<or> k \<in> made s" and mem_t: "memory t = memory s"
    and lost_t: "lost t = lost s"
    and at_t: "buf_at t k = (if k = j then b else if k = i then buf_at s j else buf_at s k)" for k
    by (auto simp: t_def)
  define from_to where "from_to k = (if k = i then j else k)" for k
  have owner: "\<exists>l \<in> made s. l = from_to k \<and> data_block (buf_at s l) = Some c"
    if "k \<in> made t" "data_block (buf_at t k) = Some c" for k c
    using that b(1) j by (auto simp: made_t at_t from_to_def split: if_splits)
  have from_to: "k = l" if "from_to k = from_to l" "k \<noteq> j" "l \<noteq> j" for k l
    using that by (auto simp: from_to_def split: if_splits)
  have "buffers_ok F t"
    unfolding buffers_ok_def mem_t lost_t
  proof (intro conjI ballI allI impI)
    show "heap_ok (memory s)" by (rule d(1))
    show "lb_ok (buf_at t k) (memory s)" if "k \<in> made t" for k
      using that d(2) j b(2) by (auto simp: made_t at_t)
    show "k = l" if k: "k \<in> made t" "data_block (buf_at t k) = Some c"
      and l: "l \<in> made t" "data_block (buf_at t l) = Some c" for k l c
    proof (rule from_to)
      show "from_to k = from_to l" using owner [OF k] owner [OF l] d(3) by blast
      show "k \<noteq> j" "l \<noteq> j" using k(2) l(2) b(1) by (auto simp: at_t)
    qed
    show "blocks (memory s) e = Some cs" if "F e = Some cs" for e cs using d(4) that .
    show "data_block (buf_at t k) \<noteq> Some e" if "F e = Some cs" "k \<in> made t" for e cs k
      using owner [OF that(2), of e] d(5) [of e] that(1) by blast
    show "blocks (memory s) k \<noteq> None" "F k = None" if "k \<in> lost s" for k using d(7) [OF that] by blast+
    show "data_block (buf_at t l) \<noteq> Some k" if "k \<in> lost s" "l \<in> made t" for k l
      using owner [OF that(2), of k] d(8) [OF that(1)] by blast
    show "F k \<noteq> None \<or> k \<in> lost s \<or> (\<exists>l \<in> made t. data_block (buf_at t l) = Some k)"
      if "blocks (memory s) k \<noteq> None" for k
    proof (cases "F k \<noteq> None \<or> k \<in> lost s")
      case False
      then have "\<exists>l \<in> made s. data_block (buf_at s l) = Some k" using d(6) [OF that] by blast
      then obtain l where "l \<in> made s" "data_block (buf_at s l) = Some k" by blast
      then have "(if l = j then i else l) \<in> made t"
        "data_block (buf_at t (if l = j then i else l)) = Some k"
        using i ij by (auto simp: made_t at_t)
      then show ?thesis by blast
    qed blast
  qed
  then show "buffers_ok F (set_buf j (snd (lb_move (buf_at s j))) (memory s) (make_buf i a (buf_at s j) (memory s) s))"
    by (simp add: t_def b_def)
  show "buf_value (set_buf j (snd (lb_move (buf_at s j))) (memory s) (make_buf i a (buf_at s j) (memory s) s)) =
      (buf_value s)(i \<mapsto> (content (buf_at s j) (memory s), max_size (buf_at s j), a),
        j \<mapsto> ([], max_size (buf_at s j), alloc_of s j))"
    using b ij j unfolding b_def [symmetric] by (auto simp: buf_value_def fun_eq_iff)
qed

text \<open>Destroying releases the block.\<close>

lemma lb_destroy_ok:
  assumes "lb_ok b h"
  shows "\<exists>h'. lb_destroy b h = Some h' \<and> lb_ok (lb_new 0) h' \<and> owns_step b h (lb_new 0) h'"
proof (cases "data_block b")
  case None
  then show ?thesis using assms
    by (simp add: lb_destroy_def lb_ok_def lb_new_def block_of_def owns_step_def)
next
  case (Some i)
  obtain cs where "blocks h i = Some cs" "length cs = capacity b" "heap_ok h"
    using lb_ok_block [OF assms Some] assms unfolding lb_ok_def by metis
  then show ?thesis using Some
    by (simp add: lb_destroy_def deallocate_def lb_ok_def lb_new_def block_of_def owns_step_def heap_ok_free)
qed

lemma buffers_destroy:
  assumes "buffers_ok F s" and i: "i \<in> made s" and "lb_destroy (buf_at s i) (memory s) = Some h"
  shows "buffers_ok F (s\<lparr>made := made s - {i}, memory := h\<rparr>)"
    and "buf_value (s\<lparr>made := made s - {i}, memory := h\<rparr>) = (buf_value s)(i := None)"
proof -
  let ?s = "set_buf i (lb_new 0) h s" and ?t = "s\<lparr>made := made s - {i}, memory := h\<rparr>"
  have l: "lb_ok (lb_new 0) h" "owns_step (buf_at s i) (memory s) (lb_new 0) h"
    using lb_destroy_ok [OF buffers_okD(2) [OF assms(1) i]] assms(3) by auto
  note s = buffers_step [OF assms(1) i l]
  have "data_block (buf_at ?s i) = None" by (simp add: lb_new_def)
  note t = buffers_drop_empty [OF s(1) this]
  have same: "made ?t = made (?s\<lparr>made := made ?s - {i}\<rparr>)" "memory ?t = memory (?s\<lparr>made := made ?s - {i}\<rparr>)"
    "\<And>j. j \<in> made ?t \<Longrightarrow> buf_at ?t j = buf_at (?s\<lparr>made := made ?s - {i}\<rparr>) j"
    by (simp_all add: set_buf_def)
  show "buffers_ok F ?t" using t(1) same unfolding buffers_ok_def by simp
  have "buf_value ?t = buf_value (?s\<lparr>made := made ?s - {i}\<rparr>)"
    using same(3) by (simp add: buf_value_def fun_eq_iff set_buf_def)
  then show "buf_value ?t = (buf_value s)(i := None)" using t(2) s(2) by simp
qed

lemma lb_new_sized_ok:
  assumes "heap_ok h" and "n \<le> size_max" and "m \<le> size_max"
  shows "\<exists>b h'. lb_new_sized m n l h = (b, h') \<and> lb_ok b h' \<and> length (content b h') = n \<and>
    max_size b = min m l \<and> owns_step (lb_new 0) h b h'"
  using assms heap_ok_allocate [OF assms(1), of n] fresh_block [OF assms(1)]
  by (auto simp: lb_new_sized_def allocate_def lb_ok_def block_of_def content_def owns_step_def lb_new_def
      min_le_iff_disj)

text \<open>A move assignment that takes the members over drops the block of the target.\<close>

lemma buffers_lose:
  assumes "buffers_ok F s" and i: "i \<in> made s"
  defines "t \<equiv> s\<lparr>made := made s - {i}, lost := lost s \<union> set_option (data_block (buf_at s i))\<rparr>"
  shows "buffers_ok F t" and "buf_value t = (buf_value s)(i := None)"
proof -
  note d = buffers_okD [OF assms(1)]
  have t: "memory t = memory s" "buf_at t = buf_at s" "alloc_of t = alloc_of s" "made t = made s - {i}"
    "lost t = lost s \<union> set_option (data_block (buf_at s i))"
    by (simp_all add: t_def)
  have owner: "F k \<noteq> None \<or> k \<in> lost t \<or> (\<exists>l \<in> made t. data_block (buf_at s l) = Some k)"
    if "blocks (memory s) k \<noteq> None" for k
    using d(6) [OF that] by (auto simp: t)
  have mine: "blocks (memory s) k \<noteq> None \<and> F k = None \<and> (\<forall>l \<in> made t. data_block (buf_at s l) \<noteq> Some k)"
    if "data_block (buf_at s i) = Some k" for k
  proof -
    have "F k = None" using d(5) [of k i] i that by blast
    then show ?thesis using lb_ok_block [OF d(2) [OF i] that] d(3) [OF i _ that] by (auto simp: t)
  qed
  show "buffers_ok F t"
    unfolding buffers_ok_def t(1,2)
  proof (intro conjI)
    show "\<forall>k. blocks (memory s) k \<noteq> None \<longrightarrow>
        F k \<noteq> None \<or> k \<in> lost t \<or> (\<exists>l \<in> made t. data_block (buf_at s l) = Some k)"
      using owner by blast
    show "\<forall>k \<in> lost t. blocks (memory s) k \<noteq> None \<and> F k = None
        \<and> (\<forall>l \<in> made t. data_block (buf_at s l) \<noteq> Some k)"
      using mine d(7,8) by (auto simp: t)
  qed (use d(1-5) in \<open>simp_all add: t\<close>)
  show "buf_value t = (buf_value s)(i := None)"
    by (simp add: buf_value_def fun_eq_iff t)
qed

lemma lb_move_leaves: "snd (lb_move b) = lb_new (max_size b)"
  by (rule lbuf.equality) (simp_all add: lb_move_def lb_new_def)

lemma buffers_take_over:
  assumes ok: "buffers_ok F s" and i: "i \<in> made s" and j: "j \<in> made s"
  defines "t \<equiv> set_buf j (snd (lb_move (buf_at s j))) (memory s)
    (set_buf i (buf_at s j) (memory s) (take_over i j s))"
  shows "buffers_ok F t"
    and "buf_value t = (buf_value s)(i \<mapsto> (content (buf_at s j) (memory s), max_size (buf_at s j), alloc_of s j),
      j \<mapsto> ([], max_size (buf_at s j), alloc_of s j))"
proof -
  let ?u = "s\<lparr>made := made s - {i}, lost := lost s \<union> set_option (data_block (buf_at s i))\<rparr>"
  note u = buffers_lose [OF ok i]
  have "buffers_ok F t \<and> buf_value t = (buf_value s)
    (i \<mapsto> (content (buf_at s j) (memory s), max_size (buf_at s j), alloc_of s j),
     j \<mapsto> ([], max_size (buf_at s j), alloc_of s j))"
  proof (cases "i = j")
    case True
    have "max_size (buf_at s i) \<le> size_max" using buffers_okD(2) [OF ok i] by (simp add: lb_ok_def)
    note e = buffers_make_empty [OF u(1) _ this, of i "alloc_of s i"]
    have "t = make_buf i (alloc_of s i) (lb_new (max_size (buf_at s i))) (memory ?u) ?u"
      using True i by (simp add: t_def set_buf_def make_buf_def take_over_def lb_move_leaves insert_absorb)
    then show ?thesis using e u(2) True by simp
  next
    case False
    have "t = set_buf j (snd (lb_move (buf_at ?u j))) (memory ?u)
        (make_buf i (alloc_of s j) (buf_at ?u j) (memory ?u) ?u)"
      using False i by (simp add: t_def set_buf_def make_buf_def take_over_def insert_absorb)
    then show ?thesis
      using buffers_move [OF u(1), of i j "alloc_of s j"] u(2) False j by simp
  qed
  then show "buffers_ok F t"
    and "buf_value t = (buf_value s)(i \<mapsto> (content (buf_at s j) (memory s), max_size (buf_at s j), alloc_of s j),
      j \<mapsto> ([], max_size (buf_at s j), alloc_of s j))" by blast+
qed

lemma lb_move_assign_ok:
  assumes "lb_ok b h" and "lb_ok b2 h" and "data_block b = None \<or> data_block b2 \<noteq> data_block b"
  shows "\<exists>b' h'. lb_move_assign False False b b2 h = Some (b', b2, h') \<and> lb_ok b' h' \<and>
    content b' h' = content b2 h \<and> max_size b' = max_size b \<and> owns_step b h b' h'"
proof -
  let ?n = "lb_size b2"
  obtain h1 where h1: "lb_destroy b h = Some h1" "owns_step b h (lb_new 0) h1" "heap_ok h1"
    using lb_destroy_ok [OF assms(1)] by (auto simp: lb_ok_def)
  have next1: "next_id h1 = next_id h"
    using h1(1) by (auto simp: lb_destroy_def deallocate_def split: option.splits if_splits)
  have sz: "?n \<le> capacity b2" "capacity b2 \<le> size_max" and len2: "length (block_of b2 h) = capacity b2"
    using assms(2) by (simp_all add: lb_ok_def)
  have "outside (block_ptr (data_block b2) 0) b"
    using assms(3) by (auto simp: outside_def block_ptr_def)
  then have rd: "mem_read (block_ptr (data_block b2) 0) ?n h1 = Some (content b2 h)"
    using owns_step_read [OF h1(2)] read_own [OF assms(2), of 0 ?n] sz by (simp add: content_def)
  let ?c = "replicate (capacity b2) None" and ?j = "next_id h1"
  have lc: "length (content b2 h) = ?n" by (rule length_content [OF assms(2)])
  let ?h' = "(snd (allocate (capacity b2) h1))\<lparr>blocks := (blocks (snd (allocate (capacity b2) h1)))
      (?j \<mapsto> splice 0 (content b2 h) ?c)\<rparr>"
  have new_block: "(snd (allocate n g))\<lparr>blocks := (blocks (snd (allocate n g)))(next_id g \<mapsto> replicate n None)\<rparr> =
      snd (allocate n g)" for n g
    by (rule heap.equality) (simp_all add: allocate_def)
  have cp: "memcpy (Some (?j, 0)) (block_ptr (data_block b2) 0) ?n (snd (allocate (capacity b2) h1)) = Some ?h'"
    using copy_fresh [OF h1(3) rd, of 0 ?c "capacity b2"] sz unfolding new_block by simp
  let ?b = "b\<lparr>capacity := capacity b2, lb_size := ?n, data_block := Some ?j\<rparr>"
  have dealloc: "(if data_block b \<noteq> None then deallocate (data_block b) (capacity b) h else Some h) = Some h1"
    using h1(1) by (simp add: lb_destroy_def)
  have "lb_move_assign False False b b2 h = Some (?b, b2, ?h')"
    unfolding lb_move_assign_def using dealloc cp
    by (subst lb_move_assign_false.simps) (simp add: allocate_def)
  moreover have "lb_ok ?b ?h'"
    using assms(1) sz lc heap_ok_upd [OF heap_ok_allocate [OF h1(3)], of "capacity b2" ?j]
    by (simp add: lb_ok_def block_of_def)
  moreover have "content ?b ?h' = content b2 h"
    using sz lc by (simp add: content_def block_of_def splice_def)
  moreover have "blocks h ?j = None" using assms(1) next1 fresh_block by (auto simp: lb_ok_def)
  then have "owns_step b h ?b ?h'"
    using h1(2) next1 lb_ok_block [OF assms(1)] by (auto simp: owns_step_def lb_new_def)
  ultimately show ?thesis by auto
qed


section \<open>Every call does what it should\<close>

definition does :: "bool \<Rightarrow> (nat \<Rightarrow> cells option) \<Rightarrow> buf_op \<Rightarrow> buffers \<Rightarrow> bool" where
  "does propagate F op s \<longleftrightarrow>
     (\<exists>s' r. buf_call propagate op s = Some (s', r)
        \<and> buf_effect propagate F op (buf_value s) r (buf_value s') \<and> buffers_ok F s')"

lemma doesI:
  "buf_call p op s = Some (s', r) \<Longrightarrow> buf_effect p F op (buf_value s) r (buf_value s') \<Longrightarrow>
    buffers_ok F s' \<Longrightarrow> does p F op s"
  unfolding does_def by blast

lemma buf_value_made:
  "i \<in> made s \<Longrightarrow>
    buf_value s i = Some (content (buf_at s i) (memory s), max_size (buf_at s i), alloc_of s i)"
  "i \<notin> made s \<Longrightarrow> buf_value s i = None"
  by (simp_all add: buf_value_def)

lemma shape_of_object:
  assumes "buffers_ok F s"
  shows "shapes_of (buf_value s) i =
    (if i \<in> made s then Some \<lparr>sh_size = lb_size (buf_at s i), sh_limit = max_size (buf_at s i), sh_alloc = alloc_of s i\<rparr>
     else None)"
  using length_content [OF buffers_okD(2) [OF assms]] by (simp add: shapes_of_def buf_value_def)

text \<open>A call that can throw, from what its lemma in \<open>LinearBuffer\<close> says.\<close>

lemma after_call_room:
  assumes ok: "buffers_ok F s" and i: "i \<in> made s"
    and r: "if n \<le> max_size (buf_at s i)
      then \<exists>b h. r = Some (Inr (b, h)) \<and> lb_step (buf_at s i) (memory s) b h xs
      else r = Some (Inl length_error)"
  shows "\<exists>s' res. after_call i s r = Some (s', res) \<and> buffers_ok F s'
    \<and> room n (max_size (buf_at s i)) i xs (alloc_of s i) (buf_value s) res (buf_value s')"
proof (cases "n \<le> max_size (buf_at s i)")
  case True
  then obtain b h where b: "r = Some (Inr (b, h))" "lb_ok b h" "content b h = xs"
    "max_size b = max_size (buf_at s i)" "owns_step (buf_at s i) (memory s) b h"
    using r by (auto simp: lb_step_def)
  then show ?thesis using buffers_step [OF ok i b(2,5)] True by (simp add: after_call_def room_def)
next
  case False
  then show ?thesis using r ok by (simp add: after_call_def room_def)
qed

lemma source_reads:
  assumes ok: "buffers_ok F s" and src: "source_ok F (shapes_of (buf_value s)) i src" and i: "i \<in> made s"
  shows "mem_read (source_ptr src s) (source_size src) (memory s) = Some (source_cells F (buf_value s) src)"
    and "outside (source_ptr src s) (buf_at s i)"
proof -
  note d = buffers_okD [OF ok]
  have "mem_read (source_ptr src s) (source_size src) (memory s) = Some (source_cells F (buf_value s) src)
      \<and> outside (source_ptr src s) (buf_at s i)"
  proof (cases src)
    case (Foreign e off n)
    then obtain cs where e: "F e = Some cs" "off + n \<le> length cs" using src by (auto split: option.splits)
    then have "blocks (memory s) e = Some cs" "data_block (buf_at s i) \<noteq> Some e"
      using d(4) d(5) [of e, OF _ i] by auto
    then show ?thesis using Foreign e mem_read_block by (simp add: outside_def)
  next
    case (Of_buffer j off n)
    then have j: "j \<noteq> i" "j \<in> made s" and le: "off + n \<le> lb_size (buf_at s j)"
      using src by (auto simp: shape_of_object [OF ok] split: if_splits)
    have lb: "lb_size (buf_at s j) \<le> capacity (buf_at s j)" using d(2) [OF j(2)] by (simp add: lb_ok_def)
    have "take n (drop off (content (buf_at s j) (memory s))) =
        take n (drop off (block_of (buf_at s j) (memory s)))"
      using le by (simp add: content_def drop_take)
    moreover have "mem_read (block_ptr (data_block (buf_at s j)) off) n (memory s) =
        Some (take n (drop off (block_of (buf_at s j) (memory s))))"
      by (rule read_own [OF d(2) [OF j(2)]]) (use le lb in simp)
    moreover have "outside (block_ptr (data_block (buf_at s j)) off) (buf_at s i)"
      using d(3) [OF i j(2)] j(1) by (auto simp: outside_def block_ptr_def)
    ultimately show ?thesis using Of_buffer buf_value_made(1) [OF j(2)] by simp
  qed
  then show "mem_read (source_ptr src s) (source_size src) (memory s) = Some (source_cells F (buf_value s) src)"
    and "outside (source_ptr src s) (buf_at s i)" by blast+
qed

lemma room_iff: "lb_size b \<le> max_size b \<and> n \<le> max_size b - lb_size b \<longleftrightarrow> lb_size b + n \<le> max_size b"
  by linarith

lemma append_does:
  assumes ok: "buffers_ok F s" and i: "i \<in> made s" and src: "source_ok F (shapes_of (buf_value s)) i src"
  shows "does p F (Buf_append i src) s"
proof -
  let ?b = "buf_at s i" and ?ys = "source_cells F (buf_value s) src"
  note b = buffers_okD(2) [OF ok i] and rd = source_reads [OF ok src i]
  have "if lb_size ?b + source_size src \<le> max_size ?b
      then \<exists>b' h. lb_append (source_ptr src s) (source_size src) ?b (memory s) = Some (Inr (b', h)) \<and>
        lb_step ?b (memory s) b' h (content ?b (memory s) @ ?ys)
      else lb_append (source_ptr src s) (source_size src) ?b (memory s) = Some (Inl length_error)"
    using lb_append_ok [OF b rd(2,1)] by (auto simp: lb_append_def)
  from after_call_room [OF ok i this] obtain s' r where
    "after_call i s (lb_append (source_ptr src s) (source_size src) ?b (memory s)) = Some (s', r)"
    "buffers_ok F s'"
    "room (lb_size ?b + source_size src) (max_size ?b) i (content ?b (memory s) @ ?ys) (alloc_of s i)
       (buf_value s) r (buf_value s')"
    by blast
  then show ?thesis
    using e_append [where A = "buf_value s", OF buf_value_made(1) [OF i], of src F r _ p] length_content [OF b] by (auto intro!: doesI)
qed

lemma insert_does:
  assumes ok: "buffers_ok F s" and i: "i \<in> made s" and k: "k \<le> lb_size (buf_at s i)"
    and src: "source_ok F (shapes_of (buf_value s)) i src"
  shows "does p F (Buf_insert i k src) s"
proof -
  let ?b = "buf_at s i" and ?ys = "source_cells F (buf_value s) src"
  let ?r = "lb_insert k (source_ptr src s) (source_size src) ?b (memory s)"
  note b = buffers_okD(2) [OF ok i] and rd = source_reads [OF ok src i]
  have lc: "length (content ?b (memory s)) = lb_size ?b" by (rule length_content [OF b])
  have "\<exists>zs. length zs = lb_size ?b - k \<and>
      (if lb_size ?b + source_size src \<le> max_size ?b
       then \<exists>b' h. ?r = Some (Inr (b', h)) \<and>
         lb_step ?b (memory s) b' h (take k (content ?b (memory s)) @ ?ys @ zs)
       else ?r = Some (Inl length_error))"
  proof (cases "lb_size ?b + source_size src \<le> max_size ?b")
    case True
    then have le: "lb_size ?b \<le> max_size ?b" "source_size src \<le> max_size ?b - lb_size ?b" by linarith+
    show ?thesis
    proof (cases "lb_size ?b + source_size src > capacity ?b")
      case grow: True
      show ?thesis using lb_insert_grow [OF b rd(2,1) k le grow] True lc
        by (intro exI [of _ "drop k (content ?b (memory s))"]) simp
    next
      case False
      let ?cs = "block_of ?b (memory s)" and ?m = "lb_size ?b - k"
      let ?zs = "take ?m (drop (k + source_size src) (splice k (take ?m (drop (k + source_size src) ?cs)) ?cs))"
      have len: "length ?cs = capacity ?b" using b by (simp add: lb_ok_def)
      then have "length ?zs = ?m" using False k by simp
      then show ?thesis using lb_insert_in_place [OF b rd(2,1) k le] False True
        by (intro exI [of _ ?zs]) simp
    qed
  next
    case False
    then show ?thesis
      by (intro exI [of _ "replicate (lb_size ?b - k) None"]) (auto simp: lb_insert_def)
  qed
  then obtain zs where zs: "length zs = lb_size ?b - k"
    and r: "if lb_size ?b + source_size src \<le> max_size ?b
       then \<exists>b' h. ?r = Some (Inr (b', h)) \<and>
         lb_step ?b (memory s) b' h (take k (content ?b (memory s)) @ ?ys @ zs)
       else ?r = Some (Inl length_error)"
    by blast
  from after_call_room [OF ok i r] obtain s' res where
    "after_call i s ?r = Some (s', res)" "buffers_ok F s'"
    "room (lb_size ?b + source_size src) (max_size ?b) i (take k (content ?b (memory s)) @ ?ys @ zs)
       (alloc_of s i) (buf_value s) res (buf_value s')"
    by blast
  then show ?thesis
    using e_insert [where A = "buf_value s", OF buf_value_made(1) [OF i], of zs k src F res _ p] zs lc by (auto intro!: doesI)
qed

lemma erase_does:
  assumes ok: "buffers_ok F s" and i: "i \<in> made s"
  shows "k < lb_size (buf_at s i) \<Longrightarrow> does p F (Buf_erase i k) s"
    and "k \<le> l \<Longrightarrow> l \<le> lb_size (buf_at s i) \<Longrightarrow> does p F (Buf_erase_range i k l) s"
proof -
  let ?b = "buf_at s i"
  note b = buffers_okD(2) [OF ok i] and v = buf_value_made(1) [OF i]
  assume "k < lb_size ?b"
  from lb_erase_ok [OF b this] obtain b' h where e: "lb_erase k ?b (memory s) = Some (b', h)" "lb_ok b' h"
    "content b' h = take k (content ?b (memory s)) @ drop (Suc k) (content ?b (memory s))"
    "max_size b' = max_size ?b" "owns_step ?b (memory s) b' h"
    by (auto simp: lb_step_def)
  then show "does p F (Buf_erase i k) s"
    using buffers_step [OF ok i e(2,5)] e_erase [where A = "buf_value s", OF v]
    by (intro doesI [where s' = "set_buf i b' h s"]) (simp_all add: after_call_def)
next
  let ?b = "buf_at s i"
  note b = buffers_okD(2) [OF ok i] and v = buf_value_made(1) [OF i]
  assume "k \<le> l" and "l \<le> lb_size ?b"
  from lb_erase_range_ok [OF b this] obtain b' h where e:
    "lb_erase_range k l ?b (memory s) = Some (b', h)" "lb_ok b' h"
    "content b' h = take k (content ?b (memory s)) @ drop l (content ?b (memory s))"
    "max_size b' = max_size ?b" "owns_step ?b (memory s) b' h"
    by (auto simp: lb_step_def)
  then show "does p F (Buf_erase_range i k l) s"
    using buffers_step [OF ok i e(2,5)] e_erase_range [where A = "buf_value s", OF v]
    by (intro doesI [where s' = "set_buf i b' h s"]) (simp_all add: after_call_def)
qed

lemma size_calls_do:
  assumes ok: "buffers_ok F s" and i: "i \<in> made s"
  shows "does p F (Buf_reserve i n) s" and "does p F (Buf_resize i n) s" and "does p F (Buf_clear i) s"
proof -
  let ?b = "buf_at s i" and ?xs = "content (buf_at s i) (memory s)"
  note b = buffers_okD(2) [OF ok i] and v = buf_value_made(1) [OF i]
  have lc: "length ?xs = lb_size ?b" by (rule length_content [OF b])
  have "if n \<le> max_size ?b
      then \<exists>b' h. lb_reserve n ?b (memory s) = Some (Inr (b', h)) \<and> lb_step ?b (memory s) b' h ?xs
      else lb_reserve n ?b (memory s) = Some (Inl length_error)"
    using lb_reserve_ok [OF b, of n] by (auto simp: lb_reserve_def)
  from after_call_room [OF ok i this] show "does p F (Buf_reserve i n) s"
    using e_reserve [where A = "buf_value s", OF v] by (auto intro!: doesI)
  have "\<exists>ys. length ys = n \<and> take (length ?xs) ys = take n ?xs \<and>
      (if n \<le> max_size ?b
       then \<exists>b' h. lb_resize n ?b (memory s) = Some (Inr (b', h)) \<and> lb_step ?b (memory s) b' h ys
       else lb_resize n ?b (memory s) = Some (Inl length_error))"
  proof (cases "n \<le> max_size ?b")
    case True
    then show ?thesis using lb_resize_ok [OF b True] lc by auto
  next
    case False
    then show ?thesis
      by (intro exI [of _ "take n (?xs @ replicate n None)"]) (auto simp: lb_resize_def min_def)
  qed
  then obtain ys where ys: "length ys = n" "take (length ?xs) ys = take n ?xs"
    and r: "if n \<le> max_size ?b
       then \<exists>b' h. lb_resize n ?b (memory s) = Some (Inr (b', h)) \<and> lb_step ?b (memory s) b' h ys
       else lb_resize n ?b (memory s) = Some (Inl length_error)"
    by blast
  from after_call_room [OF ok i r] show "does p F (Buf_resize i n) s"
    using e_resize [where A = "buf_value s", OF v ys] by (auto intro!: doesI)
  have c: "lb_ok (lb_clear ?b) (memory s)" "owns_step ?b (memory s) (lb_clear ?b) (memory s)"
    "content (lb_clear ?b) (memory s) = []" "max_size (lb_clear ?b) = max_size ?b"
    using b by (simp_all add: lb_clear_def lb_ok_size content_def)
  show "does p F (Buf_clear i) s"
    using buffers_step [OF ok i c(1,2)] c(3,4) e_clear [where A = "buf_value s", OF v]
    by (intro doesI [where s' = "set_buf i (lb_clear ?b) (memory s) s"]) (simp_all add: done_call_def)
qed

text \<open>
  Assigning a buffer that is not empty to itself is undefined: it is a \<^verbatim>\<open>memcpy\<close> of a range onto
  itself.
\<close>

lemma self_assign_overlaps:
  assumes "lb_ok b h" and "lb_size b \<noteq> 0" and "lb_size b \<le> max_size b"
  shows "lb_copy_assign b b h = None"
proof -
  obtain i where "data_block b = Some i"
    using assms by (cases "data_block b") (auto simp: lb_ok_def block_of_Some)
  then have "overlap (block_ptr (data_block b) 0) (block_ptr (data_block b) 0) (lb_size b)"
    using assms(2) by (simp add: overlap_def block_ptr_def)
  then show ?thesis using assms by (simp add: lb_copy_assign_def memcpy_def lb_ok_def Let_def)
qed

lemma copy_nothing: "memcpy p p 0 h = Some h"
  by (auto simp: memcpy_def overlap_def memmove_def mem_read_def mem_write_def split: option.split)

lemma other_block:
  assumes "buffers_ok F s" and "i \<in> made s" and "j \<in> made s" and "i \<noteq> j"
  shows "data_block (buf_at s i) = None \<or> data_block (buf_at s j) \<noteq> data_block (buf_at s i)"
  using buffers_okD(3) [OF assms(1-3)] assms(4) by (cases "data_block (buf_at s i)") auto

lemma assign_does:
  assumes ok: "buffers_ok F s" and i: "i \<in> made s" and j: "j \<in> made s"
  shows "i \<noteq> j \<or> lb_size (buf_at s j) = 0 \<Longrightarrow> does p F (Buf_assign i j) s"
    and "p \<or> alloc_of s i \<noteq> alloc_of s j \<Longrightarrow> does p F (Buf_move_assign i j) s"
proof -
  let ?b = "buf_at s i" and ?b2 = "buf_at s j"
  note b = buffers_okD(2) [OF ok i] and b2 = buffers_okD(2) [OF ok j]
    and ne = other_block [OF ok i j] and v = buf_value_made(1) [OF i] buf_value_made(1) [OF j]
  show "does p F (Buf_assign i j) s" if self: "i \<noteq> j \<or> lb_size (buf_at s j) = 0"
  proof -
    have "if lb_size ?b2 \<le> max_size ?b
        then \<exists>b' h. lb_copy_assign ?b ?b2 (memory s) = Some (Inr (b', h)) \<and>
          lb_step ?b (memory s) b' h (content ?b2 (memory s))
        else lb_copy_assign ?b ?b2 (memory s) = Some (Inl length_error)"
    proof (cases "i = j")
      case True
      then have "lb_copy_assign ?b ?b2 (memory s) = Some (Inr (?b, memory s))"
        using self b copy_nothing by (simp add: lb_copy_assign_def Let_def)
      then show ?thesis using True self b by (simp add: lb_step_def owns_step_def)
    next
      case False
      then show ?thesis using lb_copy_assign_ok [OF b b2 ne] by (auto simp: lb_copy_assign_def Let_def)
    qed
    from after_call_room [OF ok i this] show ?thesis
      using e_assign [where A = "buf_value s", OF v] length_content [OF b2] by (auto intro!: doesI)
  qed
  show "does p F (Buf_move_assign i j) s" if alloc: "p \<or> alloc_of s i \<noteq> alloc_of s j"
  proof (cases p)
    case True
    have "lb_move_assign_true ?b ?b2 (memory s) = (?b2, snd (lb_move ?b2), memory s)"
      by (simp add: lb_move_assign_true_def lb_move_def)
    then show ?thesis
      using buffers_take_over [OF ok i j] True e_move_assign_true [where A = "buf_value s", OF _ v(2), of p F i]
      by (intro doesI [where s' = "set_buf j (snd (lb_move ?b2)) (memory s) (set_buf i ?b2 (memory s) (take_over i j s))"])
        (simp_all add: lb_move_assign_def done_call_def)
  next
    case False
    then have al: "alloc_of s i \<noteq> alloc_of s j" and ij: "i \<noteq> j" using alloc by auto
    obtain b' h where m: "lb_move_assign False False ?b ?b2 (memory s) = Some (b', ?b2, h)" "lb_ok b' h"
      "content b' h = content ?b2 (memory s)" "max_size b' = max_size ?b" "owns_step ?b (memory s) b' h"
      using lb_move_assign_ok [OF b b2 ne [OF ij]] by blast
    have "set_buf j ?b2 h (set_buf i b' h s) = set_buf i b' h s"
      using ij by (simp add: set_buf_def fun_upd_idem)
    then show ?thesis
      using buffers_step [OF ok i m(2,5)] m(1,3,4) False al
        e_move_assign_false [where A = "buf_value s", OF _ v, of p F]
      by (intro doesI [where s' = "set_buf i b' h s"]) (simp_all add: done_call_def)
  qed
qed

lemma new_does:
  assumes ok: "buffers_ok F s" and i: "i \<notin> made s"
  shows "m \<le> size_max \<Longrightarrow> does p F (Buf_new i a m) s"
    and "m \<le> size_max \<Longrightarrow> n \<le> size_max \<Longrightarrow> does p F (Buf_new_sized i a m n l) s"
    and "j \<in> made s \<Longrightarrow> does p F (Buf_copy i j) s"
    and "j \<in> made s \<Longrightarrow> does p F (Buf_move i j) s"
proof -
  have hok: "heap_ok (memory s)" by (rule buffers_okD(1) [OF ok])
  show "does p F (Buf_new i a m) s" if "m \<le> size_max"
    using buffers_make_empty [OF ok i that] e_new
    by (intro doesI [where s' = "make_buf i a (lb_new m) (memory s) s"]) (simp_all add: done_call_def)
  show "does p F (Buf_new_sized i a m n l) s" if m: "m \<le> size_max" and n: "n \<le> size_max"
  proof -
    obtain b h where b: "lb_new_sized m n l (memory s) = (b, h)" "lb_ok b h" "length (content b h) = n"
      "max_size b = min m l" "owns_step (lb_new 0) (memory s) b h"
      using lb_new_sized_ok [OF hok n m] by blast
    then show ?thesis
      using buffers_make [OF ok i b(2,5)] e_new_sized [OF b(3)]
      by (intro doesI [where s' = "make_buf i a b h s"]) (simp_all add: done_call_def)
  qed
  show "does p F (Buf_copy i j) s" if j: "j \<in> made s"
  proof -
    from lb_copy_ok [OF buffers_okD(2) [OF ok j]] obtain b h where
      b: "lb_copy (buf_at s j) (memory s) = Some (b, h)" "lb_ok b h"
      "content b h = content (buf_at s j) (memory s)" "data_block b = Some (next_id (memory s))"
      "\<forall>k. k \<noteq> next_id (memory s) \<longrightarrow> blocks h k = blocks (memory s) k" by blast
    have "max_size b = max_size (buf_at s j)"
      using b(1) by (auto simp: lb_copy_def split: bind_splits prod.splits)
    moreover have "owns_step (lb_new 0) (memory s) b h"
      using b(4,5) fresh_block [OF hok] by (auto simp: owns_step_def lb_new_def)
    ultimately show ?thesis
      using buffers_make [OF ok i b(2)] b(1,3) e_copy [where A = "buf_value s", OF buf_value_made(1) [OF j]]
      by (intro doesI [where s' = "make_buf i 0 b h s"]) (simp_all add: done_call_def)
  qed
  show "does p F (Buf_move i j) s" if j: "j \<in> made s"
    using buffers_move [OF ok i j] e_move [where A = "buf_value s", OF buf_value_made(1) [OF j]] buf_value_made(1) [OF j]
    by (intro doesI [where s' = "set_buf j (snd (lb_move (buf_at s j))) (memory s) (make_buf i (alloc_of s j) (buf_at s j) (memory s) s)"])
      (simp_all add: done_call_def lb_move_def)
qed

lemma destroy_does:
  assumes ok: "buffers_ok F s" and i: "i \<in> made s"
  shows "does p F (Buf_destroy i) s"
proof -
  obtain h where h: "lb_destroy (buf_at s i) (memory s) = Some h"
    using lb_destroy_ok [OF buffers_okD(2) [OF ok i]] by blast
  then show ?thesis
    using buffers_destroy [OF ok i h] e_destroy
    by (intro doesI [where s' = "s\<lparr>made := made s - {i}, memory := h\<rparr>"]) (simp_all add: done_call_def)
qed

lemma shape_iff:
  assumes "buffers_ok F s"
  shows "shapes_of (buf_value s) i = None \<longleftrightarrow> i \<notin> made s"
    and "exists_with (shapes_of (buf_value s)) i Q \<longleftrightarrow>
      i \<in> made s \<and> Q \<lparr>sh_size = lb_size (buf_at s i), sh_limit = max_size (buf_at s i), sh_alloc = alloc_of s i\<rparr>"
  using assms by (simp_all add: shape_of_object exists_with_def)

lemma buf_call_does:
  assumes ok: "buffers_ok F s" and c: "call_ok p F (shapes_of (buf_value s)) op"
  shows "does p F op s"
  using c new_does [OF ok] destroy_does [OF ok] append_does [OF ok] insert_does [OF ok] erase_does [OF ok]
    size_calls_do [OF ok] assign_does [OF ok]
  by (cases op) (simp_all only: call_ok.simps shape_iff [OF ok] shape.simps simp_thms)


text \<open>
  So every call of a permitted program is defined, and does to the values what the specification says:
  the contract \<open>simulation\<close> of \<open>Programs\<close>. What depends on the values in it, \<open>permitted\<close> decides from
  the shapes.
\<close>

interpretation buffer_programs: simulation "\<lambda>x. buf_call (fst x)" "\<lambda>x. buf_effect (fst x) (snd x)"
  "\<lambda>x. buf_rel (snd x)" "\<lambda>x A. call_ok (fst x) (snd x) (shapes_of A)"
proof unfold_locales
  fix x A s op
  assume "buf_rel (snd x) A s" and "call_ok (fst x) (snd x) (shapes_of A) op"
  then show "\<exists>s' r A'. buf_call (fst x) op s = Some (s', r) \<and> buf_effect (fst x) (snd x) op A r A'
      \<and> buf_rel (snd x) A' s'"
    using buf_call_does [of "snd x" s "fst x" op] unfolding does_def buf_rel_def by blast
qed

lemma permitted_all_ok:
  "permitted p F (shapes_of A) ops \<Longrightarrow>
    all_ok (\<lambda>A. call_ok p F (shapes_of A)) (buf_effect p F) ops A"
proof (induction ops arbitrary: A)
  case Nil
  then show ?case by simp
next
  case (Cons op ops)
  then show ?case using effect_shape [of p F op A] by auto
qed

section \<open>Properties\<close>

lemma no_buffers_ok:
  assumes "heap_ok h"
  shows "buf_rel (blocks h) (\<lambda>_. None) (no_buffers h)"
  using assms by (auto simp: buf_rel_def buffers_ok_def no_buffers_def buf_value_def fun_eq_iff)

lemma program_runs:
  assumes "heap_ok h" and "permitted p (blocks h) (\<lambda>_. None) ops"
  shows "\<exists>s rs. exec_all (buf_call p) ops (no_buffers h) = Some (s, rs)
    \<and> spec_all (buf_effect p (blocks h)) ops (\<lambda>_. None) rs (buf_value s) \<and> buffers_ok (blocks h) s"
proof -
  have "shapes_of (\<lambda>_. None) = (\<lambda>_. None)" by (simp add: shapes_of_def fun_eq_iff)
  then have "all_ok (\<lambda>A. call_ok p (blocks h) (shapes_of A)) (buf_effect p (blocks h)) ops (\<lambda>_. None)"
    using permitted_all_ok [of p "blocks h" "\<lambda>_. None" ops] assms(2) by simp
  then show ?thesis
    using buffer_programs.run [of "(p, blocks h)" "\<lambda>_. None" "no_buffers h" ops] no_buffers_ok [OF assms(1)]
    by (auto simp: buf_rel_def)
qed

text \<open>Blocks are lost by move assignments that propagate, one by each at most.\<close>

fun is_move_assign :: "buf_op \<Rightarrow> bool" where
  "is_move_assign (Buf_move_assign i j) = True"
| "is_move_assign op = False"

lemma buf_call_lost:
  assumes "buf_call p op s = Some (s', r)"
  shows "lost s' = lost s \<or> p \<and> is_move_assign op \<and> (\<exists>b. lost s' = lost s \<union> set_option b)"
  using assms
  by (cases op) (auto simp: done_call_def after_call_def take_over_def
      split: option.splits prod.splits sum.splits if_splits)

lemma program_lost:
  assumes "exec_all (buf_call p) ops s = Some (s', rs)" and "finite (lost s)"
  shows "finite (lost s')
    \<and> card (lost s') \<le> card (lost s) + (if p then length (filter is_move_assign ops) else 0)"
  using assms
proof (induction ops arbitrary: s rs)
  case Nil
  then show ?case by simp
next
  case (Cons op ops)
  then obtain s1 r rs' where 1: "buf_call p op s = Some (s1, r)" "exec_all (buf_call p) ops s1 = Some (s', rs')"
    by (auto split: option.splits)
  have "finite (lost s1) \<and> card (lost s1) \<le> card (lost s) + (if p \<and> is_move_assign op then 1 else 0)"
    using buf_call_lost [OF 1(1)]
  proof (elim disjE conjE exE)
    fix b assume "p" "is_move_assign op" "lost s1 = lost s \<union> set_option b"
    then show ?thesis using Cons.prems(2) by (cases b) (auto simp: card_insert_if)
  qed (use Cons.prems(2) in simp)
  then show ?case using Cons.IH [OF 1(2)] by auto
qed

text \<open>
  C6. Buffers are values. A permitted program makes any number of buffers and calls what it likes on
  them, in any order, assignments of a buffer to itself included where they are defined. Every call
  returns, and what it does to the bytes, the limit, the allocator and the existence of the buffers,
  its exceptions included, is what the specification says of the one or two it is called on; all other
  buffers and the memory of the rest of the program are as before. This holds for allocators that
  propagate on move assignment, where the whole value is moved and the source is left empty, and for
  those that do not, where only the bytes are copied and the source keeps them, although the
  documentation promises an empty source.
\<close>

theorem linear_buffers_are_values:
  assumes "heap_ok h" and "permitted propagate (blocks h) (\<lambda>_. None) ops"
  shows "\<exists>s rs. exec_all (buf_call propagate) ops (no_buffers h) = Some (s, rs)
    \<and> spec_all (buf_effect propagate (blocks h)) ops (\<lambda>_. None) rs (buf_value s)
    \<and> (\<forall>e cs. blocks h e = Some cs \<longrightarrow> blocks (memory s) e = Some cs)"
  using program_runs [OF assms] buffers_okD(4) by blast

inductive_simps effect_of_calls:
  "buf_effect p F (Buf_new i a m) A r A'"
  "buf_effect p F (Buf_append i src) A r A'"
  "buf_effect p F (Buf_move_assign i j) A r A'"

theorem linear_buffers_are_values_witness:
  "\<forall>propagate. \<exists>s rs. exec_all (buf_call propagate)
       [Buf_new 0 7 100, Buf_append 0 (Foreign 0 0 2), Buf_new 1 8 1, Buf_append 1 (Of_buffer 0 0 2),
        Buf_move_assign 1 0] (no_buffers mem0) = Some (s, rs)
     \<and> rs = [Inr (), Inr (), Inr (), Inl length_error, Inr ()]
     \<and> map (buf_value s) [0, 1] =
         (if propagate then [Some ([], 100, 7), Some (take 2 (the (blocks mem0 0)), 100, 7)]
          else [Some (take 2 (the (blocks mem0 0)), 100, 7), Some (take 2 (the (blocks mem0 0)), 1, 8)])"
proof
  fix propagate
  let ?ops = "[Buf_new 0 7 100, Buf_append 0 (Foreign 0 0 2), Buf_new 1 8 1, Buf_append 1 (Of_buffer 0 0 2),
        Buf_move_assign 1 0]"
  have ok: "heap_ok mem0" using buf0_ok by (simp add: lb_ok_def)
  have block: "\<exists>cs. blocks mem0 0 = Some cs \<and> 2 \<le> length cs" by (simp add: mem0_def)
  then have "permitted propagate (blocks mem0) (\<lambda>_. None) ?ops"
    by (auto simp: exists_with_def reshape_def sized_def size_max_def)
  from linear_buffers_are_values [OF ok this] obtain s rs where
    r: "exec_all (buf_call propagate) ?ops (no_buffers mem0) = Some (s, rs)"
    and v: "spec_all (buf_effect propagate (blocks mem0)) ?ops (\<lambda>_. None) rs (buf_value s)" by blast
  show "\<exists>s rs. exec_all (buf_call propagate) ?ops (no_buffers mem0) = Some (s, rs)
     \<and> rs = [Inr (), Inr (), Inr (), Inl length_error, Inr ()]
     \<and> map (buf_value s) [0, 1] =
         (if propagate then [Some ([], 100, 7), Some (take 2 (the (blocks mem0 0)), 100, 7)]
          else [Some (take 2 (the (blocks mem0 0)), 100, 7), Some (take 2 (the (blocks mem0 0)), 1, 8)])"
    using r v block by (auto simp: spec_all_Cons effect_of_calls room_def)
qed

text \<open>
  C7. After any permitted program every buffer is well formed: its block is live and as long as its
  capacity, its size is within it, and it owns the block alone. Every block in the memory is as it was
  at the start, belongs to a buffer, or is lost: live, but nobody's. If the allocator does not propagate
  on move assignment, no block is ever lost, and when all buffers are gone the memory is as it was. If
  it does, as \<^verbatim>\<open>std::allocator\<close>, a move assignment leaks the block of its target, and
  nothing else does: there are no more lost blocks than move assignments.
\<close>

theorem linear_buffers_well_formed:
  assumes "heap_ok h" and "permitted propagate (blocks h) (\<lambda>_. None) ops"
  shows "\<exists>s rs. exec_all (buf_call propagate) ops (no_buffers h) = Some (s, rs)
    \<and> (\<forall>i \<in> made s. lb_ok (buf_at s i) (memory s)
         \<and> (\<forall>j \<in> made s - {i}. data_block (buf_at s i) = None
               \<or> data_block (buf_at s j) \<noteq> data_block (buf_at s i)))
    \<and> (\<forall>b. blocks (memory s) b = blocks h b \<or> (\<exists>i \<in> made s. data_block (buf_at s i) = Some b)
         \<or> b \<in> lost s)
    \<and> (\<forall>b \<in> lost s. blocks (memory s) b \<noteq> None \<and> blocks h b = None
         \<and> (\<forall>i \<in> made s. data_block (buf_at s i) \<noteq> Some b))
    \<and> finite (lost s)
    \<and> card (lost s) \<le> (if propagate then length (filter is_move_assign ops) else 0)"
proof -
  from program_runs [OF assms] obtain s rs where
    r: "exec_all (buf_call propagate) ops (no_buffers h) = Some (s, rs)" and ok: "buffers_ok (blocks h) s"
    by blast
  have "blocks (memory s) b = blocks h b \<or> (\<exists>i \<in> made s. data_block (buf_at s i) = Some b) \<or> b \<in> lost s" for b
    using buffers_okD(4) [OF ok, of b] buffers_okD(6) [OF ok, of b]
    by (cases "blocks h b"; cases "blocks (memory s) b") auto
  moreover have "data_block (buf_at s i) = None \<or> data_block (buf_at s j) \<noteq> data_block (buf_at s i)"
    if "i \<in> made s" "j \<in> made s - {i}" for i j
    using other_block [OF ok that(1), of j] that(2) by blast
  moreover have "finite (lost s)"
    and "card (lost s) \<le> (if propagate then length (filter is_move_assign ops) else 0)"
    using program_lost [OF r] by (simp_all add: no_buffers_def)
  ultimately show ?thesis using r buffers_okD(2,7,8) [OF ok] by blast
qed

text \<open>A buffer with a block that is moved to itself ends empty, and its block is lost.\<close>

lemma self_move_leaks:
  "map_option (\<lambda>(s, rs). (lost s, rs, buf_value s 0))
      (exec_all (buf_call True) [Buf_new 0 1 50, Buf_append 0 (Foreign 0 0 2), Buf_move_assign 0 0] (no_buffers mem0))
    = Some ({2}, [Inr (), Inr (), Inr ()], Some ([], 50, 1))"
  by (simp add: no_buffers_def done_call_def make_buf_def set_buf_def take_over_def after_call_def mem0_def
      lb_new_def lb_append_def reallocate_def calculate_capacity_def sz_mul_def allocate_def memcpy_def overlap_def
      memmove_def mem_read_def mem_write_def deallocate_def block_ptr_def splice_def lb_move_assign_def
      lb_move_assign_true_def buf_value_def content_def)

theorem linear_buffers_well_formed_witness:
  "(\<exists>s rs. exec_all (buf_call False)
       [Buf_new 0 1 50, Buf_append 0 (Foreign 0 0 2), Buf_new 1 2 50, Buf_move_assign 1 0, Buf_destroy 0]
       (no_buffers mem0) = Some (s, rs)
     \<and> (\<forall>b. blocks (memory s) b = blocks mem0 b \<or> (\<exists>i \<in> made s. data_block (buf_at s i) = Some b)))
   \<and> (\<exists>s rs. exec_all (buf_call True)
       [Buf_new 0 1 50, Buf_append 0 (Foreign 0 0 2), Buf_move_assign 0 0] (no_buffers mem0) = Some (s, rs)
     \<and> lost s = {2} \<and> blocks (memory s) 2 \<noteq> None
     \<and> (\<forall>b. blocks (memory s) b = blocks mem0 b \<or> (\<exists>i \<in> made s. data_block (buf_at s i) = Some b) \<or> b = 2))"
proof -
  have ok: "heap_ok mem0" using buf0_ok by (simp add: lb_ok_def)
  have block: "\<exists>cs. blocks mem0 0 = Some cs \<and> 2 \<le> length cs" by (simp add: mem0_def)
  let ?keep = "[Buf_new 0 1 50, Buf_append 0 (Foreign 0 0 2), Buf_new 1 2 50, Buf_move_assign 1 0, Buf_destroy 0]"
    and ?leak = "[Buf_new 0 1 50, Buf_append 0 (Foreign 0 0 2), Buf_move_assign 0 0]"
  have "permitted False (blocks mem0) (\<lambda>_. None) ?keep" and "permitted True (blocks mem0) (\<lambda>_. None) ?leak"
    using block by (auto simp: exists_with_def reshape_def sized_def size_max_def)
  note keep = linear_buffers_well_formed [OF ok this(1)] and leak = linear_buffers_well_formed [OF ok this(2)]
  from keep obtain s rs where s: "exec_all (buf_call False) ?keep (no_buffers mem0) = Some (s, rs)"
    "\<forall>b. blocks (memory s) b = blocks mem0 b \<or> (\<exists>i \<in> made s. data_block (buf_at s i) = Some b) \<or> b \<in> lost s"
    "finite (lost s)" "card (lost s) \<le> 0" by auto
  from leak obtain t us where t: "exec_all (buf_call True) ?leak (no_buffers mem0) = Some (t, us)"
    "\<forall>b. blocks (memory t) b = blocks mem0 b \<or> (\<exists>i \<in> made t. data_block (buf_at t i) = Some b) \<or> b \<in> lost t"
    "\<forall>b \<in> lost t. blocks (memory t) b \<noteq> None" by auto
  have "lost t = {2}" using self_move_leaks t(1) by simp
  then show ?thesis using s t by auto
qed

end
