(* ===== verification/SocksProtocol.thy ===== *)
theory SocksProtocol
  imports Prelude
begin

text \<open>
  \<^verbatim>\<open>socks/constants.hpp\<close>, \<^verbatim>\<open>socks/detail/protocol.hpp\<close> and
  \<^verbatim>\<open>protocol.cpp\<close>: the sizes and the encoders of the SOCKS packets, and decoders, written from
  the formats of the protocol documents, against which the encoders are verified. An encoder
  writes through a pointer; here it returns the bytes it writes. \<open>None\<close> is the exception of
  \<^verbatim>\<open>to_v4\<close> for a version 6 address, which ends the program in a function that must not
  throw.
\<close>

unbundle bit_operations_syntax

section \<open>Constants and addresses\<close>

text \<open>The enumerations are over \<^verbatim>\<open>uint8_t\<close>, and a server's byte is cast to them.\<close>

type_synonym command = u8
type_synonym auth_method = u8

definition cmd_connect :: command where "cmd_connect = 1"
definition cmd_bind :: command where "cmd_bind = 2"
definition cmd_bind_udp :: command where "cmd_bind_udp = 3"

definition auth_none :: auth_method where "auth_none = 0"
definition auth_gssapi :: auth_method where "auth_gssapi = 1"
definition auth_username_password :: auth_method where "auth_username_password = 2"
definition auth_no_acceptable :: auth_method where "auth_no_acceptable = 0xff"

text \<open>\<^verbatim>\<open>ip::tcp::endpoint\<close>: an address of either version and a port.\<close>

datatype endpoint =
    Ep_v4 u32 u16
  | Ep_v6 "128 word" u16

fun is_v4 :: "endpoint \<Rightarrow> bool" where
  "is_v4 (Ep_v4 a p) = True"
| "is_v4 (Ep_v6 a p) = False"

fun ep_port :: "endpoint \<Rightarrow> u16" where
  "ep_port (Ep_v4 a p) = p"
| "ep_port (Ep_v6 a p) = p"

definition default_endpoint :: endpoint where
  "default_endpoint = Ep_v4 0 0"

text \<open>The bytes of a number in network order, as \<^verbatim>\<open>to_bytes\<close> of an address gives them.\<close>

fun be_bytes :: "nat \<Rightarrow> 'a::len word \<Rightarrow> bytes" where
  "be_bytes 0 w = []"
| "be_bytes (Suc n) w = be_bytes n (drop_bit 8 w) @ [ucast w]"

definition port_bytes :: "u16 \<Rightarrow> bytes" where
  "port_bytes port = [ucast (drop_bit 8 port AND 0xff), ucast (port AND 0xff)]"

section \<open>Sizes\<close>

definition get_exec4_packet_size :: "endpoint \<Rightarrow> bytes \<Rightarrow> bytes \<Rightarrow> nat" where
  "get_exec4_packet_size remote remote_host user_id =
     (if remote_host = [] \<and> \<not> is_v4 remote then 0
      else
        (let size = 1 + 1 + 2 + 4; size = size + (length user_id + 1)
         in if remote_host \<noteq> [] then size + (length remote_host + 1) else size))"

definition get_greet_packet_size :: "auth_method list \<Rightarrow> nat" where
  "get_greet_packet_size auth_methods =
     (if length auth_methods > 255 then 0 else length auth_methods + 2)"

definition get_login_packet_size :: "bytes \<Rightarrow> bytes \<Rightarrow> nat" where
  "get_login_packet_size username password =
     (if length username > 255 \<or> length password > 255 then 0
      else length username + length password + 3)"

definition get_exec5_packet_size :: "command \<Rightarrow> endpoint \<Rightarrow> bytes \<Rightarrow> u16 \<Rightarrow> nat" where
  "get_exec5_packet_size cmd remote remote_host port =
     (if length remote_host > 255 then 0
      else 6 + (if remote_host \<noteq> [] then length remote_host + 1 else if is_v4 remote then 4 else 16))"

section \<open>Encoders\<close>

definition encode_exec4_packet :: "command \<Rightarrow> endpoint \<Rightarrow> bytes \<Rightarrow> u16 \<Rightarrow> bytes \<Rightarrow> bytes option" where
  "encode_exec4_packet cmd remote remote_host port user_id =
     (let head = [4, cmd] @ port_bytes port;
          tail = user_id @ [0] @ (if remote_host \<noteq> [] then remote_host @ [0] else [])
      in if remote_host = []
         then (case remote of Ep_v4 a p \<Rightarrow> Some (head @ be_bytes 4 a @ tail) | Ep_v6 a p \<Rightarrow> None)
         else Some (head @ [0, 0, 0, 1] @ tail))"

definition encode_greet_packet :: "auth_method list \<Rightarrow> bytes" where
  "encode_greet_packet auth_methods = [5, of_nat (length auth_methods)] @ auth_methods"

definition encode_login_packet :: "bytes \<Rightarrow> bytes \<Rightarrow> bytes" where
  "encode_login_packet username password =
     [1, of_nat (length username)] @ username @ [of_nat (length password)] @ password"

definition encode_exec5_packet :: "command \<Rightarrow> endpoint \<Rightarrow> bytes \<Rightarrow> u16 \<Rightarrow> bytes" where
  "encode_exec5_packet cmd remote remote_host port =
     [5, cmd, 0] @
     (if remote_host \<noteq> [] then [3, of_nat (length remote_host)] @ remote_host @ port_bytes port
      else
        (let rport = ep_port remote in
         (case remote of
            Ep_v4 a p \<Rightarrow> [1] @ be_bytes 4 a
          | Ep_v6 a p \<Rightarrow> [4] @ be_bytes 16 a) @ port_bytes rport))"

section \<open>The formats, as a server reads them\<close>

datatype target =
    T_v4 u32
  | T_v6 "128 word"
  | T_host bytes

fun be_val :: "bytes \<Rightarrow> nat" where
  "be_val bs = foldl (\<lambda>v b. v * 256 + unat b) 0 bs"

text \<open>RFC 1928, section 4: VER CMD RSV ATYP DST.ADDR DST.PORT.\<close>

definition decode_exec5 :: "bytes \<Rightarrow> (command \<times> target \<times> u16) option" where
  "decode_exec5 bs =
     (case bs of
        v # cmd # rsv # atyp # r \<Rightarrow>
          if v \<noteq> 5 \<or> rsv \<noteq> 0 then None
          else if atyp = 1 \<and> length r = 6
          then Some (cmd, T_v4 (of_nat (be_val (take 4 r))), of_nat (be_val (drop 4 r)))
          else if atyp = 4 \<and> length r = 18
          then Some (cmd, T_v6 (of_nat (be_val (take 16 r))), of_nat (be_val (drop 16 r)))
          else if atyp = 3
          then (case r of
                  [] \<Rightarrow> None
                | n # r' \<Rightarrow>
                    if length r' = unat n + 2
                    then Some (cmd, T_host (take (unat n) r'), of_nat (be_val (drop (unat n) r')))
                    else None)
          else None
      | _ \<Rightarrow> None)"

text \<open>RFC 1928, section 3, and RFC 1929, section 2.\<close>

definition decode_greet :: "bytes \<Rightarrow> auth_method list option" where
  "decode_greet bs =
     (case bs of v # n # r \<Rightarrow> if v = 5 \<and> length r = unat n then Some r else None | _ \<Rightarrow> None)"

definition decode_login :: "bytes \<Rightarrow> (bytes \<times> bytes) option" where
  "decode_login bs =
     (case bs of
        v # n # r \<Rightarrow>
          (case drop (unat n) r of
             m # p \<Rightarrow> if v = 1 \<and> unat n \<le> length r \<and> length p = unat m then Some (take (unat n) r, p) else None
           | [] \<Rightarrow> None)
      | _ \<Rightarrow> None)"

text \<open>
  SOCKS4 and its 4A extension: VN CD DSTPORT DSTIP USERID NULL, and with the address 0.0.0.x the
  host name and a NULL.
\<close>

definition decode_exec4 :: "bytes \<Rightarrow> (command \<times> target \<times> u16 \<times> bytes) option" where
  "decode_exec4 bs =
     (case bs of
        v # cmd # p1 # p2 # i1 # i2 # i3 # i4 # r \<Rightarrow>
          (let user = takeWhile (\<lambda>b. b \<noteq> 0) r; r' = dropWhile (\<lambda>b. b \<noteq> 0) r; port = of_nat (be_val [p1, p2]) in
           case r' of
             [] \<Rightarrow> None
           | z # r2 \<Rightarrow>
               if v \<noteq> 4 then None
               else if i1 = 0 \<and> i2 = 0 \<and> i3 = 0 \<and> i4 \<noteq> 0
               then (if dropWhile (\<lambda>b. b \<noteq> 0) r2 = [0]
                     then Some (cmd, T_host (takeWhile (\<lambda>b. b \<noteq> 0) r2), port, user) else None)
               else if r2 = [] then Some (cmd, T_v4 (of_nat (be_val [i1, i2, i3, i4])), port, user) else None)
      | _ \<Rightarrow> None)"

section \<open>Facts\<close>

lemma length_be_bytes [simp]: "length (be_bytes n w) = n"
  by (induction n w rule: be_bytes.induct) auto

lemma unat_ucast_8: "unat (ucast (w :: 'a::len word) :: u8) = unat w mod 256"
  by (simp add: unsigned_ucast_eq take_bit_eq_mod)

lemma be_val_be_bytes: "be_val (be_bytes n w) = unat w mod 256 ^ n"
proof (induction n w rule: be_bytes.induct)
  case (2 n w)
  have d: "unat (drop_bit 8 w) = unat w div 256"
    unfolding unat_drop_bit_eq by (simp add: drop_bit_eq_div)
  have "be_val (be_bytes (Suc n) w) = be_val (be_bytes n (drop_bit 8 w)) * 256 + unat w mod 256"
    by (simp add: unat_ucast_8)
  also have "\<dots> = (unat w div 256 mod 256 ^ n) * 256 + unat w mod 256"
    using 2 by (simp add: d)
  also have "\<dots> = unat w mod (256 * 256 ^ n)"
    by (simp add: mod_mult2_eq mult.commute)
  finally show ?case by simp
qed simp

lemma be_val_v4: "of_nat (be_val (be_bytes 4 (a :: u32))) = a"
  using unsigned_less [of a, where ?'a = nat] by (simp only: be_val_be_bytes) simp

lemma be_val_v6: "of_nat (be_val (be_bytes 16 (a :: 128 word))) = a"
  using unsigned_less [of a, where ?'a = nat] by (simp only: be_val_be_bytes) simp

lemma port_bytes_be: "port_bytes p = be_bytes 2 p"
proof -
  have m: "(x :: u16) AND 0xff = take_bit 8 x" for x
    by (simp add: take_bit_eq_mask mask_eq_exp_minus_1)
  have "ucast (x AND 0xff) = (ucast x :: u8)" for x :: u16
    unfolding m by (rule bit_word_eqI) (simp add: bit_simps)
  then show ?thesis by (simp add: port_bytes_def numeral_2_eq_2)
qed

lemma be_val_port: "of_nat (be_val (port_bytes (p :: u16))) = p"
  unfolding port_bytes_be using unsigned_less [of p, where ?'a = nat] by (simp only: be_val_be_bytes) simp

lemma length_port_bytes [simp]: "length (port_bytes p) = 2"
  by (simp add: port_bytes_def)

declare be_val.simps [simp del]

lemma unat_of_nat_8: "n < 256 \<Longrightarrow> unat (of_nat n :: u8) = n"
  by (simp add: unat_of_nat take_bit_nat_eq_self)

lemma length_exec5:
  "length remote_host \<le> 255 \<Longrightarrow>
     length (encode_exec5_packet cmd remote remote_host port) = get_exec5_packet_size cmd remote remote_host port"
  by (cases remote) (auto simp: encode_exec5_packet_def get_exec5_packet_size_def Let_def)

lemma length_exec4:
  "encode_exec4_packet cmd remote remote_host port user_id = Some bs \<Longrightarrow>
     length bs = get_exec4_packet_size remote remote_host user_id"
  by (cases remote) (auto simp: encode_exec4_packet_def get_exec4_packet_size_def Let_def split: if_splits)

lemma length_greet:
  "length ms \<le> 255 \<Longrightarrow> length (encode_greet_packet ms) = get_greet_packet_size ms"
  by (simp add: encode_greet_packet_def get_greet_packet_size_def)

lemma length_login:
  "length u \<le> 255 \<Longrightarrow> length p \<le> 255 \<Longrightarrow>
     length (encode_login_packet u p) = get_login_packet_size u p"
  by (simp add: encode_login_packet_def get_login_packet_size_def)

lemma be_bytes_4:
  "\<exists>b1 b2 b3 b4. be_bytes 4 w = [b1, b2, b3, b4]"
proof -
  obtain b1 r1 where 1: "be_bytes 4 w = b1 # r1" "length r1 = 3"
    using length_be_bytes [of 4 w] by (cases "be_bytes 4 w") auto
  then obtain b2 r2 where 2: "r1 = b2 # r2" "length r2 = 2" by (cases r1) auto
  then obtain b3 r3 where 3: "r2 = b3 # r3" "length r3 = 1" by (cases r2) auto
  then obtain b4 where "r3 = [b4]" by (cases r3) auto
  then show ?thesis using 1 2 3 by simp
qed

lemma exec5_decodes:
  assumes "length remote_host \<le> 255"
  shows "decode_exec5 (encode_exec5_packet cmd remote remote_host port) =
      Some (cmd,
        (if remote_host \<noteq> [] then T_host remote_host
         else case remote of Ep_v4 a p \<Rightarrow> T_v4 a | Ep_v6 a p \<Rightarrow> T_v6 a),
        (if remote_host \<noteq> [] then port else ep_port remote))"
proof (cases "remote_host = []")
  case False
  have u: "unat (of_nat (length remote_host) :: u8) = length remote_host"
    by (rule unat_of_nat_8) (use assms in simp)
  show ?thesis using False assms u
    by (simp add: encode_exec5_packet_def decode_exec5_def be_val_port)
next
  case True
  then show ?thesis
    by (cases remote) (auto simp: encode_exec5_packet_def decode_exec5_def Let_def
        be_val_port be_val_v4 be_val_v6)
qed

section \<open>Properties\<close>

text \<open>
  C23. A SOCKS5 request of the announced size, read by the format of the protocol, is the command
  with its target: the host name and the given port, or the endpoint's address and its port.
\<close>

theorem exec5_round_trip:
  assumes "length remote_host \<le> 255"
  shows "length (encode_exec5_packet cmd remote remote_host port) =
      get_exec5_packet_size cmd remote remote_host port
    \<and> decode_exec5 (encode_exec5_packet cmd remote remote_host port) =
      Some (cmd,
        (if remote_host \<noteq> [] then T_host remote_host
         else case remote of Ep_v4 a p \<Rightarrow> T_v4 a | Ep_v6 a p \<Rightarrow> T_v6 a),
        (if remote_host \<noteq> [] then port else ep_port remote))"
  using exec5_decodes [OF assms] length_exec5 [OF assms] by simp

theorem exec5_round_trip_witness:
  "decode_exec5 (encode_exec5_packet cmd_connect default_endpoint [104, 105] 80) =
     Some (cmd_connect, T_host [104, 105], 80)"
  using exec5_round_trip [of "[104, 105]" cmd_connect default_endpoint 80] by simp

text \<open>
  The same for the greeting and for the login: what the server reads are the methods, the user
  name and the password.
\<close>

theorem greet_login_round_trip:
  assumes "length ms \<le> 255" and "length user \<le> 255" and "length pw \<le> 255"
  shows "decode_greet (encode_greet_packet ms) = Some ms \<and>
    length (encode_greet_packet ms) = get_greet_packet_size ms \<and>
    decode_login (encode_login_packet user pw) = Some (user, pw) \<and>
    length (encode_login_packet user pw) = get_login_packet_size user pw"
  using assms unat_of_nat_8 [of "length ms"] unat_of_nat_8 [of "length user"] unat_of_nat_8 [of "length pw"]
  by (simp add: get_greet_packet_size_def get_login_packet_size_def encode_greet_packet_def decode_greet_def
      encode_login_packet_def decode_login_def)

theorem greet_login_round_trip_witness:
  "decode_greet (encode_greet_packet [auth_none, auth_username_password]) =
     Some [auth_none, auth_username_password] \<and>
   decode_login (encode_login_packet [117] [112, 119]) = Some ([117], [112, 119])"
  using greet_login_round_trip [of "[auth_none, auth_username_password]" "[117]" "[112, 119]"] by simp

text \<open>
  A SOCKS4 request: of the announced size, and read back as the command, the target, the port
  argument and the user, provided the two strings hold no NULL and the address is not of the form
  0.0.0.x that marks a host name.
\<close>

theorem exec4_round_trip:
  assumes "0 \<notin> set user" and "0 \<notin> set remote_host"
    and "remote_host = [] \<Longrightarrow> \<exists>p. remote = Ep_v4 a p \<and> take 3 (be_bytes 4 a) \<noteq> [0, 0, 0]"
  shows "\<exists>bs. encode_exec4_packet cmd remote remote_host port user = Some bs \<and>
    length bs = get_exec4_packet_size remote remote_host user \<and>
    decode_exec4 bs = Some (cmd, (if remote_host \<noteq> [] then T_host remote_host else T_v4 a), port, user)"
proof -
  have u: "\<forall>b \<in> set user. b \<noteq> 0" and h: "\<forall>b \<in> set remote_host. b \<noteq> 0" using assms by auto
  have stop: "r = [] \<or> \<not> hd r \<noteq> (0::u8)" if "r = 0 # q" for r q using that by simp
  note su = span_stop [OF u stop [OF refl]] and sh = span_stop [OF h, of "[0]", simplified]
  obtain p1 p2 where p: "port_bytes port = [p1, p2]" by (simp add: port_bytes_def)
  have pv: "of_nat (be_val [p1, p2]) = port" using be_val_port [of port] p by simp
  show ?thesis
  proof (cases "remote_host = []")
    case False
    then show ?thesis using sh pv
      by (auto simp: encode_exec4_packet_def decode_exec4_def get_exec4_packet_size_def Let_def p su)
  next
    case True
    then obtain q where q: "remote = Ep_v4 a q" "take 3 (be_bytes 4 a) \<noteq> [0, 0, 0]" using assms(3) by blast
    obtain b1 b2 b3 b4 where b: "be_bytes 4 a = [b1, b2, b3, b4]" using be_bytes_4 by blast
    have "of_nat (be_val [b1, b2, b3, b4]) = a" using be_val_v4 [of a] b by simp
    moreover have "\<not> (b1 = 0 \<and> b2 = 0 \<and> b3 = 0)" using q(2) b by (simp add: numeral_3_eq_3)
    ultimately show ?thesis using True q pv b
      by (auto simp: encode_exec4_packet_def decode_exec4_def get_exec4_packet_size_def Let_def p su)
  qed
qed

theorem exec4_round_trip_witness:
  "\<exists>bs. encode_exec4_packet cmd_connect default_endpoint [104] 80 [117] = Some bs \<and> length bs = 12 \<and>
     decode_exec4 bs = Some (cmd_connect, T_host [104], 80, [117])"
  using exec4_round_trip [of "[117]" "[104]" default_endpoint 0 cmd_connect 80]
  by (simp add: get_exec4_packet_size_def)

end
