(* ===== verification/SocksClient.thy ===== *)
theory SocksClient
  imports SocksProtocol DynamicBuffer
begin

text \<open>
  \<^verbatim>\<open>socks/detail/client.hpp\<close> and \<^verbatim>\<open>socks/impl/client.hpp\<close>: the composed
  operations of the SOCKS client. Each is a stackless coroutine; its resume points are the
  constructors of \<open>pc\<close>. Resuming it with an error code and a byte count gives its new state and
  the asynchronous operation it starts, or its completion. The socket and the server are the
  step relation \<open>env_step\<close>, which may fail every operation. The operations are templates over
  the DynamicBuffer, so they take its operations as an argument; what they do is proved from the
  laws of the interface and instantiated with the library's own adapter.
\<close>

section \<open>Coroutines\<close>

datatype pc = pc_start | pc_posted | pc_writing | pc_reading | pc_reading_address | pc_done

datatype 'r action =
    Post
  | Write cells
  | Read "ptr \<times> nat"
  | Complete 'r
  | Nothing

text \<open>Reading \<^verbatim>\<open>data[i]\<close>: outside the view, or never written, there is no value.\<close>

definition byte_at :: "cells \<Rightarrow> nat \<Rightarrow> u8 option" where
  "byte_at xs i = (if i < length xs then xs ! i else None)"

text \<open>
  What the operations have in common: the start, the step behind the write, and taking a reply of
  \<open>n\<close> bytes out of the buffer.
\<close>

definition start_write :: "'s dyn_ops \<Rightarrow> 's \<Rightarrow> (cxx_exception + (pc \<times> 's) \<times> 'r action) option" where
  "start_write ops s =
     (if op_size ops s = 0 then Some (Inr ((pc_posted, s), Post))
      else do { xs \<leftarrow> op_view ops s; Some (Inr ((pc_writing, s), Write xs)) })"

definition start_read ::
    "'s dyn_ops \<Rightarrow> nat \<Rightarrow> nat \<Rightarrow> pc \<Rightarrow> 's \<Rightarrow> (cxx_exception + (pc \<times> 's) \<times> 'r action) option" where
  "start_read ops sz n next_pc s =
     do {
       s1 \<leftarrow> op_consume ops sz s;
       ebind (op_prepare ops n s1) (\<lambda>(buf, s2). Some (Inr ((next_pc, s2), Read buf)))
     }"

definition take_reply :: "'s dyn_ops \<Rightarrow> nat \<Rightarrow> 's \<Rightarrow> (cxx_exception + cells \<times> 's) option" where
  "take_reply ops n s =
     ebind (op_commit ops n s)
       (\<lambda>s1. do { xs \<leftarrow> op_view ops s1; s2 \<leftarrow> op_consume ops n s1; Some (Inr (xs, s2)) })"

text \<open>
  An operation that writes its packet and reads one reply of \<open>n\<close> bytes. \<open>bad\<close> builds the
  completion for an error code, \<open>finish\<close> the one for a reply.
\<close>

definition request_resume ::
    "nat \<Rightarrow> (error_code \<Rightarrow> 'r) \<Rightarrow> (error_code \<Rightarrow> cells \<Rightarrow> 'r option) \<Rightarrow> 's dyn_ops \<Rightarrow>
     pc \<Rightarrow> 's \<Rightarrow> error_code \<Rightarrow> nat \<Rightarrow> (cxx_exception + (pc \<times> 's) \<times> 'r action) option" where
  "request_resume n bad finish ops p s ec sz =
     (if ec_failed ec then Some (Inr ((p, s), Complete (bad ec)))
      else
        (case p of
           pc_start \<Rightarrow> start_write ops s
         | pc_posted \<Rightarrow> Some (Inr ((pc_done, s), Complete (bad (ec_asio invalid_argument))))
         | pc_writing \<Rightarrow> start_read ops sz n pc_reading s
         | pc_reading \<Rightarrow>
             ebind (take_reply ops n s)
               (\<lambda>(xs, s'). do { r \<leftarrow> finish ec xs; Some (Inr ((pc_done, s'), Complete r)) })
         | _ \<Rightarrow> Some (Inr ((p, s), Nothing))))"

section \<open>SOCKS4\<close>

text \<open>
  The constructor of \<open>v4_exec_op\<close>: the size is that of a SOCKS4 packet, the call of
  \<open>encode_exec_packet\<close> has five arguments and is that of SOCKS5.
\<close>

definition v4_exec_new ::
    "'s dyn_ops \<Rightarrow> command \<Rightarrow> endpoint \<Rightarrow> bytes \<Rightarrow> u16 \<Rightarrow> bytes \<Rightarrow> 's \<Rightarrow> (cxx_exception + 's) option" where
  "v4_exec_new ops cmd remote remote_host port user_id s =
     (let sz = get_exec4_packet_size remote remote_host user_id in
      if sz \<noteq> 0
      then put_packet ops sz (map Some (encode_exec5_packet cmd remote remote_host port)) s
      else Some (Inr s))"

definition v4_status :: "error_code \<Rightarrow> u8 \<Rightarrow> error_code" where
  "v4_status ec status_code =
     (if status_code = 0x5a then ec
      else if status_code = 0x5b then ec_socks generic
      else if status_code = 0x5c then ec_socks identd_not_reachable
      else if status_code = 0x5d then ec_socks login_failed
      else ec)"

definition v4_exec_finish :: "error_code \<Rightarrow> cells \<Rightarrow> error_code option" where
  "v4_exec_finish ec data =
     do {
       null_byte \<leftarrow> byte_at data 0;
       status_code \<leftarrow> byte_at data 1;
       Some (if null_byte \<noteq> 0 then ec_socks invalid_version else v4_status ec status_code)
     }"

definition v4_exec_resume ::
    "'s dyn_ops \<Rightarrow> pc \<Rightarrow> 's \<Rightarrow> error_code \<Rightarrow> nat \<Rightarrow> (cxx_exception + (pc \<times> 's) \<times> error_code action) option" where
  "v4_exec_resume = request_resume (1 + 1 + 2 + 4) id v4_exec_finish"

text \<open>The two initiating functions of SOCKS4; both pass 0 as the port.\<close>

definition async_execute4_endpoint ::
    "'s dyn_ops \<Rightarrow> command \<Rightarrow> endpoint \<Rightarrow> bytes \<Rightarrow> 's \<Rightarrow>
     (cxx_exception + (pc \<times> 's) \<times> error_code action) option" where
  "async_execute4_endpoint ops cmd remote user_id s =
     ebind (v4_exec_new ops cmd remote [] 0 user_id s) (\<lambda>s1. v4_exec_resume ops pc_start s1 no_error 0)"

definition async_execute4_host ::
    "'s dyn_ops \<Rightarrow> command \<Rightarrow> bytes \<Rightarrow> u16 \<Rightarrow> bytes \<Rightarrow> 's \<Rightarrow>
     (cxx_exception + (pc \<times> 's) \<times> error_code action) option" where
  "async_execute4_host ops cmd remote port user_id s =
     ebind (v4_exec_new ops cmd default_endpoint remote 0 user_id s)
       (\<lambda>s1. v4_exec_resume ops pc_start s1 no_error 0)"

section \<open>SOCKS5: greeting and login\<close>

definition v5_greet_new :: "'s dyn_ops \<Rightarrow> auth_method list \<Rightarrow> 's \<Rightarrow> (cxx_exception + 's) option" where
  "v5_greet_new ops auth_methods s =
     (let sz = get_greet_packet_size auth_methods in
      if sz \<noteq> 0 then put_packet ops sz (map Some (encode_greet_packet auth_methods)) s
      else Some (Inr s))"

definition v5_greet_finish :: "error_code \<Rightarrow> cells \<Rightarrow> (error_code \<times> auth_method) option" where
  "v5_greet_finish ec data =
     do {
       version \<leftarrow> byte_at data 0;
       chosen_method \<leftarrow> byte_at data 1;
       Some (if version \<noteq> 5 then (ec_socks invalid_version, auth_no_acceptable)
             else if chosen_method = auth_no_acceptable
             then (ec_socks no_acceptable_auth_method, auth_no_acceptable)
             else (ec, chosen_method))
     }"

definition v5_greet_resume ::
    "'s dyn_ops \<Rightarrow> pc \<Rightarrow> 's \<Rightarrow> error_code \<Rightarrow> nat \<Rightarrow>
     (cxx_exception + (pc \<times> 's) \<times> (error_code \<times> auth_method) action) option" where
  "v5_greet_resume = request_resume 2 (\<lambda>ec. (ec, auth_no_acceptable)) v5_greet_finish"

definition async_greet ::
    "'s dyn_ops \<Rightarrow> auth_method list \<Rightarrow> 's \<Rightarrow>
     (cxx_exception + (pc \<times> 's) \<times> (error_code \<times> auth_method) action) option" where
  "async_greet ops auth_methods s =
     ebind (v5_greet_new ops auth_methods s) (\<lambda>s1. v5_greet_resume ops pc_start s1 no_error 0)"

definition v5_login_new :: "'s dyn_ops \<Rightarrow> bytes \<Rightarrow> bytes \<Rightarrow> 's \<Rightarrow> (cxx_exception + 's) option" where
  "v5_login_new ops username password s =
     (let sz = get_login_packet_size username password in
      if sz \<noteq> 0 then put_packet ops sz (map Some (encode_login_packet username password)) s
      else Some (Inr s))"

definition v5_login_finish :: "error_code \<Rightarrow> cells \<Rightarrow> error_code option" where
  "v5_login_finish ec data =
     do {
       version \<leftarrow> byte_at data 0;
       status_code \<leftarrow> byte_at data 1;
       Some (if version \<noteq> 1 then ec_socks invalid_auth_version
             else if status_code \<noteq> 0 then ec_socks login_failed
             else ec)
     }"

definition v5_login_resume ::
    "'s dyn_ops \<Rightarrow> pc \<Rightarrow> 's \<Rightarrow> error_code \<Rightarrow> nat \<Rightarrow> (cxx_exception + (pc \<times> 's) \<times> error_code action) option" where
  "v5_login_resume = request_resume 2 id v5_login_finish"

definition async_login ::
    "'s dyn_ops \<Rightarrow> bytes \<Rightarrow> bytes \<Rightarrow> 's \<Rightarrow> (cxx_exception + (pc \<times> 's) \<times> error_code action) option" where
  "async_login ops username password s =
     ebind (v5_login_new ops username password s) (\<lambda>s1. v5_login_resume ops pc_start s1 no_error 0)"

section \<open>SOCKS5: commands\<close>

definition v5_exec_new ::
    "'s dyn_ops \<Rightarrow> command \<Rightarrow> endpoint \<Rightarrow> bytes \<Rightarrow> u16 \<Rightarrow> 's \<Rightarrow> (cxx_exception + 's) option" where
  "v5_exec_new ops cmd remote remote_host port s =
     (let sz = get_exec5_packet_size cmd remote remote_host port in
      if sz \<noteq> 0
      then put_packet ops sz (map Some (encode_exec5_packet cmd remote remote_host port)) s
      else Some (Inr s))"

definition v5_status :: "error_code \<Rightarrow> u8 \<Rightarrow> error_code" where
  "v5_status ec status_code =
     (if status_code = 2 then ec_asio no_permission
      else if status_code = 3 then ec_asio network_unreachable
      else if status_code = 4 then ec_asio host_unreachable
      else if status_code = 5 then ec_asio connection_refused
      else if status_code = 6 then ec_asio timed_out
      else if status_code = 7 then ec_socks command_not_supported
      else if status_code = 8 then ec_asio address_family_not_supported
      else ec)"

text \<open>How many bytes follow the first five; \<open>sz\<close> is the count of the read that ended.\<close>

definition v5_address_size :: "nat \<Rightarrow> u8 \<Rightarrow> u8 \<Rightarrow> nat" where
  "v5_address_size sz address_type first_address_byte =
     (if address_type = 1 then 4 - 1
      else if address_type = 3 then unat first_address_byte
      else if address_type = 4 then 16 - 1
      else sz)"

definition v5_exec_resume ::
    "'s dyn_ops \<Rightarrow> pc \<Rightarrow> 's \<Rightarrow> error_code \<Rightarrow> nat \<Rightarrow> (cxx_exception + (pc \<times> 's) \<times> error_code action) option" where
  "v5_exec_resume ops p s ec sz =
     (if ec_failed ec then Some (Inr ((p, s), Complete ec))
      else
        (case p of
           pc_start \<Rightarrow> start_write ops s
         | pc_posted \<Rightarrow> Some (Inr ((pc_done, s), Complete (ec_asio invalid_argument)))
         | pc_writing \<Rightarrow> start_read ops sz 5 pc_reading s
         | pc_reading \<Rightarrow>
             ebind (take_reply ops 5 s)
               (\<lambda>(data, s1). do {
                  version \<leftarrow> byte_at data 0;
                  status_code \<leftarrow> byte_at data 1;
                  address_type \<leftarrow> byte_at data 3;
                  first_address_byte \<leftarrow> byte_at data 4;
                  (if version \<noteq> 5 then Some (Inr ((pc_done, s1), Complete (ec_socks invalid_version)))
                   else if status_code \<noteq> 0
                   then Some (Inr ((pc_done, s1), Complete (v5_status ec status_code)))
                   else
                     (let n = v5_address_size sz address_type first_address_byte + 2 in
                      ebind (op_prepare ops n s1)
                        (\<lambda>(buf, s2). Some (Inr ((pc_reading_address, s2), Read buf)))))
                })
         | pc_reading_address \<Rightarrow>
             ebind (op_commit ops sz s)
               (\<lambda>s1. do { s2 \<leftarrow> op_consume ops sz s1; Some (Inr ((pc_done, s2), Complete ec)) })
         | pc_done \<Rightarrow> Some (Inr ((p, s), Nothing))))"

definition async_execute5_endpoint ::
    "'s dyn_ops \<Rightarrow> command \<Rightarrow> endpoint \<Rightarrow> 's \<Rightarrow> (cxx_exception + (pc \<times> 's) \<times> error_code action) option" where
  "async_execute5_endpoint ops cmd remote s =
     ebind (v5_exec_new ops cmd remote [] 0 s) (\<lambda>s1. v5_exec_resume ops pc_start s1 no_error 0)"

definition async_execute5_host ::
    "'s dyn_ops \<Rightarrow> command \<Rightarrow> bytes \<Rightarrow> u16 \<Rightarrow> 's \<Rightarrow> (cxx_exception + (pc \<times> 's) \<times> error_code action) option" where
  "async_execute5_host ops cmd remote port s =
     ebind (v5_exec_new ops cmd default_endpoint remote port s)
       (\<lambda>s1. v5_exec_resume ops pc_start s1 no_error 0)"

section \<open>The socket and the server\<close>

text \<open>
  A configuration: the state of the operation, what it has started, the bytes the socket has sent
  and the bytes received for it. A write or a read may fail at any point.
\<close>

type_synonym ('s, 'r) config = "pc \<times> 's \<times> 'r action \<times> cells \<times> bytes"

type_synonym ('s, 'r) resumer =
  "'s dyn_ops \<Rightarrow> pc \<Rightarrow> 's \<Rightarrow> error_code \<Rightarrow> nat \<Rightarrow> (cxx_exception + (pc \<times> 's) \<times> 'r action) option"

inductive env_step :: "'s dyn_ops \<Rightarrow> ('s, 'r) resumer \<Rightarrow> ('s, 'r) config \<Rightarrow> ('s, 'r) config \<Rightarrow> bool"
  for ops resume where
    posted: "resume ops p s no_error 0 = Some (Inr ((p', s'), a)) \<Longrightarrow>
      env_step ops resume (p, s, Post, w, r) (p', s', a, w, r)"
  | written: "resume ops p s no_error (length xs) = Some (Inr ((p', s'), a)) \<Longrightarrow>
      env_step ops resume (p, s, Write xs, w, r) (p', s', a, w @ xs, r)"
  | write_failed: "ec_failed ec \<Longrightarrow> k \<le> length xs \<Longrightarrow>
      resume ops p s ec k = Some (Inr ((p', s'), a)) \<Longrightarrow>
      env_step ops resume (p, s, Write xs, w, r) (p', s', a, w @ take k xs, r)"
  | received: "length ys = snd buf \<Longrightarrow> op_write ops buf (map Some ys) s = Some s1 \<Longrightarrow>
      resume ops p s1 no_error (length ys) = Some (Inr ((p', s'), a)) \<Longrightarrow>
      env_step ops resume (p, s, Read buf, w, r) (p', s', a, w, r @ ys)"
  | read_failed: "ec_failed ec \<Longrightarrow> length ys \<le> snd buf \<Longrightarrow>
      op_write ops buf (map Some ys) s = Some s1 \<Longrightarrow>
      resume ops p s1 ec (length ys) = Some (Inr ((p', s'), a)) \<Longrightarrow>
      env_step ops resume (p, s, Read buf, w, r) (p', s', a, w, r @ ys)"

inductive_cases env_step_PostE: "env_step ops resume (p, s, Post, w, r) c"
inductive_cases env_step_WriteE: "env_step ops resume (p, s, Write xs, w, r) c"
inductive_cases env_step_ReadE: "env_step ops resume (p, s, Read buf, w, r) c"
inductive_simps env_step_Complete [simp]: "env_step ops resume (p, s, Complete res, w, r) c"

abbreviation env_steps :: "'s dyn_ops \<Rightarrow> ('s, 'r) resumer \<Rightarrow> ('s, 'r) config \<Rightarrow> ('s, 'r) config \<Rightarrow> bool" where
  "env_steps ops resume \<equiv> (env_step ops resume)\<^sup>*\<^sup>*"

section \<open>Operations with one reply\<close>

text \<open>
  The invariant of a run: the packet \<open>P\<close> is pending, or it has been sent and a reply of
  \<open>n\<close> bytes is pending, or the operation has completed, with the error of the socket or with
  what \<open>finish\<close> makes of exactly the reply.
\<close>

definition request_inv ::
    "('s \<Rightarrow> bool) \<Rightarrow> ('s \<Rightarrow> bool) \<Rightarrow> ('s \<Rightarrow> cells) \<Rightarrow> ('s \<Rightarrow> cells) \<Rightarrow> ('s \<Rightarrow> ptr \<times> nat) \<Rightarrow> ('s \<Rightarrow> nat) \<Rightarrow>
     nat \<Rightarrow> (error_code \<Rightarrow> 'r) \<Rightarrow> (error_code \<Rightarrow> cells \<Rightarrow> 'r option) \<Rightarrow> cells \<Rightarrow> nat \<Rightarrow>
     ('s, 'r) config \<Rightarrow> bool" where
  "request_inv ok ready rd wr region lim n bad finish P L c =
     (case c of (p, s, a, w, r) \<Rightarrow>
        (p = pc_writing \<and> ok s \<and> ready s \<and> lim s = L \<and> a = Write P \<and> w = [] \<and> r = [] \<and> rd s = P) \<or>
        (p = pc_reading \<and> ok s \<and> ready s \<and> lim s = L \<and> a = Read (region s) \<and> w = P \<and> r = [] \<and> rd s = [] \<and>
           length (wr s) = n \<and> snd (region s) = n) \<or>
        (\<exists>res. a = Complete res \<and>
           ((\<exists>ec. ec_failed ec \<and> res = bad ec) \<or>
            (w = P \<and> length r = n \<and> finish no_error (map Some r) = Some res))))"

context dynamic_buffer
begin

lemma start_write_ok:
  assumes "inv s" and "ready s" and "rd s \<noteq> []"
  shows "start_write ops s = Some (Inr ((pc_writing, s), Write (rd s)))"
  using assms by (simp add: start_write_def size_law view_law)

lemma start_read_ok:
  assumes "inv s" and "ready s" and "sz = length (rd s)" and "n \<le> lim s"
  shows "\<exists>s'. start_read ops sz n q s = Some (Inr ((q, s'), Read (region s'))) \<and> inv s' \<and> ready s' \<and>
    rd s' = [] \<and> length (wr s') = n \<and> snd (region s') = n \<and> lim s' = lim s"
proof -
  obtain s1 where s1: "op_consume ops sz s = Some s1" "inv s1" "rd s1 = []" "lim s1 = lim s"
    using consume_law [OF assms(1), of sz] assms(3) by auto
  then show ?thesis using prepare_law [OF s1(2), of n] assms(4) by (auto simp: start_read_def)
qed

lemma take_reply_ok:
  assumes "inv s" and "ready s" and "rd s = []" and "length (wr s) = n"
    and "op_write ops (region s) (map Some ys) s = Some s1" and "length ys = n"
  shows "\<exists>s'. take_reply ops n s1 = Some (Inr (map Some ys, s')) \<and> inv s' \<and> ready s' \<and> rd s' = [] \<and>
    lim s' = lim s"
proof -
  obtain s2 where s2: "op_commit ops n s1 = Some (Inr s2)" "inv s2" "ready s2" "rd s2 = map Some ys"
    "lim s2 = lim s"
    using write_commit [OF assms(1,2), of "map Some ys"] assms(3-6) by auto
  obtain s3 where "op_consume ops n s2 = Some s3" "inv s3" "ready s3" "rd s3 = []" "lim s3 = lim s2"
    using consume_law [OF s2(2), of n] s2(3,4) assms(6) by auto
  then show ?thesis using s2 view_law [OF s2(2,3)] by (auto simp: take_reply_def)
qed

lemma request_write_resume:
  assumes "inv s" and "ready s" and "n \<le> lim s"
  shows "\<exists>s'. request_resume n bad finish ops pc_writing s no_error (length (rd s)) =
      Some (Inr ((pc_reading, s'), Read (region s'))) \<and>
    inv s' \<and> ready s' \<and> rd s' = [] \<and> length (wr s') = n \<and> snd (region s') = n \<and> lim s' = lim s"
  using start_read_ok [OF assms(1,2) refl assms(3), of pc_reading] by (auto simp: request_resume_def)

lemma request_read_resume:
  assumes "inv s" and "ready s" and "rd s = []" and "length (wr s) = n" and "length ys = n"
    and "op_write ops (region s) (map Some ys) s = Some s1"
  shows "\<exists>s'. request_resume n bad finish ops pc_reading s1 no_error n =
      map_option (\<lambda>res. Inr ((pc_done, s'), Complete res)) (finish no_error (map Some ys))"
  using take_reply_ok [OF assms(1-4) assms(6,5)]
  by (cases "finish no_error (map Some ys)") (auto simp: request_resume_def)

lemma request_step:
  assumes "n \<le> L" and "request_inv inv ready rd wr region lim n bad finish P L c"
    and "env_step ops (request_resume n bad finish) c c'"
  shows "request_inv inv ready rd wr region lim n bad finish P L c'"
proof -
  obtain p s a w r where c: "c = (p, s, a, w, r)" by (cases c) auto
  from assms(2) [unfolded request_inv_def c prod.case]
  consider (wr) "p = pc_writing" "inv s" "ready s" "lim s = L" "a = Write P" "w = []" "r = []" "rd s = P"
    | (rd) "p = pc_reading" "inv s" "ready s" "lim s = L" "a = Read (region s)" "w = P" "r = []" "rd s = []"
        "length (wr s) = n" "snd (region s) = n"
    | (over) res where "a = Complete res" by blast
  then show ?thesis
  proof cases
    case wr
    have step: "env_step ops (request_resume n bad finish) (pc_writing, s, Write P, [], []) c'"
      using assms(3) wr by (simp add: c)
    then show ?thesis
      using request_write_resume [OF wr(2,3), of n bad finish] assms(1) wr(4,8)
      by (elim env_step_WriteE) (auto simp: request_inv_def request_resume_def)
  next
    case rd
    have step: "env_step ops (request_resume n bad finish) (pc_reading, s, Read (region s), P, []) c'"
      using assms(3) rd by (simp add: c)
    then consider (ok) ys s1 p' s' a' where "c' = (p', s', a', P, [] @ ys)" "length ys = n"
        "op_write ops (region s) (map Some ys) s = Some s1"
        "request_resume n bad finish ops pc_reading s1 no_error n = Some (Inr ((p', s'), a'))"
      | (failed) ec ys s1 p' s' a' where "c' = (p', s', a', P, [] @ ys)" "ec_failed ec"
        "request_resume n bad finish ops pc_reading s1 ec (length ys) = Some (Inr ((p', s'), a'))"
      by (elim env_step_ReadE) (metis rd(10))+
    then show ?thesis
    proof cases
      case ok
      obtain s3 where "request_resume n bad finish ops pc_reading s1 no_error n =
          map_option (\<lambda>res. Inr ((pc_done, s3), Complete res)) (finish no_error (map Some ys))"
        using request_read_resume [OF rd(2,3,8,9) ok(2,3), of bad finish] by blast
      then obtain res where "finish no_error (map Some ys) = Some res" "a' = Complete res"
        using ok(4) by (cases "finish no_error (map Some ys)") auto
      then show ?thesis using ok(1,2) by (auto simp: request_inv_def)
    next
      case failed
      then show ?thesis by (auto simp: request_inv_def request_resume_def)
    qed
  next
    case over
    then show ?thesis using assms(3) by (simp add: c)
  qed
qed

lemma request_steps:
  assumes "env_steps ops (request_resume n bad finish) c c'" and "n \<le> L"
    and "request_inv inv ready rd wr region lim n bad finish P L c"
  shows "request_inv inv ready rd wr region lim n bad finish P L c'"
  using assms(1) by induction (auto intro: assms(3) request_step [OF assms(2)])

text \<open>A run from a buffer that holds the packet: what it can complete with, and that it can.\<close>

lemma request_runs:
  assumes "inv s" and "ready s" and "rd s = P" and "P \<noteq> []" and "n \<le> lim s"
    and fin: "\<forall>ys. length ys = n \<longrightarrow> finish no_error (map Some ys) \<noteq> None"
  shows "request_resume n bad finish ops pc_start s no_error 0 = Some (Inr ((pc_writing, s), Write P))"
    and "env_steps ops (request_resume n bad finish) (pc_writing, s, Write P, [], []) (p, s', Complete res, w, r) \<Longrightarrow>
      (\<exists>ec. ec_failed ec \<and> res = bad ec) \<or>
      (w = P \<and> length r = n \<and> finish no_error (map Some r) = Some res)"
    and "length ys = n \<Longrightarrow> \<exists>s'. env_steps ops (request_resume n bad finish)
      (pc_writing, s, Write P, [], []) (pc_done, s', Complete (the (finish no_error (map Some ys))), P, ys)"
proof -
  show "request_resume n bad finish ops pc_start s no_error 0 = Some (Inr ((pc_writing, s), Write P))"
    using start_write_ok [OF assms(1,2)] assms(3,4) by (simp add: request_resume_def)
  have i: "request_inv inv ready rd wr region lim n bad finish P (lim s) (pc_writing, s, Write P, [], [])"
    using assms by (simp add: request_inv_def)
  show "env_steps ops (request_resume n bad finish) (pc_writing, s, Write P, [], []) (p, s', Complete res, w, r) \<Longrightarrow>
      (\<exists>ec. ec_failed ec \<and> res = bad ec) \<or>
      (w = P \<and> length r = n \<and> finish no_error (map Some r) = Some res)"
    by (drule request_steps [OF _ assms(5) i]) (auto simp: request_inv_def)
  assume len: "length ys = n"
  obtain s1 where s1: "request_resume n bad finish ops pc_writing s no_error (length P) =
      Some (Inr ((pc_reading, s1), Read (region s1)))" "inv s1" "ready s1" "rd s1 = []" "length (wr s1) = n"
    "snd (region s1) = n"
    using request_write_resume [OF assms(1,2,5), of bad finish] assms(3) by blast
  obtain s2 where s2: "op_write ops (region s1) (map Some ys) s1 = Some s2"
    using write_law [OF s1(2,3), of "map Some ys"] s1(5) len by auto
  obtain s3 where s3: "request_resume n bad finish ops pc_reading s2 no_error n =
      map_option (\<lambda>res. Inr ((pc_done, s3), Complete res)) (finish no_error (map Some ys))"
    using request_read_resume [OF s1(2-5) len s2, of bad finish] by blast
  obtain v where v: "finish no_error (map Some ys) = Some v" using fin len by auto
  have "env_step ops (request_resume n bad finish) (pc_writing, s, Write P, [], []) (pc_reading, s1, Read (region s1), [] @ P, [])"
    by (rule env_step.written) (rule s1(1))
  moreover have "env_step ops (request_resume n bad finish) (pc_reading, s1, Read (region s1), P, [])
      (pc_done, s3, Complete v, P, [] @ ys)"
    by (rule env_step.received [OF _ s2]) (use s1(6) s3 v len in simp_all)
  ultimately show "\<exists>s'. env_steps ops (request_resume n bad finish)
      (pc_writing, s, Write P, [], []) (pc_done, s', Complete (the (finish no_error (map Some ys))), P, ys)"
    using v by (intro exI [of _ s3]) (auto intro: rtranclp.rtrancl_into_rtrancl)
qed

lemma request_invalid:
  assumes "inv s" and "rd s = []"
  shows "request_resume n bad finish ops pc_start s no_error 0 = Some (Inr ((pc_posted, s), Post))"
    and "env_step ops (request_resume n bad finish) (pc_posted, s, Post, [], []) c \<longleftrightarrow>
      c = (pc_done, s, Complete (bad (ec_asio invalid_argument)), [], [])"
proof -
  show "request_resume n bad finish ops pc_start s no_error 0 = Some (Inr ((pc_posted, s), Post))"
    using assms by (simp add: request_resume_def start_write_def size_law)
  show "env_step ops (request_resume n bad finish) (pc_posted, s, Post, [], []) c \<longleftrightarrow>
      c = (pc_done, s, Complete (bad (ec_asio invalid_argument)), [], [])"
    by (auto elim!: env_step_PostE simp: request_resume_def intro!: env_step.posted)
qed

end

section \<open>The command operation of SOCKS5\<close>

text \<open>
  The replies, as RFC 1928 lays them out: version, status, a reserved byte, the type of the address,
  the address and two bytes of the port. An address of type 1 has four bytes, one of type 4 sixteen,
  one of type 3 starts with its length. For any other type the code takes another seven bytes.
\<close>

definition reply_size :: "u8 \<Rightarrow> u8 \<Rightarrow> nat" where
  "reply_size address_type first_byte =
     (if address_type = 1 then 4 + 4 + 2
      else if address_type = 4 then 4 + 16 + 2
      else if address_type = 3 then 4 + (1 + unat first_byte) + 2
      else 5 + 7)"

definition reply_errors :: "(u8 \<times> error_code) list" where
  "reply_errors =
     [(2, ec_asio no_permission), (3, ec_asio network_unreachable), (4, ec_asio host_unreachable),
      (5, ec_asio connection_refused), (6, ec_asio timed_out), (7, ec_socks command_not_supported),
      (8, ec_asio address_family_not_supported)]"

definition reply_rest :: "bytes \<Rightarrow> nat" where
  "reply_rest r = reply_size (r ! 3) (r ! 4) - 5"

text \<open>
  A reply that makes the operation succeed: version 5 with status 0 and the whole address, or, as
  the code has no case for them, version 5 with status 1 or a status above 8.
\<close>

definition exec5_success :: "bytes \<Rightarrow> bool" where
  "exec5_success r =
     (r ! 0 = 5 \<and>
      (r ! 1 = 0 \<and> length r = reply_size (r ! 3) (r ! 4) \<or>
       (r ! 1 = 1 \<or> r ! 1 > 8) \<and> length r = 5))"

definition exec5_inv ::
    "('s \<Rightarrow> bool) \<Rightarrow> ('s \<Rightarrow> bool) \<Rightarrow> ('s \<Rightarrow> cells) \<Rightarrow> ('s \<Rightarrow> cells) \<Rightarrow> ('s \<Rightarrow> ptr \<times> nat) \<Rightarrow> ('s \<Rightarrow> nat) \<Rightarrow>
     cells \<Rightarrow> nat \<Rightarrow> ('s, error_code) config \<Rightarrow> bool" where
  "exec5_inv ok ready rd wr region lim P L c =
     (case c of (p, s, a, w, r) \<Rightarrow>
        (p = pc_writing \<and> ok s \<and> ready s \<and> lim s = L \<and> a = Write P \<and> w = [] \<and> r = [] \<and> rd s = P) \<or>
        (p = pc_reading \<and> ok s \<and> ready s \<and> lim s = L \<and> a = Read (region s) \<and> w = P \<and> r = [] \<and> rd s = [] \<and>
           length (wr s) = 5 \<and> snd (region s) = 5) \<or>
        (p = pc_reading_address \<and> ok s \<and> ready s \<and> lim s = L \<and> a = Read (region s) \<and> w = P \<and>
           rd s = [] \<and> length (wr s) = reply_rest r \<and> snd (region s) = reply_rest r \<and> length r = 5 \<and> r ! 0 = 5 \<and> r ! 1 = 0) \<or>
        (\<exists>res. a = Complete res \<and> (ec_failed res \<or> res = no_error \<and> w = P \<and> exec5_success r)))"

text \<open>What the operation makes of the first five bytes of a reply.\<close>

definition exec5_head :: "bytes \<Rightarrow> error_code + nat" where
  "exec5_head ys =
     (if ys ! 0 \<noteq> 5 then Inl (ec_socks invalid_version)
      else if ys ! 1 \<noteq> 0
      then Inl (case map_of reply_errors (ys ! 1) of None \<Rightarrow> no_error | Some ec \<Rightarrow> ec)
      else Inr (reply_rest ys))"

lemma v5_status_reply:
  "v5_status no_error st = (case map_of reply_errors st of None \<Rightarrow> no_error | Some ec \<Rightarrow> ec)"
  by (simp add: v5_status_def reply_errors_def)

lemma v5_address_size_rest: "v5_address_size 5 (r ! 3) (r ! 4) + 2 = reply_rest r"
  by (simp add: v5_address_size_def reply_rest_def reply_size_def)

lemma v5_status_success: "v5_status no_error st = no_error \<or> ec_failed (v5_status no_error st)"
  by (simp add: v5_status_def)

lemma v5_status_no_error:
  assumes "st \<noteq> 0"
  shows "v5_status no_error st = no_error \<longleftrightarrow> st = 1 \<or> st > 8"
proof -
  have "unat st < 256" using unsigned_less [of st, where ?'a = nat] by simp
  have *: "st \<in> {2, 3, 4, 5, 6, 7, 8} \<longleftrightarrow> \<not> (st = 1 \<or> st > 8)"
  proof -
    have "unat st \<noteq> 0" using assms by (simp add: word_unat_eq_iff)
    then have "unat st \<in> {2, 3, 4, 5, 6, 7, 8} \<longleftrightarrow> \<not> (unat st = 1 \<or> unat st > 8)"
      by (simp, arith)
    then show ?thesis by (auto simp: word_less_nat_alt word_unat_eq_iff)
  qed
  have "v5_status no_error st = no_error \<longleftrightarrow> st \<notin> {2, 3, 4, 5, 6, 7, 8}"
    by (simp add: v5_status_def)
  then show ?thesis using * by blast
qed

lemma byte_at_map: "i < length ys \<Longrightarrow> byte_at (map Some ys) i = Some (ys ! i)"
  by (simp add: byte_at_def)

lemma reply_rest_bound: "reply_rest r \<le> 257"
proof -
  have "unat (r ! 4) < 256" using unsigned_less [of "r ! 4", where ?'a = nat] by simp
  then show ?thesis by (simp add: reply_rest_def reply_size_def)
qed

lemma reply_size_rest: "reply_size (r ! 3) (r ! 4) = 5 + reply_rest r"
  by (simp add: reply_rest_def reply_size_def)

context dynamic_buffer
begin

lemma exec5_write_resume:
  assumes "inv s" and "ready s" and "5 \<le> lim s"
  shows "\<exists>s'. v5_exec_resume ops pc_writing s no_error (length (rd s)) =
      Some (Inr ((pc_reading, s'), Read (region s'))) \<and>
    inv s' \<and> ready s' \<and> rd s' = [] \<and> length (wr s') = 5 \<and> snd (region s') = 5 \<and> lim s' = lim s"
  using start_read_ok [OF assms(1,2) refl assms(3), of pc_reading] by (auto simp: v5_exec_resume_def)

lemma exec5_read_resume:
  assumes "inv s" and "ready s" and "rd s = []" and "length (wr s) = 5" and "length ys = 5"
    and "op_write ops (region s) (map Some ys) s = Some s1" and "257 \<le> lim s"
  shows "\<exists>s'. v5_exec_resume ops pc_reading s1 no_error 5 =
      Some (Inr (case exec5_head ys of
         Inl ec \<Rightarrow> ((pc_done, s'), Complete ec)
       | Inr n \<Rightarrow> ((pc_reading_address, s'), Read (region s')))) \<and>
    (case exec5_head ys of Inl ec \<Rightarrow> True
     | Inr n \<Rightarrow> inv s' \<and> ready s' \<and> rd s' = [] \<and> length (wr s') = n \<and> snd (region s') = n \<and> lim s' = lim s)"
proof -
  obtain s2 where s2: "take_reply ops 5 s1 = Some (Inr (map Some ys, s2))" "inv s2" "ready s2" "rd s2 = []"
    "lim s2 = lim s"
    using take_reply_ok [OF assms(1-4) assms(6,5)] by blast
  have b: "byte_at (map Some ys) 0 = Some (ys ! 0)" "byte_at (map Some ys) 1 = Some (ys ! 1)"
    "byte_at (map Some ys) 3 = Some (ys ! 3)" "byte_at (map Some ys) 4 = Some (ys ! 4)"
    using assms(5) by (simp_all add: byte_at_map)
  note n = v5_address_size_rest [of ys]
  have le: "length (rd s2) + reply_rest ys \<le> lim s2"
    using s2(4,5) reply_rest_bound [of ys] assms(7) by simp
  obtain s3 where s3: "op_prepare ops (reply_rest ys) s2 = Some (Inr (region s3, s3))" "inv s3" "ready s3"
    "rd s3 = []" "length (wr s3) = reply_rest ys" "snd (region s3) = reply_rest ys" "lim s3 = lim s"
    using prepare_law [OF s2(2) le] s2(4,5) by auto
  show ?thesis
  proof (cases "exec5_head ys")
    case (Inl ec)
    then show ?thesis using s2(1) b
      by (intro exI [of _ s2]) (auto simp: v5_exec_resume_def exec5_head_def v5_status_reply split: if_splits)
  next
    case (Inr m)
    then have "ys ! 0 = 5" "ys ! 1 = 0" "m = reply_rest ys" by (auto simp: exec5_head_def split: if_splits)
    then show ?thesis using s2(1) b s3 Inr n
      by (intro exI [of _ s3]) (simp add: v5_exec_resume_def Let_def)
  qed
qed

lemma exec5_address_resume:
  assumes "inv s" and "ready s" and "op_write ops (region s) (map Some ys) s = Some s1" and "length (wr s) = length ys"
  shows "\<exists>s'. v5_exec_resume ops pc_reading_address s1 no_error (length ys) =
    Some (Inr ((pc_done, s'), Complete no_error))"
proof -
  obtain s2 where s2: "op_commit ops (length ys) s1 = Some (Inr s2)" "inv s2"
    using write_commit [OF assms(1,2), of "map Some ys"] assms(3,4) by auto
  obtain s3 where "op_consume ops (length ys) s2 = Some s3" using consume_law [OF s2(2)] by blast
  then show ?thesis using s2 by (simp add: v5_exec_resume_def)
qed

lemma exec5_fails:
  "v5_exec_resume ops q t ec k = Some (Inr ((q', t'), a')) \<Longrightarrow> ec_failed ec \<Longrightarrow> a' = Complete ec"
  by (simp add: v5_exec_resume_def)

text \<open>The three states that wait for something, each with the step that follows it.\<close>

lemma exec5_step_write:
  assumes "5 \<le> L" and "inv s" and "ready s" and "lim s = L" and "rd s = P"
    and "env_step ops v5_exec_resume (pc_writing, s, Write P, [], []) c"
  shows "exec5_inv inv ready rd wr region lim P L c"
proof -
  have "5 \<le> lim s" using assms(1,4) by simp
  then obtain s' where wrote:
    "v5_exec_resume ops pc_writing s no_error (length P) = Some (Inr ((pc_reading, s'), Read (region s')))"
    "inv s'" "ready s'" "rd s' = []" "length (wr s') = 5" "snd (region s') = 5" "lim s' = L"
    using exec5_write_resume [OF assms(2,3)] assms(4,5) by auto
  from assms(6) consider (ok) q t a where "c = (q, t, a, [] @ P, [])"
      "v5_exec_resume ops pc_writing s no_error (length P) = Some (Inr ((q, t), a))"
    | (failed) ec k q t a where "c = (q, t, a, [] @ take k P, [])" "ec_failed ec"
      "v5_exec_resume ops pc_writing s ec k = Some (Inr ((q, t), a))"
    by (rule env_step_WriteE) blast+
  then show ?thesis
  proof cases
    case ok
    then show ?thesis using wrote by (auto simp: exec5_inv_def)
  next
    case (failed ec k q t a)
    then show ?thesis using exec5_fails [OF failed(3,2)] by (simp add: exec5_inv_def)
  qed
qed

text \<open>A read brings all of the bytes asked for, or ends the operation.\<close>

lemma exec5_read_cases:
  assumes "env_step ops v5_exec_resume (p, s, Read buf, P, r) c" and "snd buf = n"
  obtains (ok) ys s1 p' s' a' where "c = (p', s', a', P, r @ ys)" "length ys = n"
      "op_write ops buf (map Some ys) s = Some s1"
      "v5_exec_resume ops p s1 no_error n = Some (Inr ((p', s'), a'))"
  | (failed) ec p' s' w' r' where "c = (p', s', Complete ec, w', r')" "ec_failed ec"
  using assms(1) by (elim env_step_ReadE) (use exec5_fails assms(2) in metis)+

lemma exec5_step_read:
  assumes "257 \<le> L" and "inv s" and "ready s" and "lim s = L" and "rd s = []" and "length (wr s) = 5"
    and "snd (region s) = 5" and "env_step ops v5_exec_resume (pc_reading, s, Read (region s), P, []) c"
  shows "exec5_inv inv ready rd wr region lim P L c"
  using assms(8,7)
proof (cases rule: exec5_read_cases)
  case (ok ys s1 p' s' a')
  have "257 \<le> lim s" using assms(1,4) by simp
  note resume = exec5_read_resume [OF assms(2,3,5,6) ok(2,3) this]
  show ?thesis
  proof (cases "exec5_head ys")
    case (Inl ec)
    have "ec_failed ec \<or> ec = no_error \<and> exec5_success ys"
      using Inl ok(2) v5_status_success [of "ys ! 1"] v5_status_no_error [of "ys ! 1"]
      by (auto simp: exec5_head_def exec5_success_def v5_status_reply [symmetric] split: if_splits)
    moreover have "a' = Complete ec" using resume ok(4) Inl by auto
    ultimately show ?thesis using ok(1) by (auto simp: exec5_inv_def)
  next
    case (Inr m)
    then have "ys ! 0 = 5" "ys ! 1 = 0" "m = reply_rest ys" by (auto simp: exec5_head_def split: if_splits)
    then show ?thesis using resume ok Inr assms(4) by (auto simp: exec5_inv_def)
  qed
next
  case failed
  then show ?thesis by (simp add: exec5_inv_def)
qed

lemma exec5_step_address:
  assumes "inv s" and "ready s" and "length (wr s) = reply_rest r" and "snd (region s) = reply_rest r"
    and "length r = 5" and "r ! 0 = 5" and "r ! 1 = 0"
    and "env_step ops v5_exec_resume (pc_reading_address, s, Read (region s), P, r) c"
  shows "exec5_inv inv ready rd wr region lim P L c"
  using assms(8,4)
proof (cases rule: exec5_read_cases)
  case (ok ys s1 p' s' a')
  have "a' = Complete no_error" using exec5_address_resume [OF assms(1,2) ok(3)] assms(3) ok(2,4) by auto
  moreover have "exec5_success (r @ ys)"
    using assms(5-7) ok(2) reply_size_rest [of r] by (simp add: exec5_success_def nth_append)
  ultimately show ?thesis using ok(1) by (simp add: exec5_inv_def)
next
  case failed
  then show ?thesis by (simp add: exec5_inv_def)
qed

lemma exec5_step:
  assumes "257 \<le> L" and "exec5_inv inv ready rd wr region lim P L c" and "env_step ops v5_exec_resume c c'"
  shows "exec5_inv inv ready rd wr region lim P L c'"
proof -
  obtain p s a w r where c: "c = (p, s, a, w, r)" by (cases c) auto
  have "5 \<le> L" using assms(1) by simp
  note steps = exec5_step_write [OF this] exec5_step_read [OF assms(1)] exec5_step_address
  from assms(2) [unfolded exec5_inv_def c prod.case]
  consider (wr) "p = pc_writing" "inv s" "ready s" "lim s = L" "a = Write P" "w = []" "r = []" "rd s = P"
    | (rd) "p = pc_reading" "inv s" "ready s" "lim s = L" "a = Read (region s)" "w = P" "r = []" "rd s = []"
        "length (wr s) = 5" "snd (region s) = 5"
    | (ad) "p = pc_reading_address" "inv s" "ready s" "lim s = L" "a = Read (region s)" "w = P" "rd s = []"
        "length (wr s) = reply_rest r" "snd (region s) = reply_rest r" "length r = 5" "r ! 0 = 5" "r ! 1 = 0"
    | (over) res where "a = Complete res" by blast
  then show ?thesis
  proof cases
    case over
    then show ?thesis using assms(3) by (simp add: c)
  qed (use assms(3) steps in \<open>simp add: c\<close>)+
qed

lemma exec5_steps:
  assumes "env_steps ops v5_exec_resume c c'" and "257 \<le> L" and "exec5_inv inv ready rd wr region lim P L c"
  shows "exec5_inv inv ready rd wr region lim P L c'"
  using assms(1) by induction (auto intro: assms(3) exec5_step [OF assms(2)])

lemma exec5_start:
  assumes "inv s" and "ready s" and "rd s = P" and "P \<noteq> []"
  shows "v5_exec_resume ops pc_start s no_error 0 = Some (Inr ((pc_writing, s), Write P))"
    and "exec5_inv inv ready rd wr region lim P (lim s) (pc_writing, s, Write P, [], [])"
  using start_write_ok [OF assms(1,2)] assms by (auto simp: v5_exec_resume_def exec5_inv_def)

text \<open>Every reply of five bytes is followed by the completion or the second read it calls for.\<close>

lemma exec5_completes:
  assumes "inv s" and "ready s" and "rd s = P" and "257 \<le> lim s" and "length ys = 5"
  shows "case exec5_head ys of
      Inl ec \<Rightarrow> \<exists>s'. env_steps ops v5_exec_resume (pc_writing, s, Write P, [], []) (pc_done, s', Complete ec, P, ys)
    | Inr n \<Rightarrow> \<forall>zs. length zs = n \<longrightarrow>
        (\<exists>s'. env_steps ops v5_exec_resume (pc_writing, s, Write P, [], [])
           (pc_done, s', Complete no_error, P, ys @ zs))"
proof -
  have "5 \<le> lim s" using assms(4) by simp
  then obtain s1 where s1: "v5_exec_resume ops pc_writing s no_error (length P) = Some (Inr ((pc_reading, s1), Read (region s1)))"
    "inv s1" "ready s1" "rd s1 = []" "length (wr s1) = 5" "snd (region s1) = 5" "lim s1 = lim s"
    using exec5_write_resume [OF assms(1,2)] assms(3) by blast
  have st1: "env_step ops v5_exec_resume (pc_writing, s, Write P, [], []) (pc_reading, s1, Read (region s1), [] @ P, [])"
    by (rule env_step.written) (rule s1(1))
  obtain s2 where s2: "op_write ops (region s1) (map Some ys) s1 = Some s2"
    using write_law [OF s1(2,3), of "map Some ys"] s1(5) assms(5) by auto
  have "257 \<le> lim s1" using s1(7) assms(4) by simp
  from exec5_read_resume [OF s1(2-5) assms(5) s2 this]
  obtain s3 where s3: "v5_exec_resume ops pc_reading s2 no_error 5 =
      Some (Inr (case exec5_head ys of
         Inl ec \<Rightarrow> ((pc_done, s3), Complete ec)
       | Inr n \<Rightarrow> ((pc_reading_address, s3), Read (region s3))))"
    "case exec5_head ys of Inl ec \<Rightarrow> True
     | Inr n \<Rightarrow> inv s3 \<and> ready s3 \<and> rd s3 = [] \<and> length (wr s3) = n \<and> snd (region s3) = n \<and> lim s3 = lim s1" by blast
  show ?thesis
  proof (cases "exec5_head ys")
    case (Inl ec)
    have "env_step ops v5_exec_resume (pc_reading, s1, Read (region s1), P, []) (pc_done, s3, Complete ec, P, [] @ ys)"
      by (rule env_step.received [OF _ s2]) (use s1(6) assms(5) s3(1) Inl in simp_all)
    then have "env_steps ops v5_exec_resume (pc_writing, s, Write P, [], []) (pc_done, s3, Complete ec, P, ys)"
      using st1 by (auto intro: rtranclp.rtrancl_into_rtrancl)
    then show ?thesis using Inl by auto
  next
    case (Inr n)
    have st2: "env_step ops v5_exec_resume (pc_reading, s1, Read (region s1), P, [])
        (pc_reading_address, s3, Read (region s3), P, [] @ ys)"
      by (rule env_step.received [OF _ s2]) (use s1(6) assms(5) s3(1) Inr in simp_all)
    have i3: "inv s3" "ready s3" "length (wr s3) = n" "snd (region s3) = n" using s3(2) Inr by auto
    have "\<exists>s'. env_steps ops v5_exec_resume (pc_writing, s, Write P, [], [])
           (pc_done, s', Complete no_error, P, ys @ zs)" if len: "length zs = n" for zs
    proof -
      obtain s4 where s4: "op_write ops (region s3) (map Some zs) s3 = Some s4"
        using write_law [OF i3(1,2), of "map Some zs"] i3(3) len by auto
      obtain s5 where s5: "v5_exec_resume ops pc_reading_address s4 no_error (length zs) =
          Some (Inr ((pc_done, s5), Complete no_error))"
        using exec5_address_resume [OF i3(1,2) s4] i3(3) len by auto
      have "env_step ops v5_exec_resume (pc_reading_address, s3, Read (region s3), P, ys)
          (pc_done, s5, Complete no_error, P, ys @ zs)"
        by (rule env_step.received [OF _ s4]) (use s5 len i3(4) in simp_all)
      then show ?thesis using st1 st2 by (intro exI [of _ s5]) (auto intro: rtranclp.rtrancl_into_rtrancl)
    qed
    then show ?thesis using Inr by auto
  qed
qed

end

end
