(* ===== verification/SocksCorrect.thy ===== *)
theory SocksCorrect
  imports SocksClient BufferCorrect
begin

text \<open>
  The properties of the SOCKS client on the library's own buffer: what the operations send, when
  they succeed, that they complete on every reply, and where SOCKS4 goes wrong.
\<close>

section \<open>Starting an operation\<close>

context dynamic_buffer
begin

lemma put_encoded:
  assumes "inv s" and "rd s = []" and "length bs = n" and "n \<le> lim s" and "n \<noteq> 0"
  shows "\<exists>s1. put_packet ops n (map Some bs) s = Some (Inr s1) \<and> inv s1 \<and> ready s1 \<and>
    rd s1 = map Some bs \<and> map Some bs \<noteq> [] \<and> lim s1 = lim s"
  using put_packet_ok [OF assms(1), of "map Some bs"] assms(2-5) by auto

end

lemma greet_finish_total: "\<forall>ys. length ys = 2 \<longrightarrow> v5_greet_finish ec (map Some ys) \<noteq> None"
  by (simp add: v5_greet_finish_def byte_at_map)

lemma login_finish_total: "\<forall>ys. length ys = 2 \<longrightarrow> v5_login_finish ec (map Some ys) \<noteq> None"
  by (simp add: v5_login_finish_def byte_at_map)

lemma two_bytes: "length ys = 2 \<longleftrightarrow> (\<exists>a b. ys = [a, b])"
  by (auto simp: length_Suc_conv numeral_2_eq_2)

section \<open>Greeting and login\<close>

text \<open>
  C21. The greeting: it sends exactly the encoded packet; it succeeds only when it has been sent in
  full and the whole reply is version 5 with an acceptable method, which is the method returned;
  and for every reply it completes accordingly.
\<close>

theorem greet_succeeds_iff_accepted:
  assumes "db_ok s" and "db_readable s = []" and "length ms \<le> 255" and "257 \<le> db_limit s"
  shows "\<exists>s1. async_greet linear_ops ms s =
      Some (Inr ((pc_writing, s1), Write (map Some (encode_greet_packet ms)))) \<and>
    (\<forall>p s' ec m w r. env_steps linear_ops v5_greet_resume
         (pc_writing, s1, Write (map Some (encode_greet_packet ms)), [], [])
         (p, s', Complete (ec, m), w, r) \<longrightarrow> \<not> ec_failed ec \<longrightarrow>
       w = map Some (encode_greet_packet ms) \<and> r = [5, m] \<and> m \<noteq> auth_no_acceptable) \<and>
    (\<forall>v m. \<exists>s'. env_steps linear_ops v5_greet_resume
         (pc_writing, s1, Write (map Some (encode_greet_packet ms)), [], [])
         (pc_done, s', Complete
            (if v \<noteq> 5 then (ec_socks invalid_version, auth_no_acceptable)
             else if m = auth_no_acceptable then (ec_socks no_acceptable_auth_method, auth_no_acceptable)
             else (no_error, m)),
          map Some (encode_greet_packet ms), [v, m]))"
proof -
  let ?P = "map Some (encode_greet_packet ms)"
  have n: "get_greet_packet_size ms \<noteq> 0" "get_greet_packet_size ms \<le> db_limit s"
    using assms(3,4) by (simp_all add: get_greet_packet_size_def)
  obtain s1 where s1: "v5_greet_new linear_ops ms s = Some (Inr s1)" "db_ok s1" "db_ready s1"
    "db_readable s1 = ?P" "?P \<noteq> []" "db_limit s1 = db_limit s"
    using lin.put_encoded [OF assms(1,2) length_greet [OF assms(3)] n(2,1)] n(1)
    by (auto simp: v5_greet_new_def Let_def)
  have two: "2 \<le> db_limit s1" using assms(4) s1(6) by simp
  note runs = lin.request_runs [OF s1(2-5) two, where bad = "\<lambda>ec. (ec, auth_no_acceptable)"
      and finish = v5_greet_finish, OF greet_finish_total, folded v5_greet_resume_def]
  have start: "async_greet linear_ops ms s = Some (Inr ((pc_writing, s1), Write ?P))"
    using s1(1) runs(1) by (simp add: async_greet_def)
  have safe: "w = ?P \<and> r = [5, m] \<and> m \<noteq> auth_no_acceptable"
    if "env_steps linear_ops v5_greet_resume (pc_writing, s1, Write ?P, [], []) (p, s', Complete (ec, m), w, r)"
      and "\<not> ec_failed ec" for p s' ec m w r
    using runs(2) [OF that(1)] that(2)
    by (auto simp: two_bytes v5_greet_finish_def byte_at_def split: if_splits)
  have live: "\<exists>s'. env_steps linear_ops v5_greet_resume (pc_writing, s1, Write ?P, [], [])
         (pc_done, s', Complete
            (if v \<noteq> 5 then (ec_socks invalid_version, auth_no_acceptable)
             else if m = auth_no_acceptable then (ec_socks no_acceptable_auth_method, auth_no_acceptable)
             else (no_error, m)), ?P, [v, m])" for v m
    using runs(3) [of "[v, m]"] by (simp add: v5_greet_finish_def byte_at_def)
  show ?thesis using start safe live by blast
qed

lemma dyn1_ok:
  "db_ok (db_new (lb_new 1000) 1000, lb_new 1000, \<lparr>blocks = Map.empty, next_id = 0, null_frees = 0\<rparr>)"
  "db_readable (db_new (lb_new 1000) 1000, lb_new 1000, \<lparr>blocks = Map.empty, next_id = 0, null_frees = 0\<rparr>) = []"
  "db_limit (db_new (lb_new 1000) 1000, lb_new 1000, \<lparr>blocks = Map.empty, next_id = 0, null_frees = 0\<rparr>) = 1000"
  by (auto simp: db_ok.simps db_readable.simps db_limit.simps db_new_def lb_new_def
      lb_ok_def heap_ok_def block_of_def size_max_def content_def)

definition fresh_buffer :: dstate where
  "fresh_buffer =
     (db_new (lb_new 1000) 1000, lb_new 1000, \<lparr>blocks = Map.empty, next_id = 0, null_frees = 0\<rparr>)"

lemmas fresh_buffer_ok = dyn1_ok [folded fresh_buffer_def]

theorem greet_succeeds_iff_accepted_witness:
  "\<exists>s1 s'. async_greet linear_ops [auth_none] fresh_buffer =
      Some (Inr ((pc_writing, s1), Write [Some 5, Some 1, Some 0])) \<and>
    env_steps linear_ops v5_greet_resume (pc_writing, s1, Write [Some 5, Some 1, Some 0], [], [])
      (pc_done, s', Complete (no_error, auth_none), [Some 5, Some 1, Some 0], [5, auth_none])"
proof -
  have e: "map Some (encode_greet_packet [auth_none]) = [Some 5, Some 1, Some 0]"
    by (simp add: encode_greet_packet_def auth_none_def)
  have ne: "auth_none \<noteq> auth_no_acceptable" by (simp add: auth_none_def auth_no_acceptable_def)
  have c: "length [auth_none] \<le> 255" "257 \<le> db_limit fresh_buffer" by (simp_all add: fresh_buffer_ok)
  from greet_succeeds_iff_accepted [OF fresh_buffer_ok(1,2) c, unfolded e]
  obtain s1 where s1: "async_greet linear_ops [auth_none] fresh_buffer =
      Some (Inr ((pc_writing, s1), Write [Some 5, Some 1, Some 0]))"
    "\<exists>s'. env_steps linear_ops v5_greet_resume
         (pc_writing, s1, Write [Some 5, Some 1, Some 0], [], [])
         (pc_done, s', Complete
            (if 5 \<noteq> (5 :: u8) then (ec_socks invalid_version, auth_no_acceptable)
             else if auth_none = auth_no_acceptable then (ec_socks no_acceptable_auth_method, auth_no_acceptable)
             else (no_error, auth_none)), [Some 5, Some 1, Some 0], [5, auth_none])" by blast
  from s1(2) [unfolded if_not_P [OF ne]] have "\<exists>s'. env_steps linear_ops v5_greet_resume
      (pc_writing, s1, Write [Some 5, Some 1, Some 0], [], [])
      (pc_done, s', Complete (no_error, auth_none), [Some 5, Some 1, Some 0], [5, auth_none])"
    by simp
  then show ?thesis using s1(1) by blast
qed

text \<open>
  C22. The login succeeds only when the packet with the user name and the password has been sent in
  full and the whole reply is version 1 with status 0, and it does for that reply.
\<close>

theorem login_succeeds_iff_accepted:
  assumes "db_ok s" and "db_readable s = []" and "length user \<le> 255" and "length pw \<le> 255"
    and "513 \<le> db_limit s"
  shows "\<exists>s1. async_login linear_ops user pw s =
      Some (Inr ((pc_writing, s1), Write (map Some (encode_login_packet user pw)))) \<and>
    (\<forall>p s' ec w r. env_steps linear_ops v5_login_resume
         (pc_writing, s1, Write (map Some (encode_login_packet user pw)), [], [])
         (p, s', Complete ec, w, r) \<longrightarrow> \<not> ec_failed ec \<longrightarrow>
       w = map Some (encode_login_packet user pw) \<and> r = [1, 0]) \<and>
    (\<exists>s'. env_steps linear_ops v5_login_resume
         (pc_writing, s1, Write (map Some (encode_login_packet user pw)), [], [])
         (pc_done, s', Complete no_error, map Some (encode_login_packet user pw), [1, 0]))"
proof -
  let ?P = "map Some (encode_login_packet user pw)"
  have n: "get_login_packet_size user pw \<noteq> 0" "get_login_packet_size user pw \<le> db_limit s"
    using assms(3-5) by (simp_all add: get_login_packet_size_def)
  obtain s1 where s1: "v5_login_new linear_ops user pw s = Some (Inr s1)" "db_ok s1" "db_ready s1"
    "db_readable s1 = ?P" "?P \<noteq> []" "db_limit s1 = db_limit s"
    using lin.put_encoded [OF assms(1,2) length_login [OF assms(3,4)] n(2,1)] n(1)
    by (auto simp: v5_login_new_def Let_def)
  have two: "2 \<le> db_limit s1" using assms(5) s1(6) by simp
  note runs = lin.request_runs [OF s1(2-5) two, where bad = id
      and finish = v5_login_finish, OF login_finish_total, folded v5_login_resume_def]
  have start: "async_login linear_ops user pw s = Some (Inr ((pc_writing, s1), Write ?P))"
    using s1(1) runs(1) by (simp add: async_login_def)
  have safe: "w = ?P \<and> r = [1, 0]"
    if "env_steps linear_ops v5_login_resume (pc_writing, s1, Write ?P, [], []) (p, s', Complete ec, w, r)"
      and "\<not> ec_failed ec" for p s' ec w r
    using runs(2) [OF that(1)] that(2)
    by (auto simp: two_bytes v5_login_finish_def byte_at_def split: if_splits)
  have live: "\<exists>s'. env_steps linear_ops v5_login_resume (pc_writing, s1, Write ?P, [], [])
         (pc_done, s', Complete no_error, ?P, [1, 0])"
    using runs(3) [of "[1, 0]"] by (simp add: v5_login_finish_def byte_at_def)
  show ?thesis using start safe live by blast
qed

theorem login_succeeds_iff_accepted_witness:
  "\<exists>s1 s'. async_login linear_ops [117] [112] fresh_buffer =
      Some (Inr ((pc_writing, s1), Write (map Some [1, 1, 117, 1, 112]))) \<and>
    env_steps linear_ops v5_login_resume (pc_writing, s1, Write (map Some [1, 1, 117, 1, 112]), [], [])
      (pc_done, s', Complete no_error, map Some [1, 1, 117, 1, 112], [1, 0])"
proof -
  have e: "encode_login_packet [117] [112] = [1, 1, 117, 1, 112]" by (simp add: encode_login_packet_def)
  have c: "length [117 :: u8] \<le> 255" "length [112 :: u8] \<le> 255" "513 \<le> db_limit fresh_buffer"
    by (simp_all add: fresh_buffer_ok)
  from login_succeeds_iff_accepted [OF fresh_buffer_ok(1,2) c, unfolded e] show ?thesis by blast
qed

section \<open>Commands of SOCKS5\<close>

lemma exec5_new_ok:
  assumes "db_ok s" and "db_readable s = []" and "length rh \<le> 255" and "262 \<le> db_limit s"
  shows "\<exists>s1. v5_exec_new linear_ops cmd remote rh port s = Some (Inr s1) \<and> db_ok s1 \<and> db_ready s1 \<and>
    db_readable s1 = map Some (encode_exec5_packet cmd remote rh port) \<and>
    map Some (encode_exec5_packet cmd remote rh port) \<noteq> [] \<and> db_limit s1 = db_limit s"
proof -
  let ?n = "get_exec5_packet_size cmd remote rh port"
  have n: "?n \<le> db_limit s" "?n \<noteq> 0" using assms(3,4) by (simp_all add: get_exec5_packet_size_def)
  from lin.put_encoded [OF assms(1,2) length_exec5 [OF assms(3)] n] n(2) show ?thesis
    unfolding v5_exec_new_def Let_def by simp
qed

text \<open>The two overloads of a command, and the target a server is to read in the request.\<close>

definition execute5 ::
    "'s dyn_ops \<Rightarrow> command \<Rightarrow> endpoint + bytes \<times> u16 \<Rightarrow> 's \<Rightarrow>
     (cxx_exception + (pc \<times> 's) \<times> error_code action) option" where
  "execute5 ops cmd remote s =
     (case remote of
        Inl ep \<Rightarrow> async_execute5_endpoint ops cmd ep s
      | Inr (host, port) \<Rightarrow> async_execute5_host ops cmd host port s)"

fun target_of :: "endpoint + bytes \<times> u16 \<Rightarrow> target \<times> u16" where
  "target_of (Inl (Ep_v4 a p)) = (T_v4 a, p)"
| "target_of (Inl (Ep_v6 a p)) = (T_v6 a, p)"
| "target_of (Inr (host, port)) = (T_host host, port)"

fun encodable :: "endpoint + bytes \<times> u16 \<Rightarrow> bool" where
  "encodable (Inl ep) = True"
| "encodable (Inr (host, port)) = (host \<noteq> [] \<and> length host \<le> 255)"

lemma execute5_starts:
  assumes "db_ok s" and "db_readable s = []" and "encodable remote" and "262 \<le> db_limit s"
  shows "\<exists>P s1. execute5 linear_ops cmd remote s = Some (Inr ((pc_writing, s1), Write (map Some P))) \<and>
    decode_exec5 P = Some (cmd, target_of remote) \<and>
    db_ok s1 \<and> db_ready s1 \<and> db_readable s1 = map Some P \<and> map Some P \<noteq> [] \<and> db_limit s1 = db_limit s"
proof -
  have "\<exists>ep rh port. execute5 linear_ops cmd remote s =
      ebind (v5_exec_new linear_ops cmd ep rh port s) (\<lambda>s1. v5_exec_resume linear_ops pc_start s1 no_error 0)
    \<and> length rh \<le> 255
    \<and> decode_exec5 (encode_exec5_packet cmd ep rh port) = Some (cmd, target_of remote)"
  proof (cases remote)
    case (Inl ep)
    then show ?thesis
      using exec5_decodes [of "[]" cmd ep 0]
      by (cases ep) (auto simp: execute5_def async_execute5_endpoint_def intro!: exI [of _ ep] exI [of _ "[]"] exI [of _ 0])
  next
    case (Inr hp)
    obtain host port where hp: "hp = (host, port)" by fastforce
    then show ?thesis
      using exec5_decodes [of host cmd default_endpoint port] assms(3) Inr
      by (auto simp: execute5_def async_execute5_host_def
          intro!: exI [of _ default_endpoint] exI [of _ host] exI [of _ port])
  qed
  then obtain ep rh port where e: "execute5 linear_ops cmd remote s =
      ebind (v5_exec_new linear_ops cmd ep rh port s) (\<lambda>s1. v5_exec_resume linear_ops pc_start s1 no_error 0)"
    and rh: "length rh \<le> 255"
    and d: "decode_exec5 (encode_exec5_packet cmd ep rh port) = Some (cmd, target_of remote)" by blast
  from exec5_new_ok [OF assms(1,2) rh assms(4), of cmd ep port] obtain s1 where
    s1: "v5_exec_new linear_ops cmd ep rh port s = Some (Inr s1)" "db_ok s1" "db_ready s1"
      "db_readable s1 = map Some (encode_exec5_packet cmd ep rh port)"
      "map Some (encode_exec5_packet cmd ep rh port) \<noteq> []" "db_limit s1 = db_limit s" by blast
  show ?thesis
    using e d s1 lin.exec5_start(1) [OF s1(2-5)]
    by (intro exI [of _ "encode_exec5_packet cmd ep rh port"] exI [of _ s1]) simp
qed

text \<open>
  C20. A SOCKS5 command, for an endpoint or for a host name and a port: it sends a request that a server
  reads as this command for this target; when it succeeds, the request has been sent in full and the
  reply is one of \<open>exec5_success\<close>; and it completes on every reply: with the error of its status
  after five bytes, or with success after an address of the length its type calls for.
\<close>

theorem execute5_result:
  assumes "db_ok s" and "db_readable s = []" and "encodable remote" and "262 \<le> db_limit s"
  shows "\<exists>P s1. execute5 linear_ops cmd remote s = Some (Inr ((pc_writing, s1), Write (map Some P))) \<and>
    decode_exec5 P = Some (cmd, target_of remote) \<and>
    (\<forall>p s' ec w r. env_steps linear_ops v5_exec_resume (pc_writing, s1, Write (map Some P), [], [])
         (p, s', Complete ec, w, r) \<longrightarrow> \<not> ec_failed ec \<longrightarrow>
       ec = no_error \<and> w = map Some P \<and> exec5_success r) \<and>
    (\<forall>ys. length ys = 5 \<longrightarrow>
       (case exec5_head ys of
          Inl ec \<Rightarrow> \<exists>s'. env_steps linear_ops v5_exec_resume (pc_writing, s1, Write (map Some P), [], [])
            (pc_done, s', Complete ec, map Some P, ys)
        | Inr n \<Rightarrow> \<forall>zs. length zs = n \<longrightarrow>
            (\<exists>s'. env_steps linear_ops v5_exec_resume (pc_writing, s1, Write (map Some P), [], [])
               (pc_done, s', Complete no_error, map Some P, ys @ zs))))"
proof -
  obtain P s1 where s1: "execute5 linear_ops cmd remote s = Some (Inr ((pc_writing, s1), Write (map Some P)))"
    "decode_exec5 P = Some (cmd, target_of remote)"
    "db_ok s1" "db_ready s1" "db_readable s1 = map Some P" "map Some P \<noteq> []" "db_limit s1 = db_limit s"
    using execute5_starts [OF assms] by blast
  have l: "257 \<le> db_limit s1" using assms(4) s1(7) by simp
  note st = lin.exec5_start(2) [OF s1(3-6)]
  have "ec = no_error \<and> w = map Some P \<and> exec5_success r"
    if "env_steps linear_ops v5_exec_resume (pc_writing, s1, Write (map Some P), [], []) (p, s', Complete ec, w, r)"
      and "\<not> ec_failed ec" for p s' ec w r
    using lin.exec5_steps [OF that(1) l st] that(2) by (auto simp: exec5_inv_def)
  then show ?thesis using s1(1,2) lin.exec5_completes [OF s1(3-5) l] by blast
qed

theorem execute5_result_witness:
  "\<exists>P s1 s'. async_execute5_host linear_ops cmd_connect [104] 80 fresh_buffer =
      Some (Inr ((pc_writing, s1), Write (map Some P))) \<and>
    decode_exec5 P = Some (cmd_connect, T_host [104], 80) \<and>
    env_steps linear_ops v5_exec_resume (pc_writing, s1, Write (map Some P), [], [])
      (pc_done, s', Complete no_error, map Some P, [5, 0, 0, 4, 32, 1, 13, 184, 0, 0, 0, 0, 0, 0, 0, 0, 0, 0, 0, 1, 0, 80])"
proof -
  let ?ys = "[5, 0, 0, 4, 32 :: u8]" and ?zs = "[1, 13, 184, 0, 0, 0, 0, 0, 0, 0, 0, 0, 0, 0, 1, 0, 80 :: u8]"
  have c: "encodable (Inr ([104], 80))" "262 \<le> db_limit fresh_buffer" by (simp_all add: fresh_buffer_ok)
  have h: "exec5_head ?ys = Inr 17" by (simp add: exec5_head_def reply_rest_def reply_size_def)
  have len: "length ?ys = 5" "length ?zs = 17" by simp_all
  from execute5_result [OF fresh_buffer_ok(1,2) c, of cmd_connect]
  obtain P s1 where s1: "execute5 linear_ops cmd_connect (Inr ([104], 80)) fresh_buffer =
      Some (Inr ((pc_writing, s1), Write (map Some P)))"
    "decode_exec5 P = Some (cmd_connect, target_of (Inr ([104], 80)))"
    and "\<forall>ys. length ys = 5 \<longrightarrow>
       (case exec5_head ys of
          Inl ec \<Rightarrow> \<exists>s'. env_steps linear_ops v5_exec_resume (pc_writing, s1, Write (map Some P), [], [])
            (pc_done, s', Complete ec, map Some P, ys)
        | Inr n \<Rightarrow> \<forall>zs. length zs = n \<longrightarrow>
            (\<exists>s'. env_steps linear_ops v5_exec_resume (pc_writing, s1, Write (map Some P), [], [])
               (pc_done, s', Complete no_error, map Some P, ys @ zs)))"
    by blast
  from this(3) [rule_format, OF len(1), unfolded h sum.case, rule_format, OF len(2)]
  show ?thesis using s1 by (auto simp: execute5_def)
qed

text \<open>
  A server that refuses a SOCKS5 command with the status 1 (general failure), or with any
  status above 8, makes the operation complete without an error.
\<close>

theorem execute5_general_failure_is_success:
  assumes "db_ok s" and "db_readable s = []" and "length remote \<le> 255" and "262 \<le> db_limit s"
    and "st = 1 \<or> st > 8"
  shows "\<exists>s1 s'. async_execute5_host linear_ops cmd remote port s =
      Some (Inr ((pc_writing, s1), Write (map Some (encode_exec5_packet cmd default_endpoint remote port)))) \<and>
    env_steps linear_ops v5_exec_resume
      (pc_writing, s1, Write (map Some (encode_exec5_packet cmd default_endpoint remote port)), [], [])
      (pc_done, s', Complete no_error,
       map Some (encode_exec5_packet cmd default_endpoint remote port), [5, st, 0, 1, x])"
proof -
  let ?P = "map Some (encode_exec5_packet cmd default_endpoint remote port)"
  obtain s1 where s1: "v5_exec_new linear_ops cmd default_endpoint remote port s = Some (Inr s1)"
    "db_ok s1" "db_ready s1" "db_readable s1 = ?P" "?P \<noteq> []" "db_limit s1 = db_limit s"
    using exec5_new_ok [OF assms(1-4)] by blast
  have l: "257 \<le> db_limit s1" using assms(4) s1(6) by simp
  have start: "async_execute5_host linear_ops cmd remote port s = Some (Inr ((pc_writing, s1), Write ?P))"
    using s1(1) lin.exec5_start(1) [OF s1(2-5)] by (simp add: async_execute5_host_def)
  have "st \<noteq> 0" using assms(5) by auto
  then have "exec5_head [5, st, 0, 1, x] = Inl no_error"
    using v5_status_no_error assms(5) by (simp add: exec5_head_def v5_status_reply [symmetric])
  then have "\<exists>s'. env_steps linear_ops v5_exec_resume (pc_writing, s1, Write ?P, [], [])
      (pc_done, s', Complete no_error, ?P, [5, st, 0, 1, x])"
    using lin.exec5_completes [OF s1(2-4) l, of "[5, st, 0, 1, x]"] by simp
  then show ?thesis using start by blast
qed

theorem execute5_general_failure_is_success_witness:
  "\<exists>s1 s'. async_execute5_host linear_ops cmd_connect [104] 80 fresh_buffer =
      Some (Inr ((pc_writing, s1), Write (map Some (encode_exec5_packet cmd_connect default_endpoint [104] 80)))) \<and>
    env_steps linear_ops v5_exec_resume
      (pc_writing, s1, Write (map Some (encode_exec5_packet cmd_connect default_endpoint [104] 80)), [], [])
      (pc_done, s', Complete no_error,
       map Some (encode_exec5_packet cmd_connect default_endpoint [104] 80), [5, 1, 0, 1, 0])"
  by (rule execute5_general_failure_is_success [OF fresh_buffer_ok(1,2)]) (simp_all add: fresh_buffer_ok)

section \<open>SOCKS4\<close>

lemma decode_exec4_of_exec5: "decode_exec4 (encode_exec5_packet cmd remote rh port) = None"
proof -
  obtain r where "encode_exec5_packet cmd remote rh port = 5 # r"
    by (simp add: encode_exec5_packet_def)
  then show ?thesis
    by (auto simp: decode_exec4_def Let_def split: list.split)
qed

lemma length_exec5_host:
  "rh \<noteq> [] \<Longrightarrow> length (encode_exec5_packet cmd remote rh port) = length rh + 7"
  by (simp add: encode_exec5_packet_def)

text \<open>
  \<open>async_execute\<close> of SOCKS4 with a host name sends no SOCKS4 request: the bytes it writes
  start with those of the SOCKS5 encoder, version 5 and port 0 whatever the port argument, followed
  by bytes of the buffer that were never written, up to the size of a SOCKS4 packet.
\<close>

theorem execute4_sends_socks5:
  assumes "db_ok s" and "db_readable s = []" and "remote \<noteq> []"
    and "length remote + length user + 10 \<le> db_limit s"
  shows "\<exists>s1 xs. async_execute4_host linear_ops cmd remote port user s = Some (Inr ((pc_writing, s1), Write xs)) \<and>
    length xs = length remote + length user + 10 \<and>
    take (length remote + 7) xs = map Some (encode_exec5_packet cmd default_endpoint remote 0) \<and>
    hd xs = Some 5 \<and> decode_exec4 (encode_exec5_packet cmd default_endpoint remote 0) = None"
proof -
  let ?e = "map Some (encode_exec5_packet cmd default_endpoint remote 0)"
  let ?n = "length remote + length user + 10"
  have sz: "get_exec4_packet_size default_endpoint remote user = ?n"
    using assms(3) by (simp add: get_exec4_packet_size_def)
  have le: "length ?e = length remote + 7" using length_exec5_host [OF assms(3)] by simp
  have room: "length (db_readable s) + ?n \<le> db_limit s" using assms(2,4) by simp
  obtain s1 where s1: "op_prepare linear_ops ?n s = Some (Inr (db_region s1, s1))" "db_ok s1" "db_ready s1"
    "db_readable s1 = []" "length (db_writable s1) = ?n"
    using lin.prepare_law [OF assms(1) room] assms(2) by auto
  have fits: "length ?e \<le> length (db_writable s1)" using s1(5) le by simp
  obtain s2 where s2: "op_write linear_ops (db_region s1) ?e s1 = Some s2" "db_ok s2" "db_ready s2"
    "db_readable s2 = []" "db_writable s2 = splice 0 ?e (db_writable s1)"
    using lin.write_law [OF s1(2,3) fits] s1(4) by auto
  obtain s3 where s3: "op_commit linear_ops ?n s2 = Some (Inr s3)" "db_ok s3" "db_ready s3"
    "db_readable s3 = take ?n (db_writable s2)"
    using lin.commit_law [OF s2(2,3), of ?n] s2(4) by auto
  have lw: "length (db_writable s2) = ?n" unfolding s2(5) using s1(5) fits by simp
  have rd: "db_readable s3 = splice 0 ?e (db_writable s1)" using s3(4) lw s2(5) by simp
  have "v4_exec_new linear_ops cmd default_endpoint remote 0 user s = Some (Inr s3)"
    using s1(1) s2(1) s3(1) by (simp add: v4_exec_new_def sz put_packet_def)
  moreover have "db_readable s3 \<noteq> []" using s3(4) lw by auto
  from lin.start_write_ok [OF s3(2,3) this]
  have "v4_exec_resume linear_ops pc_start s3 no_error 0 = Some (Inr ((pc_writing, s3), Write (db_readable s3)))"
    by (simp add: v4_exec_resume_def request_resume_def)
  ultimately have "async_execute4_host linear_ops cmd remote port user s =
      Some (Inr ((pc_writing, s3), Write (db_readable s3)))"
    by (simp add: async_execute4_host_def)
  moreover have "take (length remote + 7) (db_readable s3) = ?e"
    unfolding rd using le by (simp add: splice_def)
  moreover have "hd (db_readable s3) = Some 5"
    unfolding rd by (simp add: splice_def encode_exec5_packet_def)
  moreover have "length (db_readable s3) = ?n" using s3(4) lw by simp
  ultimately show ?thesis using decode_exec4_of_exec5 by blast
qed

theorem execute4_sends_socks5_witness:
  "\<exists>s1 xs. async_execute4_host linear_ops cmd_connect [104] 80 [117] fresh_buffer =
      Some (Inr ((pc_writing, s1), Write xs)) \<and> length xs = 12 \<and>
    take 8 xs = map Some [5, 1, 0, 3, 1, 104, 0, 0]"
proof -
  have e: "encode_exec5_packet cmd_connect default_endpoint [104] 0 = [5, 1, 0, 3, 1, 104, 0, 0]"
    by (simp add: encode_exec5_packet_def cmd_connect_def port_bytes_def)
  have c: "[104 :: u8] \<noteq> []" "length [104 :: u8] + length [117 :: u8] + 10 \<le> db_limit fresh_buffer"
    by (simp_all add: fresh_buffer_ok)
  from execute4_sends_socks5 [OF fresh_buffer_ok(1,2) c, of cmd_connect 80, unfolded e]
  show ?thesis by auto
qed

text \<open>
  \<open>async_execute\<close> of SOCKS4 with an endpoint and an empty user name writes one byte past
  the end of a fresh buffer: the SOCKS5 packet has ten bytes, the SOCKS4 packet nine.
\<close>

theorem execute4_endpoint_overflows:
  assumes "heap_ok h" and "9 \<le> m" and "m < size_max"
  shows "async_execute4_endpoint linear_ops cmd (Ep_v4 a p) [] (db_new (lb_new m) m, lb_new m, h) = None"
proof -
  let ?e = "map Some (encode_exec5_packet cmd (Ep_v4 a p) [] 0)"
  have le: "length ?e = 10" by (simp add: encode_exec5_packet_def)
  then have ne: "?e \<noteq> []" by auto
  have cap: "calculate_capacity (lb_new m) 9 = 9"
    using assms(2) by (simp add: calculate_capacity_def lb_new_def sz_mul_def)
  let ?h = "h\<lparr>next_id := Suc (next_id h), blocks := (blocks h)(next_id h \<mapsto> replicate 9 None),
              null_frees := Suc (null_frees h)\<rparr>"
  have "lb_resize 9 (lb_new m) h = Some (Inr ((lb_new m)\<lparr>data_block := Some (next_id h), capacity := 9, lb_size := 9\<rparr>, ?h))"
    using assms(2) cap
    by (simp add: lb_resize_def reallocate_def allocate_def lb_new_def memcpy_def overlap_def block_ptr_def
        memmove_def mem_read_def mem_write_def deallocate_def)
  then have p: "op_prepare linear_ops 9 (db_new (lb_new m) m, lb_new m, h) =
      Some (Inr ((block_ptr (Some (next_id h)) 0, 9), \<lparr>v1_size = 0, db_max = m\<rparr>,
        (lb_new m)\<lparr>data_block := Some (next_id h), capacity := 9, lb_size := 9\<rparr>, ?h))"
    using assms(2,3) by (simp add: linear_ops_def db_prepare_def db_new_def db_resize_def lb_new_def)
  have "op_write linear_ops (block_ptr (Some (next_id h)) 0, 9) ?e (\<lparr>v1_size = 0, db_max = m\<rparr>,
        (lb_new m)\<lparr>data_block := Some (next_id h), capacity := 9, lb_size := 9\<rparr>, ?h) = None"
    using le ne by (simp add: linear_ops_def db_write_def mem_write_def block_ptr_def)
  then show ?thesis
    using p by (simp add: async_execute4_endpoint_def v4_exec_new_def get_exec4_packet_size_def put_packet_def)
qed

theorem execute4_endpoint_overflows_witness:
  "async_execute4_endpoint linear_ops cmd_connect (Ep_v4 1 80) []
     (db_new (lb_new 1000) 1000, lb_new 1000, \<lparr>blocks = Map.empty, next_id = 0, null_frees = 0\<rparr>) = None"
  by (rule execute4_endpoint_overflows) (simp_all add: heap_ok_def size_max_def)

text \<open>
  A request that cannot be encoded: with an empty buffer it is posted and completes with
  \<open>invalid_argument\<close>; with bytes of the user left in a buffer that has not been prepared yet
  it reads beyond the buffer instead.
\<close>

theorem greet_invalid_request:
  assumes "db_ok s" and "length ms > 255"
  shows "(db_readable s = [] \<longrightarrow>
      async_greet linear_ops ms s = Some (Inr ((pc_posted, s), Post)) \<and>
      (\<forall>c. env_step linear_ops v5_greet_resume (pc_posted, s, Post, [], []) c \<longleftrightarrow>
        c = (pc_done, s, Complete (ec_asio invalid_argument, auth_no_acceptable), [], []))) \<and>
    (db_readable s \<noteq> [] \<longrightarrow> \<not> db_ready s \<longrightarrow> capacity (fst (snd s)) < size_max \<longrightarrow>
      async_greet linear_ops ms s = None)"
proof -
  have new: "v5_greet_new linear_ops ms s = Some (Inr s)"
    using assms(2) by (simp add: v5_greet_new_def get_greet_packet_size_def)
  obtain d b h where s: "s = (d, b, h)" by (cases s) auto
  have inv: "db_readable s = [] \<Longrightarrow> ?thesis"
    using lin.request_invalid [OF assms(1), of 2 "\<lambda>ec. (ec, auth_no_acceptable)" v5_greet_finish,
        folded v5_greet_resume_def] new by (auto simp: async_greet_def)
  have bad: "async_greet linear_ops ms s = None"
    if "db_readable s \<noteq> []" "\<not> db_ready s" "capacity (fst (snd s)) < size_max"
  proof -
    have v: "v1_size d = size_max" using that(2) by (simp add: s db_ready.simps)
    have ok: "lb_ok b h" using assms(1) by (simp add: s db_ok.simps)
    have "length (block_of b h) < size_max" using that(3) ok by (simp add: s lb_ok_def)
    then have "db_view s = None" using lb_ok_block [OF ok]
      by (auto simp: s db_view_def mem_read_def block_ptr_def v size_max_def split: option.split)
    then show ?thesis using that(1) assms(1) new lin.size_law [OF assms(1)]
      by (simp add: async_greet_def v5_greet_resume_def request_resume_def start_write_def linear_ops_def)
  qed
  show ?thesis
  proof (cases "db_readable s = []")
    case True
    then show ?thesis by (rule inv)
  qed (use bad in blast)
qed

theorem greet_invalid_request_witness:
  "async_greet linear_ops (replicate 300 auth_none) fresh_buffer = Some (Inr ((pc_posted, fresh_buffer), Post))"
  using greet_invalid_request [OF fresh_buffer_ok(1), of "replicate 300 auth_none"] fresh_buffer_ok(2) by simp

end
