(* ===== verification/FileFlags.thy ===== *)
theory FileFlags
  imports Prelude
begin

unbundle bit_operations_syntax

text \<open>
  \<^verbatim>\<open>open_flags.hpp\<close>, \<^verbatim>\<open>file_perms.hpp\<close>, \<^verbatim>\<open>file_attrs.hpp\<close>, \<^verbatim>\<open>open_args.hpp\<close> and their
  translation to the flags of a POSIX system. The scoped enumerations with bitmask operators are
  words of their underlying type. The numbers that the system headers define are not part of the
  library: they are the fields of \<open>platform\<close>, an argument of the definitions that use them.
\<close>

section \<open>Flags of the library\<close>

definition access_read :: u32 where "access_read = push_bit 0 1"
definition access_write :: u32 where "access_write = push_bit 1 1"
definition access_read_write :: u32 where "access_read_write = access_read OR access_write"
definition create_new :: u32 where "create_new = push_bit 2 1"
definition create_always :: u32 where "create_always = push_bit 3 1"
definition open_existing :: u32 where "open_existing = push_bit 4 1"
definition open_always :: u32 where "open_always = push_bit 5 1"
definition truncate_existing :: u32 where "truncate_existing = push_bit 6 1"
definition exclusive_read :: u32 where "exclusive_read = push_bit 7 1"
definition exclusive_write :: u32 where "exclusive_write = push_bit 8 1"
definition internal_async :: u32 where "internal_async = push_bit 9 1"

lemmas open_flag_defs = access_read_def access_write_def access_read_write_def create_new_def
  create_always_def open_existing_def open_always_def truncate_existing_def exclusive_read_def
  exclusive_write_def internal_async_def

definition owner_write :: u32 where "owner_write = 128"
definition group_write :: u32 where "group_write = 16"
definition others_write :: u32 where "others_write = 2"
definition perms_all :: u32 where "perms_all = 511"
definition create_default :: u32 where "create_default = 438"

definition opt_replace :: u32 where "opt_replace = push_bit 0 1"
definition opt_add :: u32 where "opt_add = push_bit 1 1"
definition opt_remove :: u32 where "opt_remove = push_bit 2 1"

definition attr_hidden :: u32 where "attr_hidden = push_bit 0 1"
definition attr_system :: u32 where "attr_system = push_bit 1 1"
definition attr_archive :: u32 where "attr_archive = push_bit 2 1"
definition attr_no_dump :: u32 where "attr_no_dump = push_bit 3 1"
definition attr_not_indexed :: u32 where "attr_not_indexed = push_bit 4 1"
definition attr_user_immutable :: u32 where "attr_user_immutable = push_bit 5 1"
definition attr_system_immutable :: u32 where "attr_system_immutable = push_bit 6 1"
definition attr_user_no_unlink :: u32 where "attr_user_no_unlink = push_bit 7 1"
definition attr_system_no_unlink :: u32 where "attr_system_no_unlink = push_bit 8 1"

lemmas attr_defs = attr_hidden_def attr_system_def attr_archive_def attr_no_dump_def
  attr_not_indexed_def attr_user_immutable_def attr_system_immutable_def attr_user_no_unlink_def
  attr_system_no_unlink_def

text \<open>\<^verbatim>\<open>is_valid(open_flags)\<close>: at most one creation mode.\<close>

definition flags_valid :: "u32 \<Rightarrow> bool" where
  "flags_valid flags =
     (let count = of_bool (flags AND create_new \<noteq> 0) + of_bool (flags AND create_always \<noteq> 0)
        + of_bool (flags AND open_existing \<noteq> 0) + of_bool (flags AND open_always \<noteq> 0)
        + of_bool (flags AND truncate_existing \<noteq> 0) :: nat in
      \<not> count > 1)"

section \<open>The system's numbers\<close>

text \<open>
  A flag the system does not define (\<^verbatim>\<open>#ifdef\<close>) is \<open>None\<close>. \<open>EINTR\<close> is the error number of an
  interrupted call, \<open>UTIME_OMIT\<close> the nanoseconds that stand for "leave this time alone";
  \<open>has_file_flags\<close> tells whether the system has \<^verbatim>\<open>fchflags\<close>, \<open>has_birthtime\<close> whether its
  \<^verbatim>\<open>struct stat\<close> has the time of creation, \<open>has_pvec_io\<close> whether it has \<^verbatim>\<open>preadv\<close> and
  \<^verbatim>\<open>pwritev\<close>.
\<close>

record platform =
  O_CREAT :: u32
  O_EXCL :: u32
  O_TRUNC :: u32
  O_RDONLY :: u32
  O_WRONLY :: u32
  O_RDWR :: u32
  O_CLOEXEC :: u32
  EINTR :: nat
  has_file_flags :: bool
  has_birthtime :: bool
  has_pvec_io :: bool
  UTIME_OMIT :: int
  UF_HIDDEN :: "u32 option"
  UF_SYSTEM :: "u32 option"
  UF_ARCHIVE :: "u32 option"
  UF_NODUMP :: "u32 option"
  UF_IMMUTABLE :: "u32 option"
  SF_IMMUTABLE :: "u32 option"
  UF_NOUNLINK :: "u32 option"
  SF_NOUNLINK :: "u32 option"

section \<open>Attributes\<close>

text \<open>One \<^verbatim>\<open>if\<close> of the two conversions, under its \<^verbatim>\<open>#ifdef\<close>.\<close>

definition set_native :: "u32 \<Rightarrow> u32 option \<Rightarrow> u32 \<Rightarrow> u32 \<Rightarrow> u32" where
  "set_native attrs nf attr native =
     (case nf of
        None \<Rightarrow> native
      | Some f \<Rightarrow> if attrs AND attr \<noteq> 0 then native OR f else native)"

definition set_attr :: "u32 \<Rightarrow> u32 option \<Rightarrow> u32 \<Rightarrow> u32 \<Rightarrow> u32" where
  "set_attr native nf attr attrs =
     (case nf of
        None \<Rightarrow> attrs
      | Some f \<Rightarrow> if native AND f \<noteq> 0 then attrs OR attr else attrs)"

definition file_attrs_to_native :: "platform \<Rightarrow> u32 \<Rightarrow> u32" where
  "file_attrs_to_native P attrs =
     (let native = 0;
          native = set_native attrs (UF_HIDDEN P) attr_hidden native;
          native = set_native attrs (UF_SYSTEM P) attr_system native;
          native = set_native attrs (UF_ARCHIVE P) attr_archive native;
          native = set_native attrs (UF_NODUMP P) attr_no_dump native;
          native = set_native attrs (UF_IMMUTABLE P) attr_user_immutable native;
          native = set_native attrs (SF_IMMUTABLE P) attr_system_immutable native;
          native = set_native attrs (UF_NOUNLINK P) attr_user_no_unlink native;
          native = set_native attrs (SF_NOUNLINK P) attr_system_no_unlink native
      in native)"

definition native_to_file_attrs :: "platform \<Rightarrow> u32 \<Rightarrow> u32" where
  "native_to_file_attrs P native =
     (let attrs = 0;
          attrs = set_attr native (UF_HIDDEN P) attr_hidden attrs;
          attrs = set_attr native (UF_SYSTEM P) attr_system attrs;
          attrs = set_attr native (UF_ARCHIVE P) attr_archive attrs;
          attrs = set_attr native (UF_NODUMP P) attr_no_dump attrs;
          attrs = set_attr native (UF_IMMUTABLE P) attr_user_immutable attrs;
          attrs = set_attr native (SF_IMMUTABLE P) attr_system_immutable attrs;
          attrs = set_attr native (UF_NOUNLINK P) attr_user_no_unlink attrs;
          attrs = set_attr native (SF_NOUNLINK P) attr_system_no_unlink attrs
      in attrs)"

section \<open>Arguments of open()\<close>

definition parse_open_flags :: "platform \<Rightarrow> u32 \<Rightarrow> u32" where
  "parse_open_flags P flags =
     (let native_flags =
        (if flags AND create_new \<noteq> 0 then O_CREAT P OR O_EXCL P
         else if flags AND create_always \<noteq> 0 then O_CREAT P OR O_TRUNC P
         else if flags AND open_always \<noteq> 0 then O_CREAT P
         else if flags AND truncate_existing \<noteq> 0 then O_TRUNC P
         else 0);
          rw_flags = flags AND access_read_write in
      if rw_flags = access_read_write then native_flags OR O_RDWR P
      else if rw_flags = access_read then native_flags OR O_RDONLY P
      else if rw_flags = access_write then native_flags OR O_WRONLY P
      else native_flags)"

text \<open>\<^verbatim>\<open>native_flags_\<close> is an \<^verbatim>\<open>int\<close>; its bits are kept, so -1 is the largest word.\<close>

record open_args =
  native_flags :: u32
  oa_mode :: u32
  oa_attrs :: u32

definition open_args_default :: open_args where
  "open_args_default = \<lparr>native_flags = - 1, oa_mode = 0, oa_attrs = 0\<rparr>"

text \<open>
  The constructor from flags; \<open>junk\<close> is what the memory of the object held, which the members keep
  that an invalid combination leaves unset.
\<close>

definition open_args_new :: "platform \<Rightarrow> open_args \<Rightarrow> u32 \<Rightarrow> u32 \<Rightarrow> u32 \<Rightarrow> open_args" where
  "open_args_new P junk flags perms attrs =
     (if flags_valid flags
      then \<lparr>native_flags = parse_open_flags P flags, oa_mode = perms AND perms_all,
            oa_attrs = file_attrs_to_native P attrs\<rparr>
      else junk\<lparr>native_flags := - 1\<rparr>)"

definition open_args_valid :: "open_args \<Rightarrow> bool" where
  "open_args_valid args = (native_flags args \<noteq> - 1)"

section \<open>Attributes survive the conversion\<close>

lemma and_or_nonzero: "(x OR y) AND (z :: u32) \<noteq> 0 \<longleftrightarrow> x AND z \<noteq> 0 \<or> y AND z \<noteq> 0"
proof -
  have "(x OR y) AND z = (x AND z) OR (y AND z)" by (rule bit.conj_disj_distrib2)
  then show ?thesis by (metis or_eq_0_iff)
qed

text \<open>The two conversions as folds over the pairs of flags.\<close>

definition attr_table :: "platform \<Rightarrow> (u32 option \<times> u32) list" where
  "attr_table P =
     [(UF_HIDDEN P, attr_hidden), (UF_SYSTEM P, attr_system), (UF_ARCHIVE P, attr_archive),
      (UF_NODUMP P, attr_no_dump), (UF_IMMUTABLE P, attr_user_immutable),
      (SF_IMMUTABLE P, attr_system_immutable), (UF_NOUNLINK P, attr_user_no_unlink),
      (SF_NOUNLINK P, attr_system_no_unlink)]"

lemma file_attrs_to_native_fold:
  "file_attrs_to_native P attrs = fold (\<lambda>(nf, a). set_native attrs nf a) (attr_table P) 0"
  by (simp add: file_attrs_to_native_def attr_table_def Let_def)

lemma native_to_file_attrs_fold:
  "native_to_file_attrs P native = fold (\<lambda>(nf, a). set_attr native nf a) (attr_table P) 0"
  by (simp add: native_to_file_attrs_def attr_table_def Let_def)

lemma native_bit:
  "fold (\<lambda>(nf, a). set_native attrs nf a) t n AND g \<noteq> 0 \<longleftrightarrow>
     n AND g \<noteq> 0 \<or> (\<exists>f a. (Some f, a) \<in> set t \<and> attrs AND a \<noteq> 0 \<and> f AND g \<noteq> 0)"
proof (induction t arbitrary: n)
  case (Cons p t)
  obtain nf a where p: "p = (nf, a)" by (cases p)
  have "set_native attrs nf a n AND g \<noteq> 0 \<longleftrightarrow>
      n AND g \<noteq> 0 \<or> (\<exists>f. nf = Some f \<and> attrs AND a \<noteq> 0 \<and> f AND g \<noteq> 0)"
    by (auto simp: set_native_def and_or_nonzero split: option.split)
  then show ?case using Cons.IH [of "set_native attrs nf a n"] by (auto simp: p)
qed simp

text \<open>The attributes a system supports.\<close>

definition supported_attrs :: "platform \<Rightarrow> u32" where
  "supported_attrs P = fold (\<lambda>(nf, a) s. if nf = None then s else s OR a) (attr_table P) 0"

text \<open>
  What the headers promise of the flags: none is zero, no two that are defined share a bit.
\<close>

fun disjoint_flags :: "u32 option list \<Rightarrow> bool" where
  "disjoint_flags [] = True"
| "disjoint_flags (None # fs) = disjoint_flags fs"
| "disjoint_flags (Some f # fs) =
     (f \<noteq> 0 \<and> list_all (\<lambda>g. case g of None \<Rightarrow> True | Some x \<Rightarrow> f AND x = 0) fs \<and> disjoint_flags fs)"

definition file_flags_ok :: "platform \<Rightarrow> bool" where
  "file_flags_ok P = disjoint_flags (map fst (attr_table P))"

lemma disjoint_flags_nonzero:
  "disjoint_flags (map fst t) \<Longrightarrow> (Some f, a) \<in> set t \<Longrightarrow> f \<noteq> 0"
proof (induction t)
  case (Cons p t)
  show ?case using Cons.IH Cons.prems by (cases p; cases "fst p") auto
qed simp

lemma disjoint_flags_unique:
  "disjoint_flags (map fst t) \<Longrightarrow> (Some f, a) \<in> set t \<Longrightarrow> (Some g, b) \<in> set t
    \<Longrightarrow> f AND g \<noteq> 0 \<Longrightarrow> a = b"
proof (induction t)
  case (Cons p t)
  have rest: "x AND y = 0" if "p = (Some x, c)" and "(Some y, d) \<in> set t" for x y c d
    using Cons.prems(1) that by (force simp: list_all_iff split: option.splits)
  have tail: "disjoint_flags (map fst t)"
    using Cons.prems(1) by (cases p; cases "fst p") auto
  have rest': "y AND x = 0" if "p = (Some x, c)" and "(Some y, d) \<in> set t" for x y c d
    using rest [OF that] by (simp only: and.commute)
  show ?case
    using Cons.IH [OF tail] Cons.prems(2-4) rest rest' by auto
qed simp

lemma attr_fold:
  assumes "list_all (\<lambda>(nf, a). \<forall>f. nf = Some f \<longrightarrow> (native AND f \<noteq> 0 \<longleftrightarrow> attrs AND a \<noteq> 0)) t"
    and "list_all (\<lambda>(nf, a). attrs AND a = 0 \<or> attrs AND a = a) t"
    and "n = attrs AND m"
  shows "fold (\<lambda>(nf, a). set_attr native nf a) t n =
    attrs AND fold (\<lambda>(nf, a) s. if nf = None then s else s OR a) t m"
  using assms
proof (induction t arbitrary: n m)
  case (Cons p t)
  obtain nf a where p: "p = (nf, a)" by (cases p)
  have "set_attr native nf a n = attrs AND (if nf = None then m else m OR a)"
    using Cons.prems by (auto simp: p set_attr_def bit.conj_disj_distrib split: option.split)
  then show ?case using Cons.IH Cons.prems by (simp add: p)
qed simp

lemma single_bit: "(attrs :: u32) AND push_bit n 1 = 0 \<or> attrs AND push_bit n 1 = push_bit n 1"
proof (cases "bit attrs n")
  case True
  then have "attrs AND push_bit n 1 = push_bit n 1"
    by (intro bit_eqI) (auto simp: bit_and_iff bit_exp_iff)
  then show ?thesis by simp
next
  case False
  then have "attrs AND push_bit n 1 = 0"
    by (intro bit_eqI) (auto simp: bit_and_iff bit_exp_iff)
  then show ?thesis by simp
qed

lemma attr_table_single:
  "list_all (\<lambda>(nf, a). attrs AND a = 0 \<or> attrs AND a = a) (attr_table P)"
proof -
  have "list_all (\<lambda>(nf, a). \<exists>n. a = push_bit n 1) (attr_table P)"
    unfolding attr_table_def attr_defs list.pred_inject prod.case by (intro conjI) ((rule exI, rule refl)+, simp)
  then show ?thesis
    by (rule list.pred_mono_strong) (use single_bit in blast)
qed

text \<open>
  Converting attributes to the flags of the system and back keeps exactly those the system
  supports, whichever flags it defines, as long as the flags do not overlap.
\<close>

theorem attrs_round_trip:
  assumes "file_flags_ok P"
  shows "native_to_file_attrs P (file_attrs_to_native P attrs) = attrs AND supported_attrs P"
proof -
  let ?t = "attr_table P" and ?n = "file_attrs_to_native P attrs"
  have ok: "disjoint_flags (map fst ?t)" using assms by (simp add: file_flags_ok_def)
  have "?n AND f \<noteq> 0 \<longleftrightarrow> attrs AND a \<noteq> 0" if "(Some f, a) \<in> set ?t" for f a
  proof -
    have "f AND f \<noteq> 0" using disjoint_flags_nonzero [OF ok that] by simp
    moreover have "b = a" if "(Some g, b) \<in> set ?t" and "g AND f \<noteq> 0" for g b
      using disjoint_flags_unique [OF ok that(1) _ that(2)] \<open>(Some f, a) \<in> set ?t\<close> by blast
    ultimately show ?thesis
      unfolding file_attrs_to_native_fold native_bit using that by (metis and_zero_eq and.commute)
  qed
  then have "list_all (\<lambda>(nf, a). \<forall>f. nf = Some f \<longrightarrow> (?n AND f \<noteq> 0 \<longleftrightarrow> attrs AND a \<noteq> 0)) ?t"
    by (auto simp: list_all_iff)
  then show ?thesis
    unfolding native_to_file_attrs_fold supported_attrs_def
    by (rule attr_fold) (simp_all add: attr_table_single)
qed

text \<open>The values of FreeBSD and of Linux, for examples.\<close>

definition freebsd :: platform where
  "freebsd =
     \<lparr>O_CREAT = 0x200, O_EXCL = 0x800, O_TRUNC = 0x400, O_RDONLY = 0, O_WRONLY = 1, O_RDWR = 2,
      O_CLOEXEC = 0x100000, EINTR = 4, has_file_flags = True, has_birthtime = True, has_pvec_io = True, UTIME_OMIT = - 2,
      UF_HIDDEN = Some 0x8000,
      UF_SYSTEM = Some 0x80, UF_ARCHIVE = Some 0x800, UF_NODUMP = Some 1, UF_IMMUTABLE = Some 2,
      SF_IMMUTABLE = Some 0x20000, UF_NOUNLINK = Some 0x10, SF_NOUNLINK = Some 0x100000\<rparr>"

definition linux :: platform where
  "linux =
     \<lparr>O_CREAT = 0x40, O_EXCL = 0x80, O_TRUNC = 0x200, O_RDONLY = 0, O_WRONLY = 1, O_RDWR = 2,
      O_CLOEXEC = 0x80000, EINTR = 4, has_file_flags = False, has_birthtime = False, has_pvec_io = True, UTIME_OMIT = 0x3FFFFFFE,
      UF_HIDDEN = None,
      UF_SYSTEM = None, UF_ARCHIVE = None, UF_NODUMP = None, UF_IMMUTABLE = None,
      SF_IMMUTABLE = None, UF_NOUNLINK = None, SF_NOUNLINK = None\<rparr>"

theorem attrs_round_trip_witness:
  "native_to_file_attrs freebsd (file_attrs_to_native freebsd (attr_hidden OR attr_not_indexed))
    = attr_hidden"
proof -
  have "file_flags_ok freebsd"
    by (simp add: file_flags_ok_def attr_table_def freebsd_def)
  moreover have "supported_attrs freebsd = 0x1EF"
    by (simp add: supported_attrs_def attr_table_def freebsd_def attr_defs)
  ultimately show ?thesis by (simp add: attrs_round_trip attr_hidden_def attr_not_indexed_def)
qed

section \<open>The arguments of open() are what the flags say\<close>

text \<open>
  What the headers promise of the flags of \<^verbatim>\<open>open\<close>: the modes of creation and \<open>O_CLOEXEC\<close> are
  not zero and share no bit with each other or with the access modes.
\<close>

definition open_flags_ok :: "platform \<Rightarrow> bool" where
  "open_flags_ok P =
     disjoint_flags [Some (O_CLOEXEC P), Some (O_CREAT P), Some (O_EXCL P), Some (O_TRUNC P),
       if O_RDONLY P OR O_WRONLY P OR O_RDWR P = 0 then None
       else Some (O_RDONLY P OR O_WRONLY P OR O_RDWR P)]"

text \<open>The creation modes of the library and of the system.\<close>

definition creation_modes :: "u32 list" where
  "creation_modes = [create_new, create_always, open_existing, open_always, truncate_existing]"

lemma flags_valid_count:
  "flags_valid flags \<longleftrightarrow> length (filter (\<lambda>f. flags AND f \<noteq> 0) creation_modes) \<le> 1"
  by (simp add: flags_valid_def creation_modes_def Let_def)

lemma flags_valid_unique:
  assumes "flags_valid flags" and "f \<in> set creation_modes" and "g \<in> set creation_modes"
    and "flags AND f \<noteq> 0" and "flags AND g \<noteq> 0"
  shows "f = g"
proof -
  let ?fs = "filter (\<lambda>f. flags AND f \<noteq> 0) creation_modes"
  have "f \<in> set ?fs" and "g \<in> set ?fs" using assms(2-5) by simp_all
  moreover have "length ?fs \<le> 1" using assms(1) by (simp add: flags_valid_count)
  ultimately show ?thesis by (cases ?fs; cases "tl ?fs") auto
qed

text \<open>The bits of the access mode that \<open>parse_open_flags\<close> adds.\<close>

definition native_access :: "platform \<Rightarrow> u32 \<Rightarrow> u32" where
  "native_access P flags =
     (if flags AND access_read \<noteq> 0 then (if flags AND access_write \<noteq> 0 then O_RDWR P else O_RDONLY P)
      else if flags AND access_write \<noteq> 0 then O_WRONLY P else 0)"

lemma access_bits:
  "flags AND access_read_write = access_read_write \<longleftrightarrow> flags AND access_read \<noteq> 0 \<and> flags AND access_write \<noteq> 0"
  "flags AND access_read_write = access_read \<longleftrightarrow> flags AND access_read \<noteq> 0 \<and> flags AND access_write = 0"
  "flags AND access_read_write = access_write \<longleftrightarrow> flags AND access_read = 0 \<and> flags AND access_write \<noteq> 0"
proof -
  have "flags AND access_read_write = (flags AND 1) OR (flags AND 2)"
    by (simp add: open_flag_defs bit.conj_disj_distrib [symmetric])
  moreover have "flags AND 1 = 0 \<or> flags AND 1 = 1" and "flags AND 2 = 0 \<or> flags AND 2 = 2"
    using single_bit [of flags 0] single_bit [of flags 1] by simp_all
  ultimately show
    "flags AND access_read_write = access_read_write \<longleftrightarrow> flags AND access_read \<noteq> 0 \<and> flags AND access_write \<noteq> 0"
    "flags AND access_read_write = access_read \<longleftrightarrow> flags AND access_read \<noteq> 0 \<and> flags AND access_write = 0"
    "flags AND access_read_write = access_write \<longleftrightarrow> flags AND access_read = 0 \<and> flags AND access_write \<noteq> 0"
    by (auto simp: open_flag_defs)
qed

lemma parse_open_flags_access:
  "parse_open_flags P flags =
     (if flags AND create_new \<noteq> 0 then O_CREAT P OR O_EXCL P
      else if flags AND create_always \<noteq> 0 then O_CREAT P OR O_TRUNC P
      else if flags AND open_always \<noteq> 0 then O_CREAT P
      else if flags AND truncate_existing \<noteq> 0 then O_TRUNC P else 0) OR native_access P flags"
proof -
  have "access_read_write \<noteq> access_read" "access_read_write \<noteq> access_write" "access_read \<noteq> access_write"
    by (simp_all add: open_flag_defs)
  then show ?thesis
    unfolding parse_open_flags_def native_access_def Let_def access_bits by simp
qed

lemma open_flags_disjoint:
  assumes "open_flags_ok P"
  defines "acc \<equiv> O_RDONLY P OR O_WRONLY P OR O_RDWR P"
  shows "O_CLOEXEC P \<noteq> 0" "O_CREAT P \<noteq> 0" "O_EXCL P \<noteq> 0" "O_TRUNC P \<noteq> 0"
    and "O_CREAT P AND O_CLOEXEC P = 0" "O_EXCL P AND O_CLOEXEC P = 0" "O_TRUNC P AND O_CLOEXEC P = 0"
    and "O_CREAT P AND O_EXCL P = 0" "O_EXCL P AND O_CREAT P = 0" "O_CREAT P AND O_TRUNC P = 0"
    and "O_TRUNC P AND O_CREAT P = 0" "O_EXCL P AND O_TRUNC P = 0" "O_TRUNC P AND O_EXCL P = 0"
    and "acc AND O_CLOEXEC P = 0" "acc AND O_CREAT P = 0" "acc AND O_EXCL P = 0" "acc AND O_TRUNC P = 0"
    and "O_CREAT P AND acc = 0" "O_EXCL P AND acc = 0" "O_TRUNC P AND acc = 0"
  using assms(1) unfolding open_flags_ok_def acc_def
  by (auto simp: and.commute split: if_splits)

lemma native_access_mask:
  "native_access P flags AND (O_RDONLY P OR O_WRONLY P OR O_RDWR P) = native_access P flags"
  by (auto simp: native_access_def intro!: bit_eqI simp: bit_simps)

lemma native_access_disjoint:
  assumes "(O_RDONLY P OR O_WRONLY P OR O_RDWR P) AND x = 0"
  shows "native_access P flags AND x = 0"
  using assms native_access_mask [of P flags] by (metis and.assoc and_zero_eq)

text \<open>
  C32. An \<open>open_args\<close> object built from flags is valid exactly if they name at most one creation mode.
  Then \<^verbatim>\<open>open\<close> creates the file for the three modes that may create one, insists on creating it for
  \<open>create_new\<close> only, truncates for the two modes that say so, and asks for the access the flags ask
  for; the permission bits are cut to the nine bits of \<open>file_perms::all\<close>.
\<close>

theorem open_args_new_spec:
  fixes P junk flags perms attrs
  assumes "open_flags_ok P"
  defines "args \<equiv> open_args_new P junk flags perms attrs"
  shows "(open_args_valid args \<longleftrightarrow> length (filter (\<lambda>f. flags AND f \<noteq> 0) creation_modes) \<le> 1)
    \<and> (open_args_valid args \<longrightarrow>
        (native_flags args AND O_CREAT P \<noteq> 0
           \<longleftrightarrow> flags AND create_new \<noteq> 0 \<or> flags AND create_always \<noteq> 0 \<or> flags AND open_always \<noteq> 0)
      \<and> (native_flags args AND O_EXCL P \<noteq> 0 \<longleftrightarrow> flags AND create_new \<noteq> 0)
      \<and> (native_flags args AND O_TRUNC P \<noteq> 0
           \<longleftrightarrow> flags AND create_always \<noteq> 0 \<or> flags AND truncate_existing \<noteq> 0)
      \<and> native_flags args AND (O_RDONLY P OR O_WRONLY P OR O_RDWR P) = native_access P flags
      \<and> oa_mode args = perms AND 0x1FF)"
proof -
  let ?n = "parse_open_flags P flags"
  note dis = open_flags_disjoint [OF assms(1)]
  note acc0 = dis(14-17) [THEN native_access_disjoint, of flags]
  have modes: "set creation_modes = {create_new, create_always, open_existing, open_always, truncate_existing}"
    by (simp add: creation_modes_def)
  have distinct: "create_new \<noteq> create_always" "create_new \<noteq> open_always" "create_new \<noteq> truncate_existing"
    "create_always \<noteq> open_always" "create_always \<noteq> truncate_existing" "open_always \<noteq> truncate_existing"
    by (simp_all add: open_flag_defs)
  have "?n AND O_CLOEXEC P = 0"
    using dis acc0 by (simp add: parse_open_flags_access bit.conj_disj_distrib2)
  then have "?n \<noteq> - 1" using dis(1) by auto
  then have valid: "open_args_valid args \<longleftrightarrow> flags_valid flags"
    by (simp add: args_def open_args_valid_def open_args_new_def)
  have bits: "(?n AND O_CREAT P \<noteq> 0
           \<longleftrightarrow> flags AND create_new \<noteq> 0 \<or> flags AND create_always \<noteq> 0 \<or> flags AND open_always \<noteq> 0)
      \<and> (?n AND O_EXCL P \<noteq> 0 \<longleftrightarrow> flags AND create_new \<noteq> 0)
      \<and> (?n AND O_TRUNC P \<noteq> 0 \<longleftrightarrow> flags AND create_always \<noteq> 0 \<or> flags AND truncate_existing \<noteq> 0)
      \<and> ?n AND (O_RDONLY P OR O_WRONLY P OR O_RDWR P) = native_access P flags"
    if v: "flags_valid flags"
  proof -
    note one = flags_valid_unique [OF v, unfolded modes]
    have "\<not> (flags AND create_new \<noteq> 0 \<and> flags AND create_always \<noteq> 0)"
      and "\<not> (flags AND create_new \<noteq> 0 \<and> flags AND open_always \<noteq> 0)"
      and "\<not> (flags AND create_new \<noteq> 0 \<and> flags AND truncate_existing \<noteq> 0)"
      and "\<not> (flags AND create_always \<noteq> 0 \<and> flags AND open_always \<noteq> 0)"
      and "\<not> (flags AND create_always \<noteq> 0 \<and> flags AND truncate_existing \<noteq> 0)"
      and "\<not> (flags AND open_always \<noteq> 0 \<and> flags AND truncate_existing \<noteq> 0)"
      using one [of create_new create_always] one [of create_new open_always]
        one [of create_new truncate_existing] one [of create_always open_always]
        one [of create_always truncate_existing] one [of open_always truncate_existing] distinct
      by auto
    then show ?thesis
      unfolding parse_open_flags_access bit.conj_disj_distrib2
      by (simp add: bit.conj_disj_distrib2 dis acc0 native_access_mask) blast
  qed
  show ?thesis
    unfolding valid flags_valid_count [symmetric]
    using bits by (simp add: args_def open_args_new_def perms_all_def)
qed

theorem open_args_new_spec_witness:
  "open_args_valid (open_args_new linux open_args_default (create_new OR access_write) create_default 0)
   \<and> native_flags (open_args_new linux open_args_default (create_new OR access_write) create_default 0)
      AND O_EXCL linux \<noteq> 0
   \<and> \<not> open_args_valid (open_args_new linux open_args_default (create_new OR open_always) create_default 0)"
proof -
  have ok: "open_flags_ok linux" by (simp add: open_flags_ok_def linux_def)
  show ?thesis
    using open_args_new_spec [OF ok, of open_args_default "create_new OR access_write" create_default 0]
      open_args_new_spec [OF ok, of open_args_default "create_new OR open_always" create_default 0]
    by (simp add: creation_modes_def open_flag_defs)
qed

end
