(* ===== verification/Chrono.thy ===== *)
theory Chrono
  imports Prelude "HOL-Library.Signed_Division"
begin

text \<open>
  \<^verbatim>\<open>chrono.hpp\<close>, \<^verbatim>\<open>detail/chrono.hpp\<close> and \<^verbatim>\<open>detail/impl/chrono.hpp\<close>:
  casts between durations that check their range, and the split of a time into two units (seconds
  and nanoseconds, as in \<^verbatim>\<open>timespec\<close>) and back. A duration is its count of ticks, an
  integer; the representation types are signed and 32 or 64 bits wide, given by their limits, so
  the type the casts compute in is \<^verbatim>\<open>intmax_t\<close>. The C++ quotient truncates
  towards zero (\<open>sdiv\<close>), and a \<^verbatim>\<open>static_cast\<close> to a narrower type, which
  \<^verbatim>\<open>duration_cast\<close> ends with, wraps around (\<open>narrow\<close>). A result is \<open>None\<close> where a signed computation overflows, which is
  undefined behaviour, and otherwise the value, or \<open>None\<close> inside for the return value
  \<^verbatim>\<open>false\<close>.
\<close>

section \<open>Representation types\<close>

record rep_type =
  rmin :: int
  rmax :: int

definition signed_rep :: "nat \<Rightarrow> rep_type" where
  "signed_rep w = \<lparr>rmin = - (2 ^ (w - 1)), rmax = 2 ^ (w - 1) - 1\<rparr>"

definition conv_type :: rep_type where
  "conv_type = signed_rep 64"

definition in_rep :: "rep_type \<Rightarrow> int \<Rightarrow> bool" where
  "in_rep r x = (rmin r \<le> x \<and> x \<le> rmax r)"

text \<open>
  The conversion of a value to a type wraps around; a computation in a type whose value the type does
  not have overflows, and \<open>checked\<close> is such a computation in the common type. A sum of two durations
  is computed in the wider of their types.
\<close>

definition narrow :: "rep_type \<Rightarrow> int \<Rightarrow> int" where
  "narrow r x = (x - rmin r) mod (rmax r - rmin r + 1) + rmin r"

definition checked_in :: "rep_type \<Rightarrow> int \<Rightarrow> int option" where
  "checked_in r x = (if in_rep r x then Some x else None)"

definition checked :: "int \<Rightarrow> int option" where
  "checked x = checked_in conv_type x"

definition common_rep :: "rep_type \<Rightarrow> rep_type \<Rightarrow> rep_type" where
  "common_rep a b = (if rmax a \<ge> rmax b then a else b)"

section \<open>Casts\<close>

text \<open>\<open>num / den\<close> is the quotient of the two periods, in lowest terms.\<close>

definition safe_duration_cast :: "int \<Rightarrow> int \<Rightarrow> rep_type \<Rightarrow> int \<Rightarrow> int option option" where
  "safe_duration_cast num den out c =
     (if num = 1 \<and> den = 1 then
        (if c \<ge> rmin out \<and> c \<le> rmax out then Some (Some c) else Some None)
      else if num \<noteq> 1 \<and> den = 1 then
        (if c \<ge> rmin out sdiv num \<and> c \<le> rmax out sdiv num
         then map_option Some (checked (c * num)) else Some None)
      else if num = 1 \<and> den \<noteq> 1 then
        (let temp = c sdiv den in
         if temp \<ge> rmin out \<and> temp \<le> rmax out then Some (Some temp) else Some None)
      else
        (if c < rmin conv_type sdiv num \<and> c > rmax conv_type sdiv num then Some None
         else
           (case checked (c * num) of
              None \<Rightarrow> None
            | Some p \<Rightarrow>
                (let temp = p sdiv den in
                 if temp \<ge> rmin out \<and> temp \<le> rmax out then Some (Some temp) else Some None))))"

section \<open>Two units\<close>

text \<open>
  The types of a split: a tick of the first unit is \<open>first_ticks\<close> ticks of the duration, one of the
  second unit \<open>second_ticks\<close> ticks, and \<open>second_ticks\<close> divides \<open>first_ticks\<close>.
\<close>

record time_types =
  dur_rep :: rep_type
  first_rep :: rep_type
  second_rep :: rep_type
  first_ticks :: int
  second_ticks :: int

text \<open>
  The limits of a split, each the count of a \<^verbatim>\<open>duration_cast\<close> to the type of its unit. The
  last two compute in the common type of the duration and its first unit, to which a number of ticks,
  each \<open>f\<close> ticks of the duration, is converted by \<open>to_ticks\<close>.
\<close>

definition max_first :: "time_types \<Rightarrow> int" where
  "max_first T = narrow (first_rep T) (rmax (dur_rep T) sdiv first_ticks T)"

definition min_first :: "time_types \<Rightarrow> int" where
  "min_first T = narrow (first_rep T) (rmin (dur_rep T) sdiv first_ticks T)"

definition to_ticks :: "rep_type \<Rightarrow> int \<Rightarrow> int \<Rightarrow> int option" where
  "to_ticks r f x = map_option (narrow r) (checked (x * f))"

definition max_second :: "time_types \<Rightarrow> int option" where
  "max_second T =
     (let diff_rep = common_rep (dur_rep T) (first_rep T) in
      Option.bind (to_ticks diff_rep (first_ticks T) (max_first T)) (\<lambda>a.
      Option.bind (checked_in diff_rep (rmax (dur_rep T) - a)) (\<lambda>b.
      Some (narrow (second_rep T) (b sdiv second_ticks T)))))"

definition min_second :: "time_types \<Rightarrow> int option" where
  "min_second T =
     (let diff_rep = common_rep (dur_rep T) (first_rep T) in
      Option.bind (to_ticks diff_rep (first_ticks T) (min_first T)) (\<lambda>a.
      Option.bind (checked_in diff_rep (rmin (dur_rep T) - a)) (\<lambda>b.
      Option.bind (to_ticks diff_rep (first_ticks T) 1) (\<lambda>u.
      Option.bind (checked_in diff_rep (b + u)) (\<lambda>d.
      Some (narrow (second_rep T) (d sdiv second_ticks T)))))))"

definition decompose_time :: "time_types \<Rightarrow> int \<Rightarrow> (int \<times> int) option option" where
  "decompose_time T c =
     (case safe_duration_cast 1 (first_ticks T) conv_type c of
        None \<Rightarrow> None
      | Some None \<Rightarrow> Some None
      | Some (Some first_temp) \<Rightarrow>
          (case safe_duration_cast 1 (second_ticks T) conv_type (c - first_temp * first_ticks T) of
             None \<Rightarrow> None
           | Some None \<Rightarrow> Some None
           | Some (Some second_temp) \<Rightarrow>
               (let adjusted =
                  (if second_temp < 0 then
                     (if first_temp > min_first T \<or>
                         rmin (first_rep T) \<noteq> min_first T \<and> first_temp = min_first T
                      then Some (first_temp - 1, second_temp + first_ticks T sdiv second_ticks T) else None)
                   else Some (first_temp, second_temp)) in
                case adjusted of
                  None \<Rightarrow> Some None
                | Some (f, s) \<Rightarrow>
                    (case safe_duration_cast 1 1 (first_rep T) f of
                       None \<Rightarrow> None
                     | Some None \<Rightarrow> Some None
                     | Some (Some first) \<Rightarrow>
                         (case safe_duration_cast 1 1 (second_rep T) s of
                            None \<Rightarrow> None
                          | Some None \<Rightarrow> Some None
                          | Some (Some second) \<Rightarrow> Some (Some (first, second)))))))"

text \<open>The conditions are evaluated from the left, and the limits only where they are reached.\<close>

definition compose_time :: "time_types \<Rightarrow> int \<Rightarrow> int \<Rightarrow> int option option" where
  "compose_time T first second =
     (let second_per_first = first_ticks T sdiv second_ticks T;
          sum_rep = common_rep (first_rep T) (second_rep T) in
      if first \<ge> 0 then
        Option.bind
          (if first < max_first T then Some True
           else if first = max_first T then map_option (\<lambda>m. second \<le> m) (max_second T)
           else Some False)
          (\<lambda>accepted.
            if accepted then map_option Some
              (Option.bind (to_ticks sum_rep second_per_first first) (\<lambda>a.
               Option.bind (checked_in sum_rep (a + second)) (\<lambda>b.
               to_ticks (dur_rep T) (second_ticks T) b)))
            else Some None)
      else
        Option.bind
          (if rmin (first_rep T) \<noteq> min_first T \<and> first = min_first T - 1
           then map_option (\<lambda>m. second < m) (min_second T)
           else map_option (\<lambda>m. first < m) (min_second T))
          (\<lambda>rejected.
            if rejected then Some None
            else if second = 0 then map_option Some (to_ticks (dur_rep T) (first_ticks T) first)
            else map_option Some
              (Option.bind (to_ticks sum_rep second_per_first 1) (\<lambda>u.
               Option.bind (checked_in sum_rep (u - second)) (\<lambda>d.
               Option.bind (to_ticks (dur_rep T) (second_ticks T) d) (\<lambda>adjust.
               Option.bind (checked_in (first_rep T) (first + 1)) (\<lambda>g.
               Option.bind (to_ticks (dur_rep T) (first_ticks T) g) (\<lambda>v.
               checked_in (dur_rep T) (v - adjust)))))))))"

text \<open>The types the POSIX code uses: nanoseconds, and the seconds and nanoseconds of a \<^verbatim>\<open>timespec\<close>.\<close>

definition posix_types :: time_types where
  "posix_types =
     \<lparr>dur_rep = signed_rep 64, first_rep = signed_rep 64, second_rep = signed_rep 64,
      first_ticks = 1000000000, second_ticks = 1\<rparr>"

section \<open>The file clock\<close>

text \<open>Conversions to and from \<^verbatim>\<open>time_t\<close>, for ticks of a nanosecond and for the file times of Windows.\<close>

definition to_time_t :: "int \<Rightarrow> int" where
  "to_time_t t = t sdiv 1000000000"

definition from_time_t :: "int \<Rightarrow> int option" where
  "from_time_t t = checked (t * 1000000000)"

definition ticks_per_second :: int where
  "ticks_per_second = 10000000"

definition epoch_difference_secs :: int where
  "epoch_difference_secs = ((1970 - 1601) * 365 + 3 * 24 + 17) * 86400"

definition win_to_time_t :: "int \<Rightarrow> int option" where
  "win_to_time_t t = map_option (\<lambda>d. d sdiv ticks_per_second)
     (checked (t - epoch_difference_secs * ticks_per_second))"

definition win_from_time_t :: "int \<Rightarrow> int option" where
  "win_from_time_t t = checked ((t + epoch_difference_secs) * ticks_per_second)"

text \<open>
  \<open>now()\<close>: \<open>clock\<close> is what \<^verbatim>\<open>clock_gettime\<close> returns, an error number or the two
  fields. The function is \<^verbatim>\<open>noexcept\<close>, so the exception for an error ends the program.
\<close>

datatype now_result =
    now_terminates cxx_exception
  | now_overflows
  | now_returns int

definition file_clock_now :: "nat + int \<times> int \<Rightarrow> now_result" where
  "file_clock_now clock =
     (case clock of
        Inl e \<Rightarrow> now_terminates (system_error (ec_system e) ''file_clock::now'')
      | Inr (sec, nsec) \<Rightarrow>
          (case Option.bind (checked (sec * 1000000000)) (\<lambda>s. checked (s + nsec)) of
             None \<Rightarrow> now_overflows
           | Some t \<Rightarrow> now_returns t))"

section \<open>Truncating and flooring division\<close>

lemma sdiv_floor:
  assumes "0 < (d :: int)"
  shows "c sdiv d = (if c < 0 \<and> c mod d \<noteq> 0 then c div d + 1 else c div d)"
proof (cases "c < 0")
  case True
  have "c sdiv d = - ((- c) div d)"
    using True assms by (simp add: signed_divide_int_def sgn_if)
  then show ?thesis using True assms by (auto simp: zdiv_zminus1_eq_if)
next
  case False
  then show ?thesis using assms by (simp add: signed_divide_int_def sgn_if)
qed

lemma sdiv_one [simp]: "(c :: int) sdiv 1 = c"
  by (simp add: signed_divide_int_def sgn_if)

lemma in_conv: "in_rep conv_type x \<longleftrightarrow> - (2 ^ 63) \<le> x \<and> x \<le> 2 ^ 63 - 1"
  by (simp add: in_rep_def conv_type_def signed_rep_def)

lemma checked_simp: "checked x = (if - (2 ^ 63) \<le> x \<and> x \<le> 2 ^ 63 - 1 then Some x else None)"
  by (simp add: checked_def checked_in_def in_conv)

lemma le_div_int:
  assumes "0 < (d :: int)"
  shows "c \<le> r div d \<longleftrightarrow> c * d \<le> r"
proof
  assume "c \<le> r div d"
  then have "c * d \<le> r div d * d" using assms by simp
  also have "\<dots> \<le> r" using div_mult_mod_eq [of r d] pos_mod_sign [OF assms, of r] by linarith
  finally show "c * d \<le> r" .
next
  assume "c * d \<le> r"
  then have "c * d div d \<le> r div d" using assms by (rule zdiv_mono1)
  then show "c \<le> r div d" using assms by simp
qed

lemma mult_ge_iff_sdiv:
  assumes "0 < (d :: int)" and "r \<le> 0"
  shows "r sdiv d \<le> c \<longleftrightarrow> r \<le> c * d"
proof -
  have "r sdiv d = - ((- r) div d)"
    using assms by (auto simp: sdiv_floor zdiv_zminus1_eq_if)
  then have "r sdiv d \<le> c \<longleftrightarrow> - c \<le> (- r) div d" by linarith
  also have "\<dots> \<longleftrightarrow> - c * d \<le> - r" by (rule le_div_int [OF assms(1)])
  finally show ?thesis by simp
qed

lemma mult_le_iff_sdiv:
  assumes "0 < (d :: int)" and "0 \<le> r"
  shows "c \<le> r sdiv d \<longleftrightarrow> c * d \<le> r"
  using assms by (simp add: sdiv_floor le_div_int)

lemma sdiv_sign:
  assumes "0 < (d :: int)"
  shows "0 \<le> r \<Longrightarrow> 0 \<le> r sdiv d" and "r \<le> 0 \<Longrightarrow> r sdiv d \<le> 0"
proof -
  show "0 \<le> r \<Longrightarrow> 0 \<le> r sdiv d"
    using assms by (simp add: sdiv_floor pos_imp_zdiv_nonneg_iff)
  show "r sdiv d \<le> 0" if "r \<le> 0"
    using mult_ge_iff_sdiv [OF assms that, of 0] that by simp
qed

lemma sdiv_mono:
  assumes "0 < (d :: int)" and "a \<le> b"
  shows "a sdiv d \<le> b sdiv d"
proof (cases "a < 0 \<and> b < 0")
  case True
  then have "a sdiv d = - ((- a) div d)" and "b sdiv d = - ((- b) div d)"
    using assms(1) by (auto simp: sdiv_floor zdiv_zminus1_eq_if)
  then show ?thesis using zdiv_mono1 [OF _ assms(1), of "- b" "- a"] assms(2) by simp
next
  case False
  then show ?thesis
  proof (cases "a < 0")
    case True
    then have "0 \<le> b" using False by simp
    then show ?thesis
      using sdiv_sign(2) [OF assms(1), of a] sdiv_sign(1) [OF assms(1), of b] True by simp
  next
    case False
    then show ?thesis using assms zdiv_mono1 [OF assms(2,1)] by (simp add: sdiv_floor)
  qed
qed

section \<open>Casts\<close>

text \<open>
  C30. \<open>safe_duration_cast\<close> between two units gives the exact value, truncated towards zero, when it
  fits the result type and reports failure otherwise, whenever one unit is a multiple of the other.
  When neither is, it is the same as long as the multiplication does not overflow; when it does, the
  test meant to catch it (\<open>count < min / num && count > max / num\<close>) never does, and the signed
  overflow happens.
\<close>

theorem safe_duration_cast_spec:
  assumes "0 < num" and "0 < den" and "rmin out \<le> 0" and "0 \<le> rmax out"
    and "in_rep conv_type c" and "in_rep conv_type (rmin out)" and "in_rep conv_type (rmax out)"
  shows "safe_duration_cast num den out c =
    (if num \<noteq> 1 \<and> den \<noteq> 1 \<and> \<not> in_rep conv_type (c * num) then None
     else Some (if in_rep out ((c * num) sdiv den) then Some ((c * num) sdiv den) else None))"
proof -
  have never: "\<not> (c < rmin conv_type sdiv num \<and> c > rmax conv_type sdiv num)"
    using sdiv_sign [OF assms(1), of "rmin conv_type"] sdiv_sign [OF assms(1), of "rmax conv_type"]
    by (simp add: conv_type_def signed_rep_def)
  have scaled: "checked (c * num) = Some (c * num)" if "in_rep out (c * num)"
    using that assms(6,7) by (auto simp: checked_def checked_in_def in_rep_def)
  show ?thesis
    using never scaled mult_ge_iff_sdiv [OF assms(1,3)] mult_le_iff_sdiv [OF assms(1,4)]
    by (auto simp: safe_duration_cast_def Let_def in_rep_def [of out] checked_def checked_in_def
        split: option.splits if_splits)
qed

theorem safe_duration_cast_spec_witness:
  "safe_duration_cast 1000 3 conv_type (2 ^ 62) = None
   \<and> safe_duration_cast 1000 1 (signed_rep 32) 5 = Some (Some 5000)
   \<and> safe_duration_cast 1 1000 (signed_rep 32) (- 1999) = Some (Some (- 1))
   \<and> safe_duration_cast 1000 1 (signed_rep 32) 3000000 = Some None"
proof -
  have "safe_duration_cast 1000 3 conv_type (2 ^ 62) = None"
    by (subst safe_duration_cast_spec) (simp_all add: conv_type_def signed_rep_def in_rep_def)
  moreover have "safe_duration_cast 1000 1 (signed_rep 32) 5 = Some (Some 5000)"
    by (subst safe_duration_cast_spec) (simp_all add: conv_type_def signed_rep_def in_rep_def)
  moreover have "safe_duration_cast 1 1000 (signed_rep 32) (- 1999) = Some (Some (- 1))"
    by (subst safe_duration_cast_spec) (simp_all add: conv_type_def signed_rep_def in_rep_def sdiv_floor)
  moreover have "safe_duration_cast 1000 1 (signed_rep 32) 3000000 = Some None"
    by (subst safe_duration_cast_spec) (simp_all add: conv_type_def signed_rep_def in_rep_def)
  ultimately show ?thesis by simp
qed

section \<open>Splitting and composing times\<close>

lemma cast_fits:
  "safe_duration_cast 1 1 out c = Some (if in_rep out c then Some c else None)"
  "0 < d \<Longrightarrow> safe_duration_cast 1 d conv_type c =
     Some (if in_rep conv_type (c sdiv d) then Some (c sdiv d) else None)"
  by (auto simp: safe_duration_cast_def in_rep_def Let_def)

lemma sdiv_in_conv:
  assumes "0 < d" and "in_rep conv_type c"
  shows "in_rep conv_type (c sdiv d)"
proof -
  let ?x = "c sdiv d"
  have up: "\<bar>?x\<bar> \<le> \<bar>c\<bar>"
  proof -
    have "\<bar>?x\<bar> = \<bar>c\<bar> div d" using assms(1)
      by (cases "c = 0") (simp_all add: signed_divide_int_def abs_mult pos_imp_zdiv_nonneg_iff)
    also have "\<dots> \<le> \<bar>c\<bar>" using assms(1) zdiv_mono2 [of "\<bar>c\<bar>" 1 d] by simp
    finally show ?thesis .
  qed
  show ?thesis
  proof (cases "c < 0")
    case True
    then have "?x \<le> 0" using sdiv_sign(2) [OF assms(1), of c] by simp
    then show ?thesis using up assms(2) True by (simp add: in_conv)
  next
    case False
    then have "0 \<le> ?x" using sdiv_sign(1) [OF assms(1), of c] by simp
    then show ?thesis using up assms(2) False by (simp add: in_conv)
  qed
qed

lemma narrow_id: "in_rep r x \<Longrightarrow> narrow r x = x"
  by (simp add: narrow_def in_rep_def)

lemma sdiv_nested:
  assumes "0 < (m :: int)" and "0 < n"
  shows "c sdiv (n * m) = (c sdiv m) sdiv n"
    and "(c - c sdiv (n * m) * (n * m)) sdiv m = c sdiv m - (c sdiv m) sdiv n * n"
proof -
  have pos: "a sdiv (n * m) = (a sdiv m) sdiv n
      \<and> (a - a sdiv (n * m) * (n * m)) sdiv m = a sdiv m - (a sdiv m) sdiv n * n"
    if "0 \<le> a" for a :: int
  proof -
    have "0 < n * m" using assms by simp
    then have q: "a sdiv (n * m) = a div m div n" and "0 \<le> a div m"
      using that assms zdiv_zmult2_eq [of n a m]
      by (simp_all add: sdiv_floor pos_imp_zdiv_nonneg_iff mult.commute)
    have rest: "a - a div m div n * (n * m) = a mod m + m * (a div m mod n)"
    proof -
      have "a = a div m * m + a mod m" and "a div m = a div m div n * n + a div m mod n" by simp_all
      then have "a = (a div m div n * n + a div m mod n) * m + a mod m" by metis
      then show ?thesis by (simp only: algebra_simps)
    qed
    have "0 \<le> a mod m" and "0 \<le> m * (a div m mod n)" using assms by simp_all
    then have "\<not> a mod m + m * (a div m mod n) < 0" by linarith
    then have "(a - a div m div n * (n * m)) sdiv m = (a mod m + m * (a div m mod n)) div m"
      unfolding rest by (simp only: sdiv_floor [OF assms(1)] simp_thms if_False)
    also have "\<dots> = a div m mod n" using assms by simp
    also have "\<dots> = a div m - a div m div n * n" by (simp add: minus_div_mult_eq_mod)
    finally show ?thesis using q that assms \<open>0 \<le> a div m\<close> by (simp add: sdiv_floor)
  qed
  have neg: "(- a) sdiv d = - (a sdiv d)" for a d :: int
    by (simp add: signed_divide_int_def)
  have both: "c sdiv (n * m) = (c sdiv m) sdiv n
      \<and> (c - c sdiv (n * m) * (n * m)) sdiv m = c sdiv m - (c sdiv m) sdiv n * n"
  proof (cases "0 \<le> c")
    case True
    then show ?thesis by (rule pos)
  next
    case False
    have "c - c sdiv (n * m) * (n * m) = - (- c - (- c) sdiv (n * m) * (n * m))"
      by (simp add: neg)
    then have "(c - c sdiv (n * m) * (n * m)) sdiv m = - ((- c - (- c) sdiv (n * m) * (n * m)) sdiv m)"
      by (metis neg)
    then show ?thesis using pos [of "- c"] False by (auto simp: neg)
  qed
  then show "c sdiv (n * m) = (c sdiv m) sdiv n"
    and "(c - c sdiv (n * m) * (n * m)) sdiv m = c sdiv m - (c sdiv m) sdiv n * n" by blast+
qed

lemma min_first_bound:
  assumes "0 < first_ticks T" and "in_rep (dur_rep T) c"
    and "in_rep (first_rep T) (rmin (dur_rep T) sdiv first_ticks T)"
  shows "min_first T \<le> c sdiv first_ticks T"
proof -
  have "rmin (dur_rep T) \<le> c" using assms(2) by (simp add: in_rep_def)
  then show ?thesis unfolding min_first_def narrow_id [OF assms(3)] by (rule sdiv_mono [OF assms(1)])
qed

lemma decompose_time_value:
  assumes "0 < second_ticks T" and "0 < n" and "first_ticks T = n * second_ticks T"
    and "in_rep conv_type (first_ticks T)" and "in_rep conv_type c"
  defines "units \<equiv> c sdiv second_ticks T"
  shows "decompose_time T c =
    Some (if in_rep (first_rep T) (units div n) \<and> in_rep (second_rep T) (units mod n)
             \<and> (0 \<le> c \<or> units mod n = 0 \<or> min_first T \<le> units div n + 1)
          then Some (units div n, units mod n) else None)"
proof -
  let ?k = "first_ticks T" and ?m = "second_ticks T"
  let ?q = "c sdiv ?k" and ?s = "(c - c sdiv ?k * ?k) sdiv ?m"
  have k: "0 < ?k" using assms(1-3) by simp
  have q: "?q = units sdiv n" and s: "?s = units - units sdiv n * n"
    unfolding assms(3) units_def by (rule sdiv_nested [OF assms(1,2)])+
  have spf: "?k sdiv ?m = n" using assms(1-3) by (simp add: sdiv_floor)
  have rest: "?s = (if units < 0 \<and> units mod n \<noteq> 0 then units mod n - n else units mod n)"
    unfolding s by (simp add: sdiv_floor [OF assms(2)] algebra_simps minus_mult_div_eq_mod)
  have bounds: "0 \<le> units mod n" "units mod n < n" using assms(2) by simp_all
  have "n \<le> ?k" using assms(1-3) by simp
  then have s_conv: "in_rep conv_type ?s"
    using bounds assms(4) unfolding rest by (auto simp: in_conv)
  have q_conv: "in_rep conv_type ?q" by (rule sdiv_in_conv [OF k assms(5)])
  have start: "decompose_time T c =
    (let adjusted = (if ?s < 0 then
                       (if ?q > min_first T \<or> rmin (first_rep T) \<noteq> min_first T \<and> ?q = min_first T
                        then Some (?q - 1, ?s + n) else None)
                     else Some (?q, ?s)) in
     case adjusted of
       None \<Rightarrow> Some None
     | Some (f, s) \<Rightarrow>
         Some (if in_rep (first_rep T) f \<and> in_rep (second_rep T) s then Some (f, s) else None))"
    using q_conv s_conv k assms(1)
    by (simp add: decompose_time_def cast_fits spf Let_def split: option.split prod.split)
  show ?thesis
  proof (cases "units < 0 \<and> units mod n \<noteq> 0")
    case True
    then have s': "?s = units mod n - n" and q': "?q = units div n + 1"
      using rest q by (simp_all add: sdiv_floor [OF assms(2)])
    have neg: "units mod n - n < 0" using bounds by simp
    have c: "\<not> 0 \<le> c"
      using True sdiv_sign(1) [OF assms(1), of c] unfolding units_def by linarith
    show ?thesis
    proof (cases "?q > min_first T \<or> rmin (first_rep T) \<noteq> min_first T \<and> ?q = min_first T")
      case True
      moreover from this have "min_first T \<le> units div n + 1" unfolding q' by linarith
      ultimately show ?thesis unfolding start s' Let_def if_P [OF neg] if_P [OF True] by (simp add: q')
    next
      case False
      have "\<not> (in_rep (first_rep T) (units div n) \<and> min_first T \<le> units div n + 1)"
        using False q' by (auto simp: in_rep_def)
      then have "\<not> (in_rep (first_rep T) (units div n) \<and> in_rep (second_rep T) (units mod n)
          \<and> (0 \<le> c \<or> units mod n = 0 \<or> min_first T \<le> units div n + 1))"
        using c \<open>units < 0 \<and> units mod n \<noteq> 0\<close> by auto
      then show ?thesis unfolding start s' Let_def if_P [OF neg] if_not_P [OF False] by simp
    qed
  next
    case False
    then have s': "?s = units mod n" and q': "?q = units div n"
      using rest q by (auto simp: sdiv_floor [OF assms(2)])
    have pos: "\<not> units mod n < 0" using bounds by simp
    have "0 \<le> c \<or> units mod n = 0"
    proof (cases "0 \<le> c")
      case neg: False
      then have "units \<le> 0" using sdiv_sign(2) [OF assms(1), of c] unfolding units_def by simp
      then show ?thesis using False by (cases "units = 0") simp_all
    qed simp
    then show ?thesis unfolding start s' Let_def if_not_P [OF pos] by (auto simp: q')
  qed
qed

text \<open>
  C29. Splitting a time into a larger unit of \<open>n\<close> smaller ones rounds towards minus infinity:
  \<open>decompose_time\<close> drops what is less than a smaller unit (towards zero) and gives the floor of the
  quotient by \<open>n\<close> and a remainder that is never negative, for every time of the duration. It fails if
  one of the two does not fit its type; and it fails for a time before the epoch with a remainder and
  a quotient less than one below the limit, which is the smallest time of the duration in the larger
  unit, converted to the type of that unit. Where the type has that number, no time is below the limit,
  and only the types can make the call fail; where it has not (seconds of 32 bits and nanoseconds of
  64), the conversion wraps around, and times that fit are rejected.
\<close>

theorem decompose_time_floor:
  assumes "0 < second_ticks T" and "0 < n" and "first_ticks T = n * second_ticks T"
    and "in_rep conv_type (first_ticks T)" and "in_rep conv_type c" and "in_rep (dur_rep T) c"
  shows "let units = c sdiv second_ticks T;
             least = rmin (dur_rep T) sdiv first_ticks T;
             limit = (least - rmin (first_rep T)) mod (rmax (first_rep T) - rmin (first_rep T) + 1)
                       + rmin (first_rep T) in
         decompose_time T c =
           Some (if in_rep (first_rep T) (units div n) \<and> in_rep (second_rep T) (units mod n)
                    \<and> (0 \<le> c \<or> units mod n = 0 \<or> limit \<le> units div n + 1)
                 then Some (units div n, units mod n) else None)
         \<and> (in_rep (first_rep T) least \<longrightarrow> 0 \<le> c \<or> units mod n = 0 \<or> limit \<le> units div n + 1)"
proof -
  let ?units = "c sdiv second_ticks T"
  have "min_first T \<le> ?units div n + 1" if "in_rep (first_rep T) (rmin (dur_rep T) sdiv first_ticks T)"
  proof -
    have "0 < first_ticks T" using assms(1-3) by simp
    then have "min_first T \<le> c sdiv first_ticks T" using assms(6) that by (rule min_first_bound)
    also have "\<dots> = ?units sdiv n" unfolding assms(3) by (rule sdiv_nested(1) [OF assms(1,2)])
    also have "\<dots> \<le> ?units div n + 1" by (simp add: sdiv_floor [OF assms(2)])
    finally show ?thesis .
  qed
  then show ?thesis
    using decompose_time_value [OF assms(1-5)] by (simp add: Let_def min_first_def narrow_def)
qed

text \<open>
  At the types of the POSIX code, of \<^verbatim>\<open>timeval\<close>, and with seconds of 32 bits, where the
  limit wraps around to -633437444 and a time of the year 1949 is rejected though -633437446 seconds
  fit.
\<close>

theorem decompose_time_floor_witness:
  "decompose_time posix_types (- 1500000000) = Some (Some (- 2, 500000000))
   \<and> decompose_time (posix_types\<lparr>second_ticks := 1000\<rparr>) (- 1500000999) = Some (Some (- 2, 500000))
   \<and> decompose_time (posix_types\<lparr>first_rep := signed_rep 32\<rparr>) (- 633437444500000000)
       = Some (Some (- 633437445, 500000000))
   \<and> decompose_time (posix_types\<lparr>first_rep := signed_rep 32\<rparr>) (- 633437445500000000) = Some None"
  using decompose_time_floor [of posix_types 1000000000 "- 1500000000"]
    decompose_time_floor [of "posix_types\<lparr>second_ticks := 1000\<rparr>" 1000000 "- 1500000999"]
    decompose_time_floor [of "posix_types\<lparr>first_rep := signed_rep 32\<rparr>" 1000000000 "- 633437444500000000"]
    decompose_time_floor [of "posix_types\<lparr>first_rep := signed_rep 32\<rparr>" 1000000000 "- 633437445500000000"]
  by (simp add: posix_types_def signed_rep_def in_rep_def conv_type_def sdiv_floor Let_def)

lemma posix_fields [simp]:
  "dur_rep posix_types = conv_type" "first_rep posix_types = conv_type"
  "second_rep posix_types = conv_type" "first_ticks posix_types = 1000000000"
  "second_ticks posix_types = 1"
  by (simp_all add: posix_types_def conv_type_def)

lemma nanos_conv: "0 \<le> s \<Longrightarrow> s < 1000000000 \<Longrightarrow> in_rep conv_type s"
  by (simp add: in_conv)

lemma conv_limits: "rmin conv_type = - (2 ^ 63)" "rmax conv_type = 2 ^ 63 - 1"
  by (simp_all add: conv_type_def signed_rep_def)

lemma narrow_conv: "in_rep conv_type x \<Longrightarrow> narrow conv_type x = x"
  by (rule narrow_id)

lemma to_ticks_conv: "to_ticks conv_type f x = checked (x * f)"
  by (simp add: to_ticks_def checked_def checked_in_def narrow_id)

lemma checked_in_conv: "checked_in conv_type x = checked x"
  by (simp add: checked_def)

lemma checked_fits: "- (2 ^ 63) \<le> x \<Longrightarrow> x \<le> 2 ^ 63 - 1 \<Longrightarrow> checked x = Some x"
  by (simp add: checked_simp)

lemma posix_limits:
  "max_first posix_types = 9223372036" "min_first posix_types = - 9223372036"
  "max_second posix_types = Some 854775807" "min_second posix_types = Some 145224192"
proof -
  show mx: "max_first posix_types = 9223372036" and mn: "min_first posix_types = - 9223372036"
    by (simp_all add: max_first_def min_first_def narrow_def conv_limits sdiv_floor)
  show "max_second posix_types = Some 854775807" and "min_second posix_types = Some 145224192"
    by (simp_all add: max_second_def min_second_def mx mn Let_def common_rep_def to_ticks_conv
        checked_in_conv checked_fits conv_limits narrow_def sdiv_floor)
qed

lemma decompose_posix:
  assumes "in_rep conv_type c"
  shows "decompose_time posix_types c = Some (Some (c div 1000000000, c mod 1000000000))"
proof -
  have above: "- 9223372037 \<le> c div 1000000000"
    using assms by (subst le_div_int) (simp_all add: in_conv)
  then have "- (2 ^ 63) \<le> c div 1000000000" by simp
  moreover have "c div 1000000000 \<le> 2 ^ 63 - 1"
    using assms zdiv_mono1 [of c "2 ^ 63 - 1" 1000000000] by (simp add: in_conv)
  ultimately have "in_rep conv_type (c div 1000000000)" by (simp add: in_conv)
  moreover have "0 \<le> c mod 1000000000" and "c mod 1000000000 < 1000000000" by simp_all
  then have "in_rep conv_type (c mod 1000000000)" by (rule nanos_conv)
  moreover have "in_rep conv_type (- (2 ^ 63))" and "in_rep conv_type 1000000000"
    by (simp_all add: in_conv)
  ultimately show ?thesis
    using assms above decompose_time_value [of posix_types 1000000000 c]
    by (simp add: conv_limits posix_limits)
qed

lemma compose_posix:
  assumes "in_rep conv_type f" and "0 \<le> s" and "s < 1000000000"
  shows "compose_time posix_types f s =
    Some (if (0 \<le> f \<or> f = - 9223372037) \<and> in_rep conv_type (f * 1000000000 + s)
          then Some (f * 1000000000 + s) else None)"
proof (cases "0 \<le> f")
  case True
  have fits: "f < 9223372036 \<or> f = 9223372036 \<and> s \<le> 854775807 \<longleftrightarrow> in_rep conv_type (f * 1000000000 + s)"
    unfolding in_conv using True assms(2,3) by simp linarith
  show ?thesis
  proof (cases "in_rep conv_type (f * 1000000000 + s)")
    case True
    then show ?thesis
      using fits \<open>0 \<le> f\<close> assms
      by (simp add: compose_time_def posix_limits to_ticks_conv Let_def common_rep_def checked_def
          checked_in_def in_conv)
  next
    case False
    then show ?thesis
      using fits \<open>0 \<le> f\<close> by (simp add: compose_time_def posix_limits Let_def)
  qed
next
  case False
  have fits: "145224192 \<le> s \<longleftrightarrow> in_rep conv_type (- 9223372037 * 1000000000 + s)"
    unfolding in_conv using assms(2,3) by simp
  show ?thesis
  proof (cases "f = - 9223372037 \<and> 145224192 \<le> s")
    case True
    have "checked (1000000000 - s) = Some (1000000000 - s)"
      and "checked (- 9223372036000000000 - (1000000000 - s)) = Some (- 9223372037000000000 + s)"
      using assms True by (simp_all add: checked_simp)
    then have "compose_time posix_types (- 9223372037) s = Some (Some (- 9223372037000000000 + s))"
      using True
      by (simp add: compose_time_def posix_limits to_ticks_conv checked_in_conv Let_def
          common_rep_def conv_limits checked_fits)
    then show ?thesis using fits True by simp
  next
    case other: False
    then show ?thesis
      using fits False assms
      by (auto simp: compose_time_def posix_limits Let_def conv_limits)
  qed
qed

text \<open>
  \<open>compose_time\<close> on seconds and nanoseconds is exact for times from the epoch on: the pair is
  rejected if and only if the time does not fit 64 bits of nanoseconds. Before the epoch it is exact
  in the single second -9223372037, and rejects every other one, because the range test for negative
  seconds compares them with the smallest number of nanoseconds instead of the smallest number of
  seconds. No computation overflows.
\<close>

theorem compose_time_posix:
  assumes "in_rep conv_type f" and "0 \<le> s" and "s < 1000000000"
  shows "compose_time posix_types f s =
    Some (if (0 \<le> f \<or> f = - 9223372037) \<and> in_rep conv_type (f * 1000000000 + s)
          then Some (f * 1000000000 + s) else None)"
  using assms by (rule compose_posix)

theorem compose_time_posix_witness:
  "compose_time posix_types 1 5 = Some (Some 1000000005) \<and> compose_time posix_types (- 1) 999999999 = Some None"
  using compose_time_posix [of 1 5] compose_time_posix [of "- 1" 999999999] by (simp add: in_conv)

text \<open>
  C31. A time that is split into seconds and nanoseconds and put together again is the same time
  exactly if it is not before the epoch, or lies in the last representable second; any other time is
  split without an error and then cannot be put together.
\<close>

theorem compose_decompose_posix:
  assumes "in_rep conv_type c"
  shows "\<exists>f s. decompose_time posix_types c = Some (Some (f, s)) \<and> c = f * 1000000000 + s
    \<and> compose_time posix_types f s =
        Some (if 0 \<le> c \<or> c < - 9223372036000000000 then Some c else None)"
proof -
  let ?f = "c div 1000000000" and ?s = "c mod 1000000000"
  have c: "c = ?f * 1000000000 + ?s" by simp
  have s: "0 \<le> ?s" "?s < 1000000000" by simp_all
  have "- 9223372036854775808 \<le> c" and "c \<le> 9223372036854775807" using assms by (simp_all add: in_conv)
  then have "- 9223372037 \<le> ?f" and "?f \<le> 9223372036" using c s by linarith+
  moreover from this have "in_rep conv_type ?f" by (simp add: in_conv)
  moreover have "0 \<le> c \<longleftrightarrow> 0 \<le> ?f" using c s by linarith
  moreover have "c < - 9223372036000000000 \<longleftrightarrow> ?f \<le> - 9223372037" using c s by linarith
  ultimately have "compose_time posix_types ?f ?s =
      Some (if 0 \<le> c \<or> c < - 9223372036000000000 then Some c else None)"
    using compose_posix [of ?f ?s] s assms by auto
  then show ?thesis using decompose_posix [OF assms] c by blast
qed

theorem compose_decompose_posix_witness:
  "(\<exists>f s. decompose_time posix_types (- 1) = Some (Some (f, s)) \<and> compose_time posix_types f s = Some None)
   \<and> (\<exists>f s. decompose_time posix_types 1500000000 = Some (Some (f, s)) \<and> compose_time posix_types f s = Some (Some 1500000000))"
  using compose_decompose_posix [of "- 1"] compose_decompose_posix [of 1500000000]
  by (auto simp: in_conv)

section \<open>Conversions to seconds\<close>

text \<open>Conversion from \<^verbatim>\<open>time_t\<close> and back is the identity where it is defined, on both systems.\<close>

lemma mult_sdiv_cancel: "0 < (d :: int) \<Longrightarrow> (t * d) sdiv d = t"
  by (simp add: sdiv_floor)

lemma time_t_round_trip:
  "from_time_t t = Some x \<Longrightarrow> to_time_t x = t"
  by (auto simp: from_time_t_def to_time_t_def checked_simp mult_sdiv_cancel split: if_splits)

lemma win_time_t_round_trip:
  assumes "win_from_time_t t = Some x" and "0 \<le> t + epoch_difference_secs"
  shows "win_to_time_t x = Some t"
proof -
  have x: "x = (t + epoch_difference_secs) * ticks_per_second"
    using assms(1) by (auto simp: win_from_time_t_def checked_simp split: if_splits)
  then have "x - epoch_difference_secs * ticks_per_second = t * ticks_per_second"
    by (simp add: algebra_simps)
  moreover have "checked (t * ticks_per_second) = Some (t * ticks_per_second)"
    using assms by (auto simp: win_from_time_t_def checked_simp epoch_difference_secs_def
        ticks_per_second_def split: if_splits)
  ultimately show ?thesis
    by (simp add: win_to_time_t_def mult_sdiv_cancel ticks_per_second_def)
qed

end
