(* ===== verification/PosixOps.thy ===== *)
theory PosixOps
  imports FileFlags Chrono
begin

text \<open>
  \<^verbatim>\<open>detail/posix_file_ops.hpp\<close> and \<^verbatim>\<open>detail/impl/posix_file_ops.cpp\<close>: the operations on
  descriptors. The system calls are the fields of \<open>kernel\<close>, an argument of every operation: each
  takes the state of the system and gives the state after it with an error number (\<open>Inl\<close>) or its
  result (\<open>Inr\<close>). The operations that set \<^verbatim>\<open>ec\<close> on every path return it; the others take it.
  An operation that repeats an interrupted call is \<open>None\<close> when it never returns.
\<close>

section \<open>The system calls\<close>

record stat =
  st_mode :: u32
  st_size :: int
  st_flags :: u32
  st_atim :: "int \<times> int"
  st_mtim :: "int \<times> int"
  st_birthtim :: "int \<times> int"

record 'w kernel =
  k_open :: "'w \<Rightarrow> string \<Rightarrow> u32 \<Rightarrow> u32 \<Rightarrow> 'w \<times> (nat + int)"
  k_close :: "'w \<Rightarrow> int \<Rightarrow> 'w \<times> (nat + unit)"
  k_dup :: "'w \<Rightarrow> int \<Rightarrow> 'w \<times> (nat + int)"
  k_fstat :: "'w \<Rightarrow> int \<Rightarrow> 'w \<times> (nat + stat)"
  k_ftruncate :: "'w \<Rightarrow> int \<Rightarrow> int \<Rightarrow> 'w \<times> (nat + unit)"
  k_lseek :: "'w \<Rightarrow> int \<Rightarrow> int \<Rightarrow> nat \<Rightarrow> 'w \<times> (nat + nat)"
  k_fchmod :: "'w \<Rightarrow> int \<Rightarrow> u32 \<Rightarrow> 'w \<times> (nat + unit)"
  k_fchflags :: "'w \<Rightarrow> int \<Rightarrow> u32 \<Rightarrow> 'w \<times> (nat + unit)"
  k_futimens :: "'w \<Rightarrow> int \<Rightarrow> (int \<times> int) \<times> (int \<times> int) \<Rightarrow> 'w \<times> (nat + unit)"
  k_futimes :: "'w \<Rightarrow> int \<Rightarrow> (int \<times> int) \<times> (int \<times> int) \<Rightarrow> 'w \<times> (nat + unit)"
  k_readv :: "'w \<Rightarrow> int \<Rightarrow> nat list \<Rightarrow> 'w \<times> (nat + bytes)"
  k_writev :: "'w \<Rightarrow> int \<Rightarrow> bytes list \<Rightarrow> 'w \<times> (nat + nat)"
  k_pread :: "'w \<Rightarrow> int \<Rightarrow> nat \<Rightarrow> int \<Rightarrow> 'w \<times> (nat + bytes)"
  k_pwrite :: "'w \<Rightarrow> int \<Rightarrow> bytes \<Rightarrow> int \<Rightarrow> 'w \<times> (nat + nat)"
  k_preadv :: "'w \<Rightarrow> int \<Rightarrow> nat list \<Rightarrow> int \<Rightarrow> 'w \<times> (nat + bytes)"
  k_pwritev :: "'w \<Rightarrow> int \<Rightarrow> bytes list \<Rightarrow> int \<Rightarrow> 'w \<times> (nat + nat)"

text \<open>\<^verbatim>\<open>static_cast<off_t>\<close> of an unsigned value.\<close>

definition to_off :: "nat \<Rightarrow> int" where
  "to_off n = sint (of_nat n :: 64 word)"

definition set_error :: "nat \<Rightarrow> error_code" where
  "set_error e = ec_system e"

text \<open>\<open>ec_of\<close> is the end of the operations without a result: clear the code or set it.\<close>

definition ec_of :: "nat + 'a \<Rightarrow> error_code" where
  "ec_of r = (case r of Inl e \<Rightarrow> set_error e | Inr _ \<Rightarrow> no_error)"

section \<open>Interrupted calls\<close>

text \<open>The loop \<^verbatim>\<open>while (true)\<close> around a call: again when it was interrupted.\<close>

partial_function (option) retry ::
    "platform \<Rightarrow> ('w \<Rightarrow> 'w \<times> (nat + 'a)) \<Rightarrow> 'w \<Rightarrow> ('w \<times> (nat + 'a)) option" where
  "retry P call w =
     (case call w of
        (w', Inl e) \<Rightarrow> if e = EINTR P then retry P call w' else Some (w', Inl e)
      | (w', Inr v) \<Rightarrow> Some (w', Inr v))"

declare retry.simps [code]

section \<open>Opening and closing\<close>

definition posix_open ::
    "platform \<Rightarrow> 'w kernel \<Rightarrow> string \<Rightarrow> open_args \<Rightarrow> 'w \<Rightarrow> ('w \<times> error_code \<times> int) option" where
  "posix_open P K path args w =
     (case retry P (\<lambda>w. k_open K w path (O_CLOEXEC P OR native_flags args) (oa_mode args)) w of
        None \<Rightarrow> None
      | Some (w, Inl e) \<Rightarrow> Some (w, set_error e, - 1)
      | Some (w, Inr fd) \<Rightarrow>
          if has_file_flags P \<and> oa_attrs args \<noteq> 0 then
            (case k_fchflags K w fd (oa_attrs args) of
               (w, Inl e) \<Rightarrow> Some (fst (k_close K w fd), set_error e, - 1)
             | (w, Inr _) \<Rightarrow> Some (w, no_error, fd))
          else Some (w, no_error, fd))"

definition posix_close :: "'w kernel \<Rightarrow> int \<Rightarrow> 'w \<Rightarrow> 'w \<times> error_code" where
  "posix_close K fd w = (case k_close K w fd of (w, r) \<Rightarrow> (w, ec_of r))"

definition posix_duplicate :: "'w kernel \<Rightarrow> int \<Rightarrow> 'w \<Rightarrow> 'w \<times> error_code \<times> int" where
  "posix_duplicate K fd w =
     (case k_dup K w fd of
        (w, Inr new_fd) \<Rightarrow> (w, no_error, new_fd)
      | (w, Inl e) \<Rightarrow> (w, set_error e, - 1))"

text \<open>The three standard handles leave the code as it was.\<close>

definition posix_get_stdin :: "error_code \<Rightarrow> error_code \<times> int" where "posix_get_stdin ec = (ec, 0)"
definition posix_get_stdout :: "error_code \<Rightarrow> error_code \<times> int" where "posix_get_stdout ec = (ec, 1)"
definition posix_get_stderr :: "error_code \<Rightarrow> error_code \<times> int" where "posix_get_stderr ec = (ec, 2)"

section \<open>Size, position and permissions\<close>

definition posix_size :: "'w kernel \<Rightarrow> int \<Rightarrow> 'w \<Rightarrow> 'w \<times> error_code \<times> nat" where
  "posix_size K fd w =
     (case k_fstat K w fd of
        (w, Inr st) \<Rightarrow> (w, no_error, unat (of_int (st_size st) :: 64 word))
      | (w, Inl e) \<Rightarrow> (w, set_error e, 0))"

definition posix_set_size :: "'w kernel \<Rightarrow> int \<Rightarrow> nat \<Rightarrow> 'w \<Rightarrow> 'w \<times> error_code" where
  "posix_set_size K fd new_size w =
     (case k_ftruncate K w fd (to_off new_size) of (w, r) \<Rightarrow> (w, ec_of r))"

datatype seek_origin = from_begin | from_current | from_end

fun whence :: "seek_origin \<Rightarrow> nat" where
  "whence from_begin = 0"
| "whence from_current = 1"
| "whence from_end = 2"

definition posix_seek :: "'w kernel \<Rightarrow> int \<Rightarrow> seek_origin \<Rightarrow> int \<Rightarrow> 'w \<Rightarrow> 'w \<times> error_code \<times> nat" where
  "posix_seek K fd origin offset w =
     (case k_lseek K w fd offset (whence origin) of
        (w, Inr res) \<Rightarrow> (w, no_error, res)
      | (w, Inl e) \<Rightarrow> (w, set_error e, 0))"

definition posix_permissions :: "'w kernel \<Rightarrow> int \<Rightarrow> 'w \<Rightarrow> 'w \<times> error_code \<times> u32" where
  "posix_permissions K fd w =
     (case k_fstat K w fd of
        (w, Inr st) \<Rightarrow> (w, no_error, st_mode st AND perms_all)
      | (w, Inl e) \<Rightarrow> (w, set_error e, 0))"

definition posix_set_permissions :: "'w kernel \<Rightarrow> int \<Rightarrow> u32 \<Rightarrow> u32 \<Rightarrow> 'w \<Rightarrow> 'w \<times> error_code" where
  "posix_set_permissions K fd perms opts w =
     (let mode = perms AND perms_all;
          chmod = (\<lambda>w mode. case k_fchmod K w fd mode of (w, r) \<Rightarrow> (w, ec_of r)) in
      if opts AND (opt_add OR opt_remove) \<noteq> 0 then
        (case k_fstat K w fd of
           (w, Inl e) \<Rightarrow> (w, set_error e)
         | (w, Inr st) \<Rightarrow>
             if opts AND opt_add \<noteq> 0 then chmod w (mode OR st_mode st)
             else chmod w (st_mode st AND NOT mode))
      else chmod w mode)"

definition posix_attributes :: "platform \<Rightarrow> 'w kernel \<Rightarrow> int \<Rightarrow> 'w \<Rightarrow> 'w \<times> error_code \<times> u32" where
  "posix_attributes P K fd w =
     (if has_file_flags P then
        (case k_fstat K w fd of
           (w, Inr st) \<Rightarrow> (w, no_error, native_to_file_attrs P (st_flags st))
         | (w, Inl e) \<Rightarrow> (w, set_error e, 0))
      else (w, no_error, 0))"

definition posix_set_attributes ::
    "platform \<Rightarrow> 'w kernel \<Rightarrow> int \<Rightarrow> u32 \<Rightarrow> u32 \<Rightarrow> 'w \<Rightarrow> 'w \<times> error_code" where
  "posix_set_attributes P K fd attrs opts w =
     (if has_file_flags P then
        (let new_attrs = file_attrs_to_native P attrs;
             chflags = (\<lambda>w a. case k_fchflags K w fd a of (w, r) \<Rightarrow> (w, ec_of r)) in
         if opts AND (opt_add OR opt_remove) \<noteq> 0 then
           (case k_fstat K w fd of
              (w, Inl e) \<Rightarrow> (w, set_error e)
            | (w, Inr st) \<Rightarrow>
                if opts AND opt_add \<noteq> 0 then chflags w (st_flags st OR new_attrs)
                else chflags w (st_flags st AND NOT new_attrs))
         else chflags w new_attrs)
      else (w, no_error))"

section \<open>File times\<close>

definition birth_time :: "platform \<Rightarrow> stat \<Rightarrow> int \<times> int" where
  "birth_time P st = (if has_birthtime P then st_birthtim st else (0, 0))"

text \<open>The result is \<open>None\<close> where a computation of \<open>compose_time\<close> overflows, else what it returns.\<close>

definition stat_to_times :: "platform \<Rightarrow> stat \<Rightarrow> (int \<times> int \<times> int) option option" where
  "stat_to_times P st =
     (case compose_time posix_types (fst (birth_time P st)) (snd (birth_time P st)) of
        None \<Rightarrow> None
      | Some None \<Rightarrow> Some None
      | Some (Some ctim) \<Rightarrow>
          (case compose_time posix_types (fst (st_atim st)) (snd (st_atim st)) of
             None \<Rightarrow> None
           | Some None \<Rightarrow> Some None
           | Some (Some atim) \<Rightarrow>
               (case compose_time posix_types (fst (st_mtim st)) (snd (st_mtim st)) of
                  None \<Rightarrow> None
                | Some None \<Rightarrow> Some None
                | Some (Some mtim) \<Rightarrow> Some (Some (ctim, atim, mtim)))))"

definition to_timespec :: "int \<Rightarrow> (int \<times> int) option option" where
  "to_timespec t = decompose_time posix_types t"

definition timeval_types :: time_types where
  "timeval_types = posix_types\<lparr>second_ticks := 1000\<rparr>"

definition to_timeval :: "int \<Rightarrow> (int \<times> int) option option" where
  "to_timeval t = decompose_time timeval_types t"

text \<open>The times the caller passes in come back unchanged when there is an error.\<close>

definition posix_get_times ::
    "platform \<Rightarrow> 'w kernel \<Rightarrow> int \<Rightarrow> int \<times> int \<times> int \<Rightarrow> 'w
      \<Rightarrow> ('w \<times> error_code \<times> int \<times> int \<times> int) option" where
  "posix_get_times P K fd old w =
     (case k_fstat K w fd of
        (w, Inr st) \<Rightarrow>
          (case stat_to_times P st of
             None \<Rightarrow> None
           | Some (Some ts) \<Rightarrow> Some (w, no_error, ts)
           | Some None \<Rightarrow> Some (w, ec_generic value_too_large, old))
      | (w, Inl e) \<Rightarrow> Some (w, set_error e, old))"

text \<open>A time given as zero is left alone. \<open>convert\<close> is the conversion of the others.\<close>

definition time_arg ::
    "(int \<Rightarrow> (int \<times> int) option option) \<Rightarrow> int \<times> int \<Rightarrow> int \<Rightarrow> (int \<times> int) option option" where
  "time_arg convert keep t = (if t \<noteq> 0 then convert t else Some (Some keep))"

definition posix_set_times ::
    "platform \<Rightarrow> 'w kernel \<Rightarrow> int \<Rightarrow> int \<times> int \<times> int \<Rightarrow> 'w \<Rightarrow> ('w \<times> error_code) option" where
  "posix_set_times P K fd new_times w =
     (case new_times of (ctime, atime, mtime) \<Rightarrow>
        (case time_arg to_timespec (0, UTIME_OMIT P) atime of
           None \<Rightarrow> None
         | Some None \<Rightarrow> Some (w, ec_generic value_too_large)
         | Some (Some ts0) \<Rightarrow>
             (case time_arg to_timespec (0, UTIME_OMIT P) mtime of
                None \<Rightarrow> None
              | Some None \<Rightarrow> Some (w, ec_generic value_too_large)
              | Some (Some ts1) \<Rightarrow>
                  (case k_futimens K w fd (ts0, ts1) of (w, r) \<Rightarrow> Some (w, ec_of r)))))"

text \<open>The variant for systems without \<^verbatim>\<open>futimens\<close>, where the old times are read first.\<close>

definition posix_set_times_futimes ::
    "'w kernel \<Rightarrow> int \<Rightarrow> int \<times> int \<times> int \<Rightarrow> 'w \<Rightarrow> ('w \<times> error_code) option" where
  "posix_set_times_futimes K fd new_times w =
     (case new_times of (ctime, atime, mtime) \<Rightarrow>
        (let (w, old) =
           (if atime = 0 \<or> mtime = 0
            then (case k_fstat K w fd of
                    (w, Inl e) \<Rightarrow> (w, Inl e)
                  | (w, Inr st) \<Rightarrow> (w, Inr (st_atim st, st_mtim st)))
            else (w, Inr ((0, 0), (0, 0)))) in
         case old of
           Inl e \<Rightarrow> Some (w, set_error e)
         | Inr (a, m) \<Rightarrow>
             (case time_arg to_timeval (fst a, snd a sdiv 1000) atime of
                None \<Rightarrow> None
              | Some None \<Rightarrow> Some (w, ec_generic value_too_large)
              | Some (Some tv0) \<Rightarrow>
                  (case time_arg to_timeval (fst m, snd m sdiv 1000) mtime of
                     None \<Rightarrow> None
                   | Some None \<Rightarrow> Some (w, ec_generic value_too_large)
                   | Some (Some tv1) \<Rightarrow>
                       (case k_futimes K w fd (tv0, tv1) of (w, r) \<Rightarrow> Some (w, ec_of r))))))"

section \<open>Reading and writing\<close>

text \<open>The loop over the buffers after a read of nothing: end of file unless all are empty.\<close>

fun eof_unless_empty :: "nat list \<Rightarrow> error_code" where
  "eof_unless_empty [] = no_error"
| "eof_unless_empty (len # sizes) = (if len \<noteq> 0 then ec_asio eof else eof_unless_empty sizes)"

definition posix_readv ::
    "platform \<Rightarrow> 'w kernel \<Rightarrow> int \<Rightarrow> nat list \<Rightarrow> 'w \<Rightarrow> ('w \<times> error_code \<times> bytes) option" where
  "posix_readv P K fd sizes w =
     (case retry P (\<lambda>w. k_readv K w fd sizes) w of
        None \<Rightarrow> None
      | Some (w, Inl e) \<Rightarrow> Some (w, set_error e, [])
      | Some (w, Inr bs) \<Rightarrow>
          if length bs \<noteq> 0 then Some (w, no_error, bs) else Some (w, eof_unless_empty sizes, []))"

definition posix_writev ::
    "platform \<Rightarrow> 'w kernel \<Rightarrow> int \<Rightarrow> bytes list \<Rightarrow> 'w \<Rightarrow> ('w \<times> error_code \<times> nat) option" where
  "posix_writev P K fd bufs w =
     (case retry P (\<lambda>w. k_writev K w fd bufs) w of
        None \<Rightarrow> None
      | Some (w, Inl e) \<Rightarrow> Some (w, set_error e, 0)
      | Some (w, Inr n) \<Rightarrow> Some (w, no_error, n))"

definition posix_pread ::
    "platform \<Rightarrow> 'w kernel \<Rightarrow> int \<Rightarrow> nat \<Rightarrow> nat \<Rightarrow> 'w \<Rightarrow> ('w \<times> error_code \<times> bytes) option" where
  "posix_pread P K fd len offset w =
     (case retry P (\<lambda>w. k_pread K w fd len (to_off offset)) w of
        None \<Rightarrow> None
      | Some (w, Inl e) \<Rightarrow> Some (w, set_error e, [])
      | Some (w, Inr bs) \<Rightarrow>
          if length bs \<noteq> 0 then Some (w, no_error, bs)
          else if len = 0 then Some (w, no_error, []) else Some (w, ec_asio eof, []))"

definition posix_pwrite ::
    "platform \<Rightarrow> 'w kernel \<Rightarrow> int \<Rightarrow> bytes \<Rightarrow> nat \<Rightarrow> 'w \<Rightarrow> ('w \<times> error_code \<times> nat) option" where
  "posix_pwrite P K fd bs offset w =
     (case retry P (\<lambda>w. k_pwrite K w fd bs (to_off offset)) w of
        None \<Rightarrow> None
      | Some (w, Inl e) \<Rightarrow> Some (w, set_error e, 0)
      | Some (w, Inr n) \<Rightarrow> Some (w, no_error, n))"

definition posix_preadv ::
    "platform \<Rightarrow> 'w kernel \<Rightarrow> int \<Rightarrow> nat list \<Rightarrow> nat \<Rightarrow> 'w \<Rightarrow> ('w \<times> error_code \<times> bytes) option" where
  "posix_preadv P K fd sizes offset w =
     (case retry P (\<lambda>w. k_preadv K w fd sizes (to_off offset)) w of
        None \<Rightarrow> None
      | Some (w, Inl e) \<Rightarrow> Some (w, set_error e, [])
      | Some (w, Inr bs) \<Rightarrow>
          if length bs \<noteq> 0 then Some (w, no_error, bs) else Some (w, eof_unless_empty sizes, []))"

definition posix_pwritev ::
    "platform \<Rightarrow> 'w kernel \<Rightarrow> int \<Rightarrow> bytes list \<Rightarrow> nat \<Rightarrow> 'w \<Rightarrow> ('w \<times> error_code \<times> nat) option" where
  "posix_pwritev P K fd bufs offset w =
     (case retry P (\<lambda>w. k_pwritev K w fd bufs (to_off offset)) w of
        None \<Rightarrow> None
      | Some (w, Inl e) \<Rightarrow> Some (w, set_error e, 0)
      | Some (w, Inr n) \<Rightarrow> Some (w, no_error, n))"

section \<open>Interrupted calls end when the interruptions do\<close>

text \<open>\<open>answers P call w w' r\<close>: after any number of interruptions the call answers \<open>r\<close>.\<close>

inductive answers :: "platform \<Rightarrow> ('w \<Rightarrow> 'w \<times> (nat + 'a)) \<Rightarrow> 'w \<Rightarrow> 'w \<Rightarrow> nat + 'a \<Rightarrow> bool"
  for P call where
  now: "call w = (w', r) \<Longrightarrow> r \<noteq> Inl (EINTR P) \<Longrightarrow> answers P call w w' r"
| again: "call w = (w1, Inl (EINTR P)) \<Longrightarrow> answers P call w1 w' r \<Longrightarrow> answers P call w w' r"

inductive_cases answers_cases: "answers P call w w' r"

lemma retry_step:
  assumes "(case call w of
        (w', Inl e) \<Rightarrow> if e = EINTR P then self w' else Some (w', Inl e)
      | (w', Inr v) \<Rightarrow> Some (w', Inr v)) = Some x"
    and "\<And>w' . self w' = Some x \<Longrightarrow> answers P call w' (fst x) (snd x)"
  shows "answers P call w (fst x) (snd x)"
proof -
  obtain w1 r1 where c: "call w = (w1, r1)" by (cases "call w")
  show ?thesis
  proof (cases "r1 = Inl (EINTR P)")
    case True
    then have "self w1 = Some x" using assms(1) c by simp
    then show ?thesis using answers.again [of call w w1 P] c True assms(2) by blast
  next
    case False
    then have "x = (w1, r1)" using assms(1) c by (auto split: sum.splits if_splits)
    then show ?thesis using c False by (simp add: answers.now)
  qed
qed

lemma retry_sound: "retry P call w = Some x \<Longrightarrow> answers P call w (fst x) (snd x)"
  using retry.raw_induct [of "\<lambda>((P, call), w) x. answers P call w (fst x) (snd x)" P call w x]
    retry_step by fastforce

lemma retry_complete: "answers P call w w' r \<Longrightarrow> retry P call w = Some (w', r)"
proof (induction rule: answers.induct)
  case (now w w' r)
  then show ?case by (simp add: retry.simps [of P call w] split: sum.split)
next
  case (again w w1 w' r)
  then show ?case by (simp add: retry.simps [of P call w])
qed

lemma retry_iff: "retry P call w = Some (w', r) \<longleftrightarrow> answers P call w w' r"
  using retry_sound [of P call w "(w', r)"] retry_complete [of P call w w' r] by auto

lemma answers_not_interrupted: "answers P call w w' r \<Longrightarrow> r \<noteq> Inl (EINTR P)"
  by (induction rule: answers.induct)

text \<open>A measure that every interruption lowers is enough for an answer.\<close>

lemma answers_total:
  assumes "\<forall>v v'. call v = (v', Inl (EINTR P)) \<longrightarrow> (bound v' :: nat) < bound v"
  shows "\<exists>w' r. answers P call w w' r"
proof (induction "bound w" arbitrary: w rule: less_induct)
  case less
  obtain w1 r1 where c: "call w = (w1, r1)" by (cases "call w")
  show ?case
  proof (cases "r1 = Inl (EINTR P)")
    case True
    then have "bound w1 < bound w" using assms c by simp
    then obtain w' r where "answers P call w1 w' r" using less [of w1] by blast
    then have "answers P call w w' r" using answers.again [of call w w1 P w' r] c True by simp
    then show ?thesis by blast
  next
    case False
    then have "answers P call w w1 r1" using answers.now [of call w w1 r1 P] c by simp
    then show ?thesis by blast
  qed
qed

lemma retry_total:
  assumes "\<forall>v v'. call v = (v', Inl (EINTR P)) \<longrightarrow> (bound v' :: nat) < bound v"
  obtains w' r where "retry P call w = Some (w', r)" and "answers P call w w' r" and "r \<noteq> Inl (EINTR P)"
proof -
  obtain w' r where "answers P call w w' r" using answers_total [OF assms] by blast
  then show thesis using that retry_complete answers_not_interrupted by metis
qed

lemma eof_unless_empty_iff:
  "eof_unless_empty sizes = (if sum_list sizes = 0 then no_error else ec_asio eof)"
  by (induction sizes) auto

lemma retry_answer:
  assumes "\<forall>v v'. call v = (v', Inl (EINTR P)) \<longrightarrow> (bound v' :: nat) < bound v"
  shows "\<exists>w' r. retry P call w = Some (w', r) \<and> r \<noteq> Inl (EINTR P)"
  using assms by (rule retry_total [where w = w]) (intro exI conjI)

text \<open>
  What the operations need of the system to return: no call is interrupted for ever.
\<close>

definition interrupts_end :: "platform \<Rightarrow> 'w kernel \<Rightarrow> ('w \<Rightarrow> nat) \<Rightarrow> bool" where
  "interrupts_end P K bound \<longleftrightarrow>
     (\<forall>w w' path flags mode. k_open K w path flags mode = (w', Inl (EINTR P)) \<longrightarrow> bound w' < bound w)
     \<and> (\<forall>w w' fd sizes. k_readv K w fd sizes = (w', Inl (EINTR P)) \<longrightarrow> bound w' < bound w)
     \<and> (\<forall>w w' fd bufs. k_writev K w fd bufs = (w', Inl (EINTR P)) \<longrightarrow> bound w' < bound w)
     \<and> (\<forall>w w' fd n off. k_pread K w fd n off = (w', Inl (EINTR P)) \<longrightarrow> bound w' < bound w)
     \<and> (\<forall>w w' fd bs off. k_pwrite K w fd bs off = (w', Inl (EINTR P)) \<longrightarrow> bound w' < bound w)
     \<and> (\<forall>w w' fd sizes off. k_preadv K w fd sizes off = (w', Inl (EINTR P)) \<longrightarrow> bound w' < bound w)
     \<and> (\<forall>w w' fd bufs off. k_pwritev K w fd bufs off = (w', Inl (EINTR P)) \<longrightarrow> bound w' < bound w)"

text \<open>A result that is no interruption.\<close>

definition uninterrupted :: "platform \<Rightarrow> ('w \<times> error_code \<times> 'a) option \<Rightarrow> bool" where
  "uninterrupted P r \<longleftrightarrow> (\<exists>w ec v. r = Some (w, ec, v) \<and> ec \<noteq> ec_system (EINTR P))"

lemma readv_uninterrupted:
  assumes "retry P (\<lambda>w. k_readv K w fd sizes) w = Some (w', r)" and "r \<noteq> Inl (EINTR P)"
  shows "uninterrupted P (posix_readv P K fd sizes w)"
  using assms by (cases r) (auto simp: uninterrupted_def posix_readv_def set_error_def eof_unless_empty_iff)

lemma writev_uninterrupted:
  assumes "retry P (\<lambda>w. k_writev K w fd bufs) w = Some (w', r)" and "r \<noteq> Inl (EINTR P)"
  shows "uninterrupted P (posix_writev P K fd bufs w)"
  using assms by (cases r) (auto simp: uninterrupted_def posix_writev_def set_error_def)

lemma pread_uninterrupted:
  assumes "retry P (\<lambda>w. k_pread K w fd n (to_off off)) w = Some (w', r)" and "r \<noteq> Inl (EINTR P)"
  shows "uninterrupted P (posix_pread P K fd n off w)"
  using assms by (cases r) (auto simp: uninterrupted_def posix_pread_def set_error_def)

lemma pwrite_uninterrupted:
  assumes "retry P (\<lambda>w. k_pwrite K w fd bs (to_off off)) w = Some (w', r)" and "r \<noteq> Inl (EINTR P)"
  shows "uninterrupted P (posix_pwrite P K fd bs off w)"
  using assms by (cases r) (auto simp: uninterrupted_def posix_pwrite_def set_error_def)

lemma preadv_uninterrupted:
  assumes "retry P (\<lambda>w. k_preadv K w fd sizes (to_off off)) w = Some (w', r)" and "r \<noteq> Inl (EINTR P)"
  shows "uninterrupted P (posix_preadv P K fd sizes off w)"
  using assms by (cases r) (auto simp: uninterrupted_def posix_preadv_def set_error_def eof_unless_empty_iff)

lemma pwritev_uninterrupted:
  assumes "retry P (\<lambda>w. k_pwritev K w fd bufs (to_off off)) w = Some (w', r)" and "r \<noteq> Inl (EINTR P)"
  shows "uninterrupted P (posix_pwritev P K fd bufs off w)"
  using assms by (cases r) (auto simp: uninterrupted_def posix_pwritev_def set_error_def)

text \<open>Opening makes a second call for the attributes, and does not repeat it.\<close>

definition open_returns :: "platform \<Rightarrow> 'w kernel \<Rightarrow> open_args \<Rightarrow> ('w \<times> error_code \<times> int) option \<Rightarrow> bool" where
  "open_returns P K args r \<longleftrightarrow>
     (\<exists>w ec h. r = Some (w, ec, h)
        \<and> (ec = set_error (EINTR P) \<longrightarrow>
             has_file_flags P \<and> oa_attrs args \<noteq> 0
             \<and> (\<exists>v fd. snd (k_fchflags K v fd (oa_attrs args)) = Inl (EINTR P))))"

lemma open_uninterrupted:
  assumes "retry P (\<lambda>w. k_open K w path (O_CLOEXEC P OR native_flags args) (oa_mode args)) w = Some (w', r)"
    and "r \<noteq> Inl (EINTR P)"
  shows "open_returns P K args (posix_open P K path args w)"
proof (cases r)
  case (Inl e)
  then show ?thesis using assms by (auto simp: open_returns_def posix_open_def set_error_def)
next
  case (Inr fd)
  obtain v q where q: "k_fchflags K w' fd (oa_attrs args) = (v, q)" by fastforce
  then have "q = Inl (EINTR P) \<Longrightarrow> \<exists>v fd. snd (k_fchflags K v fd (oa_attrs args)) = Inl (EINTR P)"
    by (metis snd_conv)
  then show ?thesis using assms(1) Inr q
    by (cases q) (auto simp: open_returns_def posix_open_def set_error_def)
qed

text \<open>
  C28. When no call is interrupted for ever, every operation that repeats interrupted calls returns.
  Reading and writing, at the position or at an offset, into one buffer or several, never report
  \<open>EINTR\<close>. Opening reports it only if it sets attributes, where the system has them, and that second
  call, which is not repeated, is interrupted.
\<close>

theorem posix_operations_return:
  assumes "interrupts_end P K bound"
  shows "uninterrupted P (posix_readv P K fd sizes w) \<and> uninterrupted P (posix_writev P K fd bufs w)
    \<and> uninterrupted P (posix_pread P K fd n off w) \<and> uninterrupted P (posix_pwrite P K fd bs off w)
    \<and> uninterrupted P (posix_preadv P K fd sizes off w) \<and> uninterrupted P (posix_pwritev P K fd bufs off w)
    \<and> open_returns P K args (posix_open P K path args w)"
proof (intro conjI)
  note law = assms [unfolded interrupts_end_def]
  have "\<forall>v v'. (\<lambda>w. k_readv K w fd sizes) v = (v', Inl (EINTR P)) \<longrightarrow> bound v' < bound v"
    using law [THEN conjunct2, THEN conjunct1] by blast
  from retry_answer [OF this, of w] show "uninterrupted P (posix_readv P K fd sizes w)"
    by (elim exE conjE) (rule readv_uninterrupted)
  have "\<forall>v v'. (\<lambda>w. k_writev K w fd bufs) v = (v', Inl (EINTR P)) \<longrightarrow> bound v' < bound v"
    using law [THEN conjunct2, THEN conjunct2, THEN conjunct1] by blast
  from retry_answer [OF this, of w] show "uninterrupted P (posix_writev P K fd bufs w)"
    by (elim exE conjE) (rule writev_uninterrupted)
  have "\<forall>v v'. (\<lambda>w. k_pread K w fd n (to_off off)) v = (v', Inl (EINTR P)) \<longrightarrow> bound v' < bound v"
    using law [THEN conjunct2, THEN conjunct2, THEN conjunct2, THEN conjunct1] by blast
  from retry_answer [OF this, of w] show "uninterrupted P (posix_pread P K fd n off w)"
    by (elim exE conjE) (rule pread_uninterrupted)
  have "\<forall>v v'. (\<lambda>w. k_pwrite K w fd bs (to_off off)) v = (v', Inl (EINTR P)) \<longrightarrow> bound v' < bound v"
    using law [THEN conjunct2, THEN conjunct2, THEN conjunct2, THEN conjunct2, THEN conjunct1] by blast
  from retry_answer [OF this, of w] show "uninterrupted P (posix_pwrite P K fd bs off w)"
    by (elim exE conjE) (rule pwrite_uninterrupted)
  have "\<forall>v v'. (\<lambda>w. k_preadv K w fd sizes (to_off off)) v = (v', Inl (EINTR P)) \<longrightarrow> bound v' < bound v"
    using law [THEN conjunct2, THEN conjunct2, THEN conjunct2, THEN conjunct2, THEN conjunct2, THEN conjunct1] by blast
  from retry_answer [OF this, of w] show "uninterrupted P (posix_preadv P K fd sizes off w)"
    by (elim exE conjE) (rule preadv_uninterrupted)
  have "\<forall>v v'. (\<lambda>w. k_pwritev K w fd bufs (to_off off)) v = (v', Inl (EINTR P)) \<longrightarrow> bound v' < bound v"
    using law [THEN conjunct2, THEN conjunct2, THEN conjunct2, THEN conjunct2, THEN conjunct2, THEN conjunct2] by blast
  from retry_answer [OF this, of w] show "uninterrupted P (posix_pwritev P K fd bufs off w)"
    by (elim exE conjE) (rule pwritev_uninterrupted)
  have "\<forall>v v'. (\<lambda>w. k_open K w path (O_CLOEXEC P OR native_flags args) (oa_mode args)) v = (v', Inl (EINTR P))
      \<longrightarrow> bound v' < bound v"
    using law [THEN conjunct1] by blast
  from retry_answer [OF this, of w] show "open_returns P K args (posix_open P K path args w)"
    by (elim exE conjE) (rule open_uninterrupted)
qed

text \<open>A system that interrupts every call as often as its state says, and then fails.\<close>

definition busy_call :: "nat \<Rightarrow> nat \<times> (nat + 'a)" where
  "busy_call w = (if 0 < w then (w - 1, Inl 4) else (w, Inl 5))"

definition busy_kernel :: "nat kernel" where
  "busy_kernel =
     \<lparr>k_open = (\<lambda>w _ _ _. busy_call w), k_close = (\<lambda>w _. busy_call w), k_dup = (\<lambda>w _. busy_call w),
      k_fstat = (\<lambda>w _. busy_call w), k_ftruncate = (\<lambda>w _ _. busy_call w),
      k_lseek = (\<lambda>w _ _ _. busy_call w), k_fchmod = (\<lambda>w _ _. busy_call w),
      k_fchflags = (\<lambda>w _ _. busy_call w), k_futimens = (\<lambda>w _ _. busy_call w),
      k_futimes = (\<lambda>w _ _. busy_call w), k_readv = (\<lambda>w _ _. busy_call w),
      k_writev = (\<lambda>w _ _. busy_call w), k_pread = (\<lambda>w _ _ _. busy_call w),
      k_pwrite = (\<lambda>w _ _ _. busy_call w), k_preadv = (\<lambda>w _ _ _. busy_call w),
      k_pwritev = (\<lambda>w _ _ _. busy_call w)\<rparr>"

theorem posix_operations_return_witness:
  "uninterrupted linux (posix_readv linux busy_kernel 3 [10] 7)
   \<and> (\<exists>w ec h. posix_open linux busy_kernel ''a'' open_args_default 7 = Some (w, ec, h) \<and> ec \<noteq> set_error 4)"
proof -
  have "interrupts_end linux busy_kernel (\<lambda>w. w)"
    by (auto simp: interrupts_end_def busy_kernel_def busy_call_def linux_def split: if_splits)
  from posix_operations_return [OF this, of 3 "[10]" 7 _ _ _ _ open_args_default "''a''"]
  show ?thesis by (auto simp: open_returns_def linux_def)
qed

end
