(* ===== verification/FileHandle.thy ===== *)
theory FileHandle
  imports PosixOps
begin

text \<open>
  \<^verbatim>\<open>file_handle\<close> (\<^verbatim>\<open>file_handle.hpp\<close>, \<^verbatim>\<open>impl/file_handle*\<close>) and the functions that
  make handles (\<^verbatim>\<open>open.hpp\<close>, \<^verbatim>\<open>duplicate.hpp\<close>, \<^verbatim>\<open>standard_streams.hpp\<close>), on a POSIX
  system. A buffer sequence is the list of its buffers: their sizes for reading, their bytes for
  writing. A function that raises gives the state of the system and the exception or the value.
\<close>

record file_handle =
  native_handle :: int

record file_times =
  ctime :: int
  atime :: int
  mtime :: int

definition file_times_eq :: "file_times \<Rightarrow> file_times \<Rightarrow> bool" where
  "file_times_eq a b = (ctime a = ctime b \<and> atime a = atime b \<and> mtime a = mtime b)"

text \<open>
  \<^verbatim>\<open>error_code ec; v = f(ec); throw_error(ec, location); return v;\<close> for an \<open>f\<close> that returns, and
  for one that may not.
\<close>

definition throwing :: "string \<Rightarrow> 'w \<times> error_code \<times> 'a \<Rightarrow> 'w \<times> (cxx_exception + 'a)" where
  "throwing location r = (case r of (w, ec, v) \<Rightarrow> (w, throw_error ec location v))"

definition throwing_unit :: "string \<Rightarrow> 'w \<times> error_code \<Rightarrow> 'w \<times> (cxx_exception + unit)" where
  "throwing_unit location r = (case r of (w, ec) \<Rightarrow> (w, throw_error ec location ()))"

section \<open>Lifetime\<close>

definition fh_default :: file_handle where
  "fh_default = \<lparr>native_handle = - 1\<rparr>"

definition fh_new :: "int \<Rightarrow> file_handle" where
  "fh_new h = \<lparr>native_handle = h\<rparr>"

definition fh_is_open :: "file_handle \<Rightarrow> bool" where
  "fh_is_open h = (native_handle h \<noteq> - 1)"

definition fh_clear :: "file_handle \<Rightarrow> file_handle" where
  "fh_clear h = h\<lparr>native_handle := - 1\<rparr>"

definition fh_close :: "'w kernel \<Rightarrow> file_handle \<Rightarrow> 'w \<Rightarrow> file_handle \<times> 'w \<times> error_code" where
  "fh_close K h w =
     (if native_handle h = - 1 then (h, w, no_error)
      else (case posix_close K (native_handle h) w of (w, ec) \<Rightarrow> (h\<lparr>native_handle := - 1\<rparr>, w, ec)))"

definition fh_close_throwing ::
    "'w kernel \<Rightarrow> file_handle \<Rightarrow> 'w \<Rightarrow> file_handle \<times> 'w \<times> (cxx_exception + unit)" where
  "fh_close_throwing K h w =
     (case fh_close K h w of (h, r) \<Rightarrow> (h, throwing_unit ''close'' r))"

section \<open>Position, size and meta data\<close>

definition fh_seek :: "'w kernel \<Rightarrow> file_handle \<Rightarrow> seek_origin \<Rightarrow> int \<Rightarrow> 'w \<Rightarrow> 'w \<times> error_code \<times> nat" where
  "fh_seek K h origin offset w = posix_seek K (native_handle h) origin offset w"

definition fh_seek_throwing ::
    "'w kernel \<Rightarrow> file_handle \<Rightarrow> seek_origin \<Rightarrow> int \<Rightarrow> 'w \<Rightarrow> 'w \<times> (cxx_exception + nat)" where
  "fh_seek_throwing K h origin offset w = throwing ''seek'' (fh_seek K h origin offset w)"

definition fh_position :: "'w kernel \<Rightarrow> file_handle \<Rightarrow> 'w \<Rightarrow> 'w \<times> error_code \<times> nat" where
  "fh_position K h w = fh_seek K h from_current 0 w"

definition fh_position_throwing :: "'w kernel \<Rightarrow> file_handle \<Rightarrow> 'w \<Rightarrow> 'w \<times> (cxx_exception + nat)" where
  "fh_position_throwing K h w = throwing ''position'' (fh_position K h w)"

definition fh_size :: "'w kernel \<Rightarrow> file_handle \<Rightarrow> 'w \<Rightarrow> 'w \<times> error_code \<times> nat" where
  "fh_size K h w = posix_size K (native_handle h) w"

definition fh_size_throwing :: "'w kernel \<Rightarrow> file_handle \<Rightarrow> 'w \<Rightarrow> 'w \<times> (cxx_exception + nat)" where
  "fh_size_throwing K h w = throwing ''size'' (fh_size K h w)"

definition fh_truncate :: "'w kernel \<Rightarrow> file_handle \<Rightarrow> nat \<Rightarrow> 'w \<Rightarrow> 'w \<times> error_code" where
  "fh_truncate K h new_size w = posix_set_size K (native_handle h) new_size w"

definition fh_truncate_throwing ::
    "'w kernel \<Rightarrow> file_handle \<Rightarrow> nat \<Rightarrow> 'w \<Rightarrow> 'w \<times> (cxx_exception + unit)" where
  "fh_truncate_throwing K h new_size w = throwing_unit ''truncate'' (fh_truncate K h new_size w)"

definition fh_permissions :: "'w kernel \<Rightarrow> file_handle \<Rightarrow> 'w \<Rightarrow> 'w \<times> error_code \<times> u32" where
  "fh_permissions K h w = posix_permissions K (native_handle h) w"

definition fh_permissions_throwing :: "'w kernel \<Rightarrow> file_handle \<Rightarrow> 'w \<Rightarrow> 'w \<times> (cxx_exception + u32)" where
  "fh_permissions_throwing K h w = throwing ''get_permissions'' (fh_permissions K h w)"

definition fh_set_permissions :: "'w kernel \<Rightarrow> file_handle \<Rightarrow> u32 \<Rightarrow> u32 \<Rightarrow> 'w \<Rightarrow> 'w \<times> error_code" where
  "fh_set_permissions K h perms opts w = posix_set_permissions K (native_handle h) perms opts w"

definition fh_set_permissions_throwing ::
    "'w kernel \<Rightarrow> file_handle \<Rightarrow> u32 \<Rightarrow> u32 \<Rightarrow> 'w \<Rightarrow> 'w \<times> (cxx_exception + unit)" where
  "fh_set_permissions_throwing K h perms opts w =
     throwing_unit ''set_permissions'' (fh_set_permissions K h perms opts w)"

definition fh_replace_permissions :: "'w kernel \<Rightarrow> file_handle \<Rightarrow> u32 \<Rightarrow> 'w \<Rightarrow> 'w \<times> error_code" where
  "fh_replace_permissions K h perms w = fh_set_permissions K h perms opt_replace w"

definition fh_attributes ::
    "platform \<Rightarrow> 'w kernel \<Rightarrow> file_handle \<Rightarrow> 'w \<Rightarrow> 'w \<times> error_code \<times> u32" where
  "fh_attributes P K h w = posix_attributes P K (native_handle h) w"

definition fh_attributes_throwing ::
    "platform \<Rightarrow> 'w kernel \<Rightarrow> file_handle \<Rightarrow> 'w \<Rightarrow> 'w \<times> (cxx_exception + u32)" where
  "fh_attributes_throwing P K h w = throwing ''get_attributes'' (fh_attributes P K h w)"

definition fh_set_attributes ::
    "platform \<Rightarrow> 'w kernel \<Rightarrow> file_handle \<Rightarrow> u32 \<Rightarrow> u32 \<Rightarrow> 'w \<Rightarrow> 'w \<times> error_code" where
  "fh_set_attributes P K h attrs opts w = posix_set_attributes P K (native_handle h) attrs opts w"

definition fh_set_attributes_throwing ::
    "platform \<Rightarrow> 'w kernel \<Rightarrow> file_handle \<Rightarrow> u32 \<Rightarrow> u32 \<Rightarrow> 'w \<Rightarrow> 'w \<times> (cxx_exception + unit)" where
  "fh_set_attributes_throwing P K h attrs opts w =
     throwing_unit ''set_attributes'' (fh_set_attributes P K h attrs opts w)"

definition fh_replace_attributes ::
    "platform \<Rightarrow> 'w kernel \<Rightarrow> file_handle \<Rightarrow> u32 \<Rightarrow> 'w \<Rightarrow> 'w \<times> error_code" where
  "fh_replace_attributes P K h attrs w = fh_set_attributes P K h attrs opt_replace w"

definition fh_times ::
    "platform \<Rightarrow> 'w kernel \<Rightarrow> file_handle \<Rightarrow> 'w \<Rightarrow> ('w \<times> error_code \<times> file_times) option" where
  "fh_times P K h w =
     (case posix_get_times P K (native_handle h) (0, 0, 0) w of
        None \<Rightarrow> None
      | Some (w, ec, c, a, m) \<Rightarrow> Some (w, ec, \<lparr>ctime = c, atime = a, mtime = m\<rparr>))"

definition fh_times_throwing ::
    "platform \<Rightarrow> 'w kernel \<Rightarrow> file_handle \<Rightarrow> 'w \<Rightarrow> ('w \<times> (cxx_exception + file_times)) option" where
  "fh_times_throwing P K h w = map_option (throwing ''get_times'') (fh_times P K h w)"

definition fh_set_times ::
    "platform \<Rightarrow> 'w kernel \<Rightarrow> file_handle \<Rightarrow> file_times \<Rightarrow> 'w \<Rightarrow> ('w \<times> error_code) option" where
  "fh_set_times P K h new_times w =
     posix_set_times P K (native_handle h) (ctime new_times, atime new_times, mtime new_times) w"

definition fh_set_times_throwing ::
    "platform \<Rightarrow> 'w kernel \<Rightarrow> file_handle \<Rightarrow> file_times \<Rightarrow> 'w \<Rightarrow> ('w \<times> (cxx_exception + unit)) option" where
  "fh_set_times_throwing P K h new_times w =
     map_option (throwing_unit ''set_times'') (fh_set_times P K h new_times w)"

section \<open>Reading and writing\<close>

text \<open>The first buffer that is not empty, or an empty one.\<close>

fun first_mutable_buffer :: "nat list \<Rightarrow> nat" where
  "first_mutable_buffer [] = 0"
| "first_mutable_buffer (b # bufs) = (if b \<noteq> 0 then b else first_mutable_buffer bufs)"

fun first_const_buffer :: "bytes list \<Rightarrow> bytes" where
  "first_const_buffer [] = []"
| "first_const_buffer (b # bufs) = (if length b \<noteq> 0 then b else first_const_buffer bufs)"

definition fh_read_some ::
    "platform \<Rightarrow> 'w kernel \<Rightarrow> file_handle \<Rightarrow> nat list \<Rightarrow> 'w \<Rightarrow> ('w \<times> error_code \<times> bytes) option" where
  "fh_read_some P K h bufs w = posix_readv P K (native_handle h) bufs w"

definition fh_read_some_throwing ::
    "platform \<Rightarrow> 'w kernel \<Rightarrow> file_handle \<Rightarrow> nat list \<Rightarrow> 'w \<Rightarrow> ('w \<times> (cxx_exception + bytes)) option" where
  "fh_read_some_throwing P K h bufs w = map_option (throwing ''read_some'') (fh_read_some P K h bufs w)"

definition fh_write_some ::
    "platform \<Rightarrow> 'w kernel \<Rightarrow> file_handle \<Rightarrow> bytes list \<Rightarrow> 'w \<Rightarrow> ('w \<times> error_code \<times> nat) option" where
  "fh_write_some P K h bufs w = posix_writev P K (native_handle h) bufs w"

definition fh_write_some_throwing ::
    "platform \<Rightarrow> 'w kernel \<Rightarrow> file_handle \<Rightarrow> bytes list \<Rightarrow> 'w \<Rightarrow> ('w \<times> (cxx_exception + nat)) option" where
  "fh_write_some_throwing P K h bufs w = map_option (throwing ''write_some'') (fh_write_some P K h bufs w)"

definition fh_read_some_at ::
    "platform \<Rightarrow> 'w kernel \<Rightarrow> file_handle \<Rightarrow> nat \<Rightarrow> nat list \<Rightarrow> 'w \<Rightarrow> ('w \<times> error_code \<times> bytes) option" where
  "fh_read_some_at P K h offset bufs w =
     (if has_pvec_io P then posix_preadv P K (native_handle h) bufs offset w
      else posix_pread P K (native_handle h) (first_mutable_buffer bufs) offset w)"

definition fh_read_some_at_throwing ::
    "platform \<Rightarrow> 'w kernel \<Rightarrow> file_handle \<Rightarrow> nat \<Rightarrow> nat list \<Rightarrow> 'w \<Rightarrow> ('w \<times> (cxx_exception + bytes)) option" where
  "fh_read_some_at_throwing P K h offset bufs w =
     map_option (throwing ''read_some_at'') (fh_read_some_at P K h offset bufs w)"

definition fh_write_some_at ::
    "platform \<Rightarrow> 'w kernel \<Rightarrow> file_handle \<Rightarrow> nat \<Rightarrow> bytes list \<Rightarrow> 'w \<Rightarrow> ('w \<times> error_code \<times> nat) option" where
  "fh_write_some_at P K h offset bufs w =
     (if has_pvec_io P then posix_pwritev P K (native_handle h) bufs offset w
      else posix_pwrite P K (native_handle h) (first_const_buffer bufs) offset w)"

definition fh_write_some_at_throwing ::
    "platform \<Rightarrow> 'w kernel \<Rightarrow> file_handle \<Rightarrow> nat \<Rightarrow> bytes list \<Rightarrow> 'w \<Rightarrow> ('w \<times> (cxx_exception + nat)) option" where
  "fh_write_some_at_throwing P K h offset bufs w =
     map_option (throwing ''write_some_at'') (fh_write_some_at P K h offset bufs w)"

section \<open>Standard streams\<close>

text \<open>The overloads without a code ignore it.\<close>

definition get_stdin :: "error_code \<Rightarrow> error_code \<times> file_handle" where
  "get_stdin ec = (case posix_get_stdin ec of (ec, h) \<Rightarrow> (ec, fh_new h))"

definition get_stdout :: "error_code \<Rightarrow> error_code \<times> file_handle" where
  "get_stdout ec = (case posix_get_stdout ec of (ec, h) \<Rightarrow> (ec, fh_new h))"

definition get_stderr :: "error_code \<Rightarrow> error_code \<times> file_handle" where
  "get_stderr ec = (case posix_get_stderr ec of (ec, h) \<Rightarrow> (ec, fh_new h))"

definition get_stdin_throwing :: file_handle where "get_stdin_throwing = snd (get_stdin no_error)"
definition get_stdout_throwing :: file_handle where "get_stdout_throwing = snd (get_stdout no_error)"
definition get_stderr_throwing :: file_handle where "get_stderr_throwing = snd (get_stderr no_error)"

end
