(* ===== verification/UniqueHandle.thy ===== *)
theory UniqueHandle
  imports FileHandle
begin

text \<open>
  \<^verbatim>\<open>unique_file_handle\<close>: a handle that is closed by the object that holds it, and the functions
  that make one (\<^verbatim>\<open>open\<close>, \<^verbatim>\<open>duplicate\<close>). The objects of a program live in a store, since the
  assignment may have one object as both operands; the invariant says that every descriptor that is
  open belongs to exactly one object, or to the user of the library.
\<close>

record unique_file_handle =
  uh :: file_handle

section \<open>The operations on one object\<close>

definition ufh_default :: unique_file_handle where
  "ufh_default = \<lparr>uh = fh_default\<rparr>"

definition ufh_of_handle :: "file_handle \<Rightarrow> unique_file_handle" where
  "ufh_of_handle h = \<lparr>uh = h\<rparr>"

definition ufh_of_native :: "int \<Rightarrow> unique_file_handle" where
  "ufh_of_native h = \<lparr>uh = fh_new h\<rparr>"

definition ufh_get :: "unique_file_handle \<Rightarrow> file_handle" where
  "ufh_get u = uh u"

definition ufh_is_open :: "unique_file_handle \<Rightarrow> bool" where
  "ufh_is_open u = fh_is_open (uh u)"

definition ufh_close :: "'w kernel \<Rightarrow> unique_file_handle \<Rightarrow> 'w \<Rightarrow> unique_file_handle \<times> 'w \<times> error_code" where
  "ufh_close K u w = (case fh_close K (uh u) w of (h, w, ec) \<Rightarrow> (u\<lparr>uh := h\<rparr>, w, ec))"

definition ufh_close_throwing ::
    "'w kernel \<Rightarrow> unique_file_handle \<Rightarrow> 'w \<Rightarrow> unique_file_handle \<times> 'w \<times> (cxx_exception + unit)" where
  "ufh_close_throwing K u w = (case fh_close_throwing K (uh u) w of (h, r) \<Rightarrow> (u\<lparr>uh := h\<rparr>, r))"

definition ufh_destroy :: "'w kernel \<Rightarrow> unique_file_handle \<Rightarrow> 'w \<Rightarrow> 'w" where
  "ufh_destroy K u w = (case ufh_close K u w of (_, w, _) \<Rightarrow> w)"

text \<open>The new object and what is left of the other.\<close>

definition ufh_move_new :: "unique_file_handle \<Rightarrow> unique_file_handle \<times> unique_file_handle" where
  "ufh_move_new other = (\<lparr>uh = uh other\<rparr>, other\<lparr>uh := fh_clear (uh other)\<rparr>)"

definition ufh_release :: "unique_file_handle \<Rightarrow> unique_file_handle \<times> file_handle" where
  "ufh_release u = (u\<lparr>uh := fh_clear (uh u)\<rparr>, uh u)"

definition ufh_reset ::
    "'w kernel \<Rightarrow> unique_file_handle \<Rightarrow> file_handle \<Rightarrow> 'w \<Rightarrow> unique_file_handle \<times> 'w \<times> error_code" where
  "ufh_reset K u h w =
     (case ufh_close K u w of
        (u, w, ec) \<Rightarrow> (if \<not> ec_failed ec then u\<lparr>uh := h\<rparr> else u, w, ec))"

definition ufh_reset_throwing ::
    "'w kernel \<Rightarrow> unique_file_handle \<Rightarrow> file_handle \<Rightarrow> 'w \<Rightarrow> unique_file_handle \<times> 'w \<times> (cxx_exception + unit)" where
  "ufh_reset_throwing K u h w = (case ufh_reset K u h w of (u, r) \<Rightarrow> (u, throwing_unit ''reset'' r))"

section \<open>Functions that return a handle\<close>

definition open_file ::
    "platform \<Rightarrow> 'w kernel \<Rightarrow> string \<Rightarrow> open_args \<Rightarrow> 'w \<Rightarrow> ('w \<times> error_code \<times> unique_file_handle) option" where
  "open_file P K filename args w =
     (case posix_open P K filename args w of
        None \<Rightarrow> None
      | Some (w, ec, h) \<Rightarrow> Some (w, ec, ufh_of_native h))"

text \<open>
  When the exception is raised the local handle is destroyed on the way out.
\<close>

definition open_file_throwing ::
    "platform \<Rightarrow> 'w kernel \<Rightarrow> string \<Rightarrow> open_args \<Rightarrow> 'w
      \<Rightarrow> ('w \<times> (cxx_exception + unique_file_handle)) option" where
  "open_file_throwing P K filename args w =
     (case open_file P K filename args w of
        None \<Rightarrow> None
      | Some (w, ec, h) \<Rightarrow>
          (case throw_error ec ''open'' h of
             Inl e \<Rightarrow> Some (ufh_destroy K h w, Inl e)
           | Inr h \<Rightarrow> Some (w, Inr h)))"

definition duplicate :: "'w kernel \<Rightarrow> file_handle \<Rightarrow> 'w \<Rightarrow> 'w \<times> error_code \<times> unique_file_handle" where
  "duplicate K h w =
     (case posix_duplicate K (native_handle h) w of (w, ec, n) \<Rightarrow> (w, ec, ufh_of_native n))"

definition duplicate_throwing ::
    "'w kernel \<Rightarrow> file_handle \<Rightarrow> 'w \<Rightarrow> 'w \<times> (cxx_exception + unique_file_handle)" where
  "duplicate_throwing K h w =
     (case duplicate K h w of
        (w, ec, u) \<Rightarrow>
          (case throw_error ec ''duplicate'' u of
             Inl e \<Rightarrow> (ufh_destroy K u w, Inl e)
           | Inr u \<Rightarrow> (w, Inr u)))"

section \<open>The operations that pass on to the handle\<close>

definition ufh_position where "ufh_position K u w = fh_position K (uh u) w"
definition ufh_position_throwing where "ufh_position_throwing K u w = fh_position_throwing K (uh u) w"
definition ufh_seek where "ufh_seek K u origin offset w = fh_seek K (uh u) origin offset w"
definition ufh_seek_throwing where
  "ufh_seek_throwing K u origin offset w = fh_seek_throwing K (uh u) origin offset w"
definition ufh_size where "ufh_size K u w = fh_size K (uh u) w"
definition ufh_size_throwing where "ufh_size_throwing K u w = fh_size_throwing K (uh u) w"
definition ufh_truncate where "ufh_truncate K u n w = fh_truncate K (uh u) n w"
definition ufh_truncate_throwing where "ufh_truncate_throwing K u n w = fh_truncate_throwing K (uh u) n w"
definition ufh_permissions where "ufh_permissions K u w = fh_permissions K (uh u) w"
definition ufh_permissions_throwing where
  "ufh_permissions_throwing K u w = fh_permissions_throwing K (uh u) w"
definition ufh_set_permissions where
  "ufh_set_permissions K u perms opts w = fh_set_permissions K (uh u) perms opts w"
definition ufh_set_permissions_throwing where
  "ufh_set_permissions_throwing K u perms opts w = fh_set_permissions_throwing K (uh u) perms opts w"
definition ufh_replace_permissions where
  "ufh_replace_permissions K u perms w = fh_replace_permissions K (uh u) perms w"
definition ufh_attributes where "ufh_attributes P K u w = fh_attributes P K (uh u) w"
definition ufh_attributes_throwing where
  "ufh_attributes_throwing P K u w = fh_attributes_throwing P K (uh u) w"
definition ufh_set_attributes where
  "ufh_set_attributes P K u attrs opts w = fh_set_attributes P K (uh u) attrs opts w"
definition ufh_set_attributes_throwing where
  "ufh_set_attributes_throwing P K u attrs opts w = fh_set_attributes_throwing P K (uh u) attrs opts w"
definition ufh_replace_attributes where
  "ufh_replace_attributes P K u attrs w = fh_replace_attributes P K (uh u) attrs w"
definition ufh_times where "ufh_times P K u w = fh_times P K (uh u) w"
definition ufh_times_throwing where "ufh_times_throwing P K u w = fh_times_throwing P K (uh u) w"
definition ufh_set_times where "ufh_set_times P K u ts w = fh_set_times P K (uh u) ts w"
definition ufh_set_times_throwing where
  "ufh_set_times_throwing P K u ts w = fh_set_times_throwing P K (uh u) ts w"
definition ufh_read_some where "ufh_read_some P K u bufs w = fh_read_some P K (uh u) bufs w"
definition ufh_read_some_throwing where
  "ufh_read_some_throwing P K u bufs w = fh_read_some_throwing P K (uh u) bufs w"
definition ufh_write_some where "ufh_write_some P K u bufs w = fh_write_some P K (uh u) bufs w"
definition ufh_write_some_throwing where
  "ufh_write_some_throwing P K u bufs w = fh_write_some_throwing P K (uh u) bufs w"
definition ufh_read_some_at where
  "ufh_read_some_at P K u offset bufs w = fh_read_some_at P K (uh u) offset bufs w"
definition ufh_read_some_at_throwing where
  "ufh_read_some_at_throwing P K u offset bufs w = fh_read_some_at_throwing P K (uh u) offset bufs w"
definition ufh_write_some_at where
  "ufh_write_some_at P K u offset bufs w = fh_write_some_at P K (uh u) offset bufs w"
definition ufh_write_some_at_throwing where
  "ufh_write_some_at_throwing P K u offset bufs w = fh_write_some_at_throwing P K (uh u) offset bufs w"

section \<open>A program with several objects\<close>

text \<open>
  \<^verbatim>\<open>*a = std::move(*b)\<close> on the objects \<open>m\<close>: close, take the handle of the other, clear the other.
  When the close raises, nothing is taken.
\<close>

definition ufh_move_assign ::
    "'w kernel \<Rightarrow> nat \<Rightarrow> nat \<Rightarrow> (nat \<Rightarrow> unique_file_handle) \<Rightarrow> 'w
      \<Rightarrow> (nat \<Rightarrow> unique_file_handle) \<times> 'w \<times> (cxx_exception + unit)" where
  "ufh_move_assign K a b m w =
     (let (h, w, r) = (if fh_is_open (uh (m a)) then fh_close_throwing K (uh (m a)) w
                       else (uh (m a), w, Inr ()));
          m = m(a := (m a)\<lparr>uh := h\<rparr>) in
      case r of
        Inl e \<Rightarrow> (m, w, Inl e)
      | Inr _ \<Rightarrow>
          (let m = m(a := (m a)\<lparr>uh := uh (m b)\<rparr>);
               m = m(b := (m b)\<lparr>uh := fh_clear (uh (m b))\<rparr>) in (m, w, Inr ())))"

text \<open>
  \<open>live\<close> are the objects that exist; \<open>raw\<close> holds the handles that are in the user's hands: those
  released from an object, or obtained elsewhere, and not yet given to one.
\<close>

record 'w uh_state =
  objs :: "nat \<Rightarrow> unique_file_handle"
  live :: "nat set"
  raw :: "int set"
  world :: 'w

inductive uh_step :: "platform \<Rightarrow> 'w kernel \<Rightarrow> 'w uh_state \<Rightarrow> 'w uh_state \<Rightarrow> bool" for P K where
  make: "i \<notin> live s \<Longrightarrow>
    uh_step P K s (s\<lparr>objs := (objs s)(i := ufh_default), live := insert i (live s)\<rparr>)"
| adopt: "i \<notin> live s \<Longrightarrow> h \<in> raw s \<Longrightarrow>
    uh_step P K s (s\<lparr>objs := (objs s)(i := ufh_of_native h), live := insert i (live s), raw := raw s - {h}\<rparr>)"
| open_new: "i \<notin> live s \<Longrightarrow> open_file P K path args (world s) = Some (w, ec, u) \<Longrightarrow>
    uh_step P K s (s\<lparr>objs := (objs s)(i := u), live := insert i (live s), world := w\<rparr>)"
| dup_new: "i \<notin> live s \<Longrightarrow> duplicate K h (world s) = (w, ec, u) \<Longrightarrow>
    uh_step P K s (s\<lparr>objs := (objs s)(i := u), live := insert i (live s), world := w\<rparr>)"
| move_new: "i \<notin> live s \<Longrightarrow> j \<in> live s \<Longrightarrow> ufh_move_new (objs s j) = (u, v) \<Longrightarrow>
    uh_step P K s (s\<lparr>objs := (objs s)(i := u, j := v), live := insert i (live s)\<rparr>)"
| move_assign: "i \<in> live s \<Longrightarrow> j \<in> live s \<Longrightarrow> ufh_move_assign K i j (objs s) (world s) = (m, w, r) \<Longrightarrow>
    uh_step P K s (s\<lparr>objs := m, world := w\<rparr>)"
| close_obj: "i \<in> live s \<Longrightarrow> ufh_close K (objs s i) (world s) = (u, w, ec) \<Longrightarrow>
    uh_step P K s (s\<lparr>objs := (objs s)(i := u), world := w\<rparr>)"
| release_obj: "i \<in> live s \<Longrightarrow> ufh_release (objs s i) = (u, h) \<Longrightarrow>
    uh_step P K s (s\<lparr>objs := (objs s)(i := u), raw := raw s \<union> ({native_handle h} - {- 1})\<rparr>)"
| reset_obj: "i \<in> live s \<Longrightarrow> h \<in> raw s \<Longrightarrow> ufh_reset K (objs s i) (fh_new h) (world s) = (u, w, ec) \<Longrightarrow>
    uh_step P K s (s\<lparr>objs := (objs s)(i := u), raw := (if ec_failed ec then raw s else raw s - {h}), world := w\<rparr>)"
| destroy: "i \<in> live s \<Longrightarrow>
    uh_step P K s (s\<lparr>live := live s - {i}, world := ufh_destroy K (objs s i) (world s)\<rparr>)"
| close_raw: "h \<in> raw s \<Longrightarrow> fh_close K (fh_new h) (world s) = (h', w, ec) \<Longrightarrow>
    uh_step P K s (s\<lparr>raw := raw s - {h}, world := w\<rparr>)"

section \<open>Ownership\<close>

text \<open>
  What the system promises of descriptors: \<open>fds\<close> are those that are open. A call that makes one
  gives a new one, \<^verbatim>\<open>close\<close> releases the one it is given even when it reports an error, and no
  other call changes them.
\<close>

definition fd_kernel :: "'w kernel \<Rightarrow> ('w \<Rightarrow> int set) \<Rightarrow> bool" where
  "fd_kernel K fds \<longleftrightarrow>
     (\<forall>w. - 1 \<notin> fds w)
     \<and> (\<forall>w path flags mode. case k_open K w path flags mode of
          (w', Inl e) \<Rightarrow> fds w' = fds w
        | (w', Inr fd) \<Rightarrow> fd \<notin> fds w \<and> fds w' = insert fd (fds w))
     \<and> (\<forall>w h. case k_dup K w h of
          (w', Inl e) \<Rightarrow> fds w' = fds w
        | (w', Inr fd) \<Rightarrow> fd \<notin> fds w \<and> fds w' = insert fd (fds w))
     \<and> (\<forall>w fd. fd \<in> fds w \<longrightarrow> fds (fst (k_close K w fd)) = fds w - {fd})
     \<and> (\<forall>w fd a. fds (fst (k_fchflags K w fd a)) = fds w)"

text \<open>
  \<open>m\<close> gives the handle of every object, -1 for none; the open descriptors \<open>F\<close> are those of the rest
  of the program \<open>B\<close>, the user's \<open>R\<close> and one for every open object, all different.
\<close>

definition owns :: "int set \<Rightarrow> int set \<Rightarrow> (nat \<Rightarrow> int) \<Rightarrow> nat set \<Rightarrow> int set \<Rightarrow> bool" where
  "owns B F m L R \<longleftrightarrow>
     (\<forall>i \<in> L. \<forall>j \<in> L. m i = m j \<longrightarrow> m i = - 1 \<or> i = j)
     \<and> (\<forall>x. x \<in> F \<longleftrightarrow> x \<in> B \<or> x \<in> R \<or> (\<exists>i \<in> L. m i = x \<and> x \<noteq> - 1))
     \<and> B \<inter> R = {} \<and> (\<forall>i \<in> L. m i \<notin> B \<and> m i \<notin> R) \<and> - 1 \<notin> F"

lemma owns_cong: "(\<And>i. i \<in> L \<Longrightarrow> m i = m' i) \<Longrightarrow> owns B F m L R = owns B F m' L R"
  by (simp add: owns_def cong: ball_cong bex_cong)

lemma owns_closed: "owns B F m L R \<Longrightarrow> i \<in> L \<Longrightarrow> owns B (F - {m i}) (m(i := - 1)) L R"
  unfolding owns_def by auto

lemma owns_make: "owns B F m L R \<Longrightarrow> i \<notin> L \<Longrightarrow> owns B F (m(i := - 1)) (insert i L) R"
  unfolding owns_def by auto

lemma owns_take: "owns B F m L R \<Longrightarrow> i \<in> L \<Longrightarrow> m i = - 1 \<Longrightarrow> h \<in> R \<Longrightarrow> owns B F (m(i := h)) L (R - {h})"
  unfolding owns_def by auto

lemma owns_give:
  "owns B F m L R \<Longrightarrow> i \<in> L \<Longrightarrow> owns B F (m(i := - 1)) L (R \<union> ({m i} - {- 1}))"
  unfolding owns_def by auto

lemma owns_move:
  assumes "owns B F m L R" and "i \<in> L" and "j \<in> L" and "m i = - 1"
  shows "owns B F (m(i := m j, j := - 1)) L R"
proof (cases "m j = - 1")
  case True
  then have "m(i := m j, j := - 1) = m" using assms(4) by auto
  then show ?thesis using assms(1) by simp
next
  case False
  then have "i \<noteq> j" using assms(4) by auto
  have "m j \<notin> R" using assms(1,3) by (auto simp: owns_def)
  then have "R \<union> ({m j} - {- 1}) - {m j} = R" by auto
  moreover have "owns B F ((m(j := - 1))(i := m j)) L (R \<union> ({m j} - {- 1}) - {m j})"
    by (rule owns_take [OF owns_give [OF assms(1,3)] assms(2)]) (use False assms(4) in auto)
  ultimately show ?thesis using \<open>i \<noteq> j\<close> by (simp add: fun_upd_twist)
qed

lemma owns_open:
  "owns B F m L R \<Longrightarrow> i \<in> L \<Longrightarrow> m i = - 1 \<Longrightarrow> fd \<notin> F \<Longrightarrow> fd \<noteq> - 1 \<Longrightarrow> owns B (insert fd F) (m(i := fd)) L R"
  unfolding owns_def by auto

lemma owns_drop: "owns B F m L R \<Longrightarrow> m i = - 1 \<Longrightarrow> owns B F m (L - {i}) R"
  unfolding owns_def by auto

lemma owns_raw: "owns B F m L R \<Longrightarrow> h \<in> R \<Longrightarrow> owns B (F - {h}) m L (R - {h})"
  unfolding owns_def by auto

lemmas owns_rules = owns_closed owns_make owns_move owns_take owns_give owns_open owns_drop owns_raw

text \<open>The handle of every object, and the invariant of a state.\<close>

abbreviation handle_of :: "(nat \<Rightarrow> unique_file_handle) \<Rightarrow> nat \<Rightarrow> int" where
  "handle_of m \<equiv> (\<lambda>i. native_handle (uh (m i)))"

definition uh_inv :: "('w \<Rightarrow> int set) \<Rightarrow> int set \<Rightarrow> 'w uh_state \<Rightarrow> bool" where
  "uh_inv fds B s = owns B (fds (world s)) (handle_of (objs s)) (live s) (raw s)"

lemma handle_of_upd:
  "handle_of (m(i := u)) = (handle_of m)(i := native_handle (uh u))"
  by auto

lemma fd_kernel_rules:
  assumes "fd_kernel K fds"
  shows "- 1 \<notin> fds w"
    and "k_open K w path flags mode = (w', Inl e) \<Longrightarrow> fds w' = fds w"
    and "k_open K w path flags mode = (w', Inr fd) \<Longrightarrow> fd \<notin> fds w \<and> fds w' = insert fd (fds w)"
    and "k_dup K w h = (w', Inl e) \<Longrightarrow> fds w' = fds w"
    and "k_dup K w h = (w', Inr fd) \<Longrightarrow> fd \<notin> fds w \<and> fds w' = insert fd (fds w)"
    and "fd \<in> fds w \<Longrightarrow> fds (fst (k_close K w fd)) = fds w - {fd}"
    and "fds (fst (k_fchflags K w fd a)) = fds w"
proof -
  note law = assms [unfolded fd_kernel_def]
  note law_open = law [THEN conjunct2, THEN conjunct1, rule_format, of w path flags mode]
  note law_dup = law [THEN conjunct2, THEN conjunct2, THEN conjunct1, rule_format, of w h]
  show "- 1 \<notin> fds w" by (rule law [THEN conjunct1, THEN spec])
  show "fds w' = fds w" if "k_open K w path flags mode = (w', Inl e)"
    using law_open that by simp
  show "fd \<notin> fds w \<and> fds w' = insert fd (fds w)" if "k_open K w path flags mode = (w', Inr fd)"
    using law_open that by simp
  show "fds w' = fds w" if "k_dup K w h = (w', Inl e)"
    using law_dup that by simp
  show "fd \<notin> fds w \<and> fds w' = insert fd (fds w)" if "k_dup K w h = (w', Inr fd)"
    using law_dup that by simp
  show "fds (fst (k_close K w fd)) = fds w - {fd}" if "fd \<in> fds w"
    using law that by blast
  show "fds (fst (k_fchflags K w fd a)) = fds w"
    using law by blast
qed

text \<open>Opening gives -1 with the descriptors as they were, or a new descriptor.\<close>

lemma answers_open:
  assumes K: "fd_kernel K fds" and "answers P (\<lambda>w. k_open K w path flags mode) w w' r"
  shows "(case r of Inl e \<Rightarrow> fds w' = fds w | Inr fd \<Rightarrow> fd \<notin> fds w \<and> fds w' = insert fd (fds w))"
  using assms(2)
proof (induction rule: answers.induct)
  case (now w w' r)
  then show ?case using fd_kernel_rules(2,3) [OF K] by (auto split: sum.split)
next
  case (again w w1 w' r)
  then show ?case using fd_kernel_rules(2) [OF K again.hyps(1)] by (auto split: sum.splits)
qed

lemma posix_open_fds:
  assumes K: "fd_kernel K fds" and "posix_open P K path args w = Some (w', ec, h)"
  shows "h = - 1 \<and> fds w' = fds w \<or> h \<noteq> - 1 \<and> h \<notin> fds w \<and> fds w' = insert h (fds w)"
proof -
  let ?call = "\<lambda>w. k_open K w path (O_CLOEXEC P OR native_flags args) (oa_mode args)"
  obtain w1 r where r: "retry P ?call w = Some (w1, r)"
    using assms(2) by (auto simp: posix_open_def split: option.splits)
  then have a: "answers P ?call w w1 r" by (simp add: retry_iff)
  show ?thesis
  proof (cases r)
    case (Inl e)
    then show ?thesis using r assms(2) answers_open [OF K a] by (simp add: posix_open_def)
  next
    case (Inr fd)
    then have fd: "fd \<notin> fds w" "fds w1 = insert fd (fds w)" using answers_open [OF K a] by simp_all
    then have "fd \<noteq> - 1" using fd_kernel_rules(1) [OF K, of w1] by auto
    obtain w2 q where q: "k_fchflags K w1 fd (oa_attrs args) = (w2, q)" by fastforce
    have w2: "fds w2 = fds w1" using fd_kernel_rules(7) [OF K, of w1 fd "oa_attrs args"] q by simp
    then have "fds (fst (k_close K w2 fd)) = fds w"
      using fd_kernel_rules(6) [OF K, of fd w2] fd by auto
    then show ?thesis
      using r Inr q w2 fd \<open>fd \<noteq> - 1\<close> assms(2)
      by (auto simp: posix_open_def split: if_splits sum.splits)
  qed
qed

lemma posix_duplicate_fds:
  assumes K: "fd_kernel K fds" and "posix_duplicate K h w = (w', ec, n)"
  shows "n = - 1 \<and> fds w' = fds w \<or> n \<noteq> - 1 \<and> n \<notin> fds w \<and> fds w' = insert n (fds w)"
  using assms(2) fd_kernel_rules(1,4,5) [OF K]
  by (fastforce simp: posix_duplicate_def split: prod.splits sum.splits)

lemma fh_close_fds:
  assumes K: "fd_kernel K fds" and "fh_close K h w = (h', w', ec)"
    and "native_handle h \<in> fds w \<or> native_handle h = - 1"
  shows "native_handle h' = - 1" and "fds w' = fds w - {native_handle h}"
proof -
  obtain w1 r where c: "k_close K w (native_handle h) = (w1, r)" by fastforce
  have "native_handle h' = - 1 \<and> fds w' = fds w - {native_handle h}"
  proof (cases "native_handle h = - 1")
    case True
    then show ?thesis using assms(2) fd_kernel_rules(1) [OF K, of w] by (auto simp: fh_close_def)
  next
    case False
    then have "fds w1 = fds w - {native_handle h}"
      using assms(3) fd_kernel_rules(6) [OF K, of "native_handle h" w] c by simp
    moreover have "native_handle h' = - 1 \<and> w' = w1"
      using assms(2) False c by (auto simp: fh_close_def posix_close_def)
    ultimately show ?thesis by blast
  qed
  then show "native_handle h' = - 1" and "fds w' = fds w - {native_handle h}" by simp_all
qed

lemma ufh_close_fds:
  assumes K: "fd_kernel K fds" and "ufh_close K u w = (u', w', ec)"
    and "native_handle (uh u) \<in> fds w \<or> native_handle (uh u) = - 1"
  shows "native_handle (uh u') = - 1" and "fds w' = fds w - {native_handle (uh u)}"
proof -
  obtain h where h: "fh_close K (uh u) w = (h, w', ec)" and u': "u' = u\<lparr>uh := h\<rparr>"
    using assms(2) by (auto simp: ufh_close_def split: prod.splits)
  show "native_handle (uh u') = - 1" and "fds w' = fds w - {native_handle (uh u)}"
    using fh_close_fds [OF K h assms(3)] u' by simp_all
qed

lemma owns_handle:
  "owns B F m L R \<Longrightarrow> i \<in> L \<Longrightarrow> m i \<in> F \<or> m i = - 1"
  by (auto simp: owns_def)

lemma owns_new:
  assumes "owns B F m L R" and "i \<notin> L"
    and "h = - 1 \<and> F' = F \<or> h \<noteq> - 1 \<and> h \<notin> F \<and> F' = insert h F"
  shows "owns B F' (m(i := h)) (insert i L) R"
proof -
  have made: "owns B F (m(i := - 1)) (insert i L) R" by (rule owns_make [OF assms(1,2)])
  show ?thesis
  proof (cases "h = - 1")
    case True
    then show ?thesis using made assms(3) by simp
  next
    case False
    then show ?thesis using owns_open [OF made, of i h] assms(3) by simp
  qed
qed

text \<open>The assignment, whatever the close reports, and for one object on both sides.\<close>

lemma move_assign_owns:
  assumes K: "fd_kernel K fds" and "ufh_move_assign K i j m w = (m', w', r)"
    and "owns B (fds w) (handle_of m) L R" and "i \<in> L" and "j \<in> L"
  shows "owns B (fds w') (handle_of m') L R"
proof -
  define c where "c = (if fh_is_open (uh (m i)) then fh_close_throwing K (uh (m i)) w
                       else (uh (m i), w, Inr ()))"
  obtain h w1 q where c': "c = (h, w1, q)" by (cases c)
  let ?m1 = "m(i := (m i)\<lparr>uh := h\<rparr>)"
  have h: "native_handle h = - 1 \<and> fds w1 = fds w - {native_handle (uh (m i))}"
  proof (cases "fh_is_open (uh (m i))")
    case True
    then obtain ec where "fh_close K (uh (m i)) w = (h, w1, ec)"
      using c' by (auto simp: c_def fh_close_throwing_def throwing_unit_def split: prod.splits)
    from fh_close_fds [OF K this] owns_handle [OF assms(3,4)] show ?thesis by simp
  next
    case False
    then have "native_handle (uh (m i)) = - 1" by (simp add: fh_is_open_def)
    moreover have "- 1 \<notin> fds w" by (rule fd_kernel_rules(1) [OF K])
    ultimately show ?thesis using c' False by (simp add: c_def)
  qed
  then have h1: "native_handle h = - 1" and h2: "fds w1 = fds w - {native_handle (uh (m i))}"
    by blast+
  have m1: "handle_of ?m1 = (handle_of m)(i := - 1)" using h1 by (simp add: fun_eq_iff)
  have closed: "owns B (fds w1) (handle_of ?m1) L R"
    unfolding m1 h2 by (rule owns_closed [OF assms(3,4)])
  have none: "handle_of ?m1 i = - 1" using h1 by simp
  show ?thesis
  proof (cases q)
    case (Inl e)
    then have "m' = ?m1" and "w' = w1"
      using assms(2) c' unfolding c_def by (simp_all add: ufh_move_assign_def Let_def)
    then show ?thesis using closed by simp
  next
    case (Inr x)
    let ?m2 = "?m1(i := (?m1 i)\<lparr>uh := uh (?m1 j)\<rparr>)"
    have "w' = w1" and m': "m' = ?m2(j := (?m2 j)\<lparr>uh := fh_clear (uh (?m2 j))\<rparr>)"
      using assms(2) c' Inr unfolding c_def by (simp_all add: ufh_move_assign_def Let_def)
    have "handle_of m' = (handle_of ?m1)(i := handle_of ?m1 j, j := - 1)"
      unfolding m' by (auto simp: fh_clear_def)
    then show ?thesis
      using owns_move [OF closed assms(4,5) none] \<open>w' = w1\<close> by simp
  qed
qed

lemma ufh_reset_owns:
  assumes K: "fd_kernel K fds" and "ufh_reset K (m i) (fh_new h) w = (u, w', ec)"
    and "owns B (fds w) (handle_of m) L R" and "i \<in> L" and "h \<in> R"
  shows "owns B (fds w') (handle_of (m(i := u))) L (if ec_failed ec then R else R - {h})"
proof -
  obtain v where v: "ufh_close K (m i) w = (v, w', ec)"
    and u: "u = (if \<not> ec_failed ec then v\<lparr>uh := fh_new h\<rparr> else v)"
    using assms(2) by (auto simp: ufh_reset_def split: prod.splits)
  note c = ufh_close_fds [OF K v owns_handle [OF assms(3,4)]]
  have closed: "owns B (fds w') ((handle_of m)(i := - 1)) L R"
    using owns_closed [OF assms(3,4)] c by simp
  show ?thesis
  proof (cases "ec_failed ec")
    case True
    then have eq: "handle_of (m(i := u)) = (handle_of m)(i := - 1)" using u c(1) by (simp add: fun_eq_iff)
    show ?thesis unfolding eq if_P [OF True] by (rule closed)
  next
    case False
    then have eq: "handle_of (m(i := u)) = (handle_of m)(i := - 1, i := h)"
      using u by (simp add: fun_eq_iff fh_new_def)
    show ?thesis
      unfolding eq if_not_P [OF False] by (rule owns_take [OF closed assms(4) _ assms(5)]) simp
  qed
qed

lemma move_new_owns:
  assumes "owns B F (handle_of m) L R" and "i \<notin> L" and "j \<in> L"
    and "ufh_move_new (m j) = (u, v)"
  shows "owns B F (handle_of (m(i := u, j := v))) (insert i L) R"
proof -
  have "j \<noteq> i" using assms(2,3) by blast
  then have eq: "handle_of (m(i := u, j := v)) =
      ((handle_of m)(i := - 1))(i := ((handle_of m)(i := - 1)) j, j := - 1)"
    using assms(4) by (auto simp: fun_eq_iff ufh_move_new_def fh_clear_def)
  show ?thesis
    using owns_move [OF owns_make [OF assms(1,2)], of i j] assms(3) unfolding eq by simp
qed

lemma destroy_owns:
  assumes K: "fd_kernel K fds" and own: "owns B (fds w) (handle_of m) L R" and i: "i \<in> L"
  shows "owns B (fds (ufh_destroy K (m i) w)) (handle_of m) (L - {i}) R"
proof -
  obtain u w1 ec where c: "ufh_close K (m i) w = (u, w1, ec)" by (metis prod_cases3)
  have "fds w1 = fds w - {handle_of m i}"
    by (rule ufh_close_fds(2) [OF K c owns_handle [OF own i]])
  then have "owns B (fds w1) ((handle_of m)(i := - 1)) (L - {i}) R"
    using owns_drop [OF owns_closed [OF own i], of i] by simp
  then have "owns B (fds w1) (handle_of m) (L - {i}) R"
    by (rule owns_cong [THEN iffD1, rotated]) simp
  then show ?thesis using c by (simp add: ufh_destroy_def)
qed

lemma uh_step_inv:
  assumes K: "fd_kernel K fds" and "uh_step P K s s'" and "uh_inv fds B s"
  shows "uh_inv fds B s'"
  using assms(2,3)
proof (induction rule: uh_step.induct)
  case (make i s)
  have "handle_of ((objs s)(i := ufh_default)) = (handle_of (objs s))(i := - 1)"
    by (auto simp: ufh_default_def fh_default_def)
  then show ?case using owns_make [OF _ make.hyps] make.prems by (simp add: uh_inv_def)
next
  case (adopt i s h)
  have "handle_of ((objs s)(i := ufh_of_native h)) = (handle_of (objs s))(i := - 1, i := h)"
    by (auto simp: ufh_of_native_def fh_new_def)
  then show ?case
    using owns_take [OF owns_make [OF _ adopt.hyps(1)], of _ _ _ _ i h] adopt by (simp add: uh_inv_def)
next
  case (open_new i s path args w ec u)
  obtain h where h: "posix_open P K path args (world s) = Some (w, ec, h)" and u: "u = ufh_of_native h"
    using open_new.hyps(2) by (auto simp: open_file_def split: option.splits)
  have "handle_of ((objs s)(i := u)) = (handle_of (objs s))(i := h)"
    by (auto simp: u ufh_of_native_def fh_new_def)
  then show ?case
    using owns_new [OF _ open_new.hyps(1) posix_open_fds [OF K h]] open_new.prems by (simp add: uh_inv_def)
next
  case (dup_new i s h w ec u)
  obtain n where n: "posix_duplicate K (native_handle h) (world s) = (w, ec, n)" and u: "u = ufh_of_native n"
    using dup_new.hyps(2) by (auto simp: duplicate_def split: prod.splits)
  have "handle_of ((objs s)(i := u)) = (handle_of (objs s))(i := n)"
    by (auto simp: u ufh_of_native_def fh_new_def)
  then show ?case
    using owns_new [OF _ dup_new.hyps(1) posix_duplicate_fds [OF K n]] dup_new.prems by (simp add: uh_inv_def)
next
  case (move_new i s j u v)
  then show ?case using move_new_owns [where m = "objs s", OF _ move_new.hyps] by (simp add: uh_inv_def)
next
  case (move_assign i s j m w r)
  then show ?case using move_assign_owns [OF K move_assign.hyps(3)] by (simp add: uh_inv_def)
next
  case (close_obj i s u w ec)
  have own: "owns B (fds (world s)) (handle_of (objs s)) (live s) (raw s)"
    using close_obj.prems by (simp add: uh_inv_def)
  note c = ufh_close_fds [OF K close_obj.hyps(2) owns_handle [OF own close_obj.hyps(1)]]
  have "handle_of ((objs s)(i := u)) = (handle_of (objs s))(i := - 1)" using c(1) by auto
  then show ?case using owns_closed [OF own close_obj.hyps(1)] c(2) by (simp add: uh_inv_def)
next
  case (release_obj i s u h)
  then have "handle_of ((objs s)(i := u)) = (handle_of (objs s))(i := - 1)"
    and "h = uh (objs s i)"
    by (auto simp: ufh_release_def fh_clear_def)
  then show ?case using owns_give [OF _ release_obj.hyps(1)] release_obj.prems by (simp add: uh_inv_def)
next
  case (reset_obj i s h u w ec)
  then show ?case using ufh_reset_owns [where m = "objs s" and i = i, OF K reset_obj.hyps(3)] by (simp add: uh_inv_def)
next
  case (destroy i s)
  then show ?case using destroy_owns [OF K] by (simp add: uh_inv_def)
next
  case (close_raw h s h' w ec)
  have own: "owns B (fds (world s)) (handle_of (objs s)) (live s) (raw s)"
    using close_raw.prems by (simp add: uh_inv_def)
  then have "h \<in> fds (world s)" using close_raw.hyps(1) by (auto simp: owns_def)
  then have "fds w = fds (world s) - {h}"
    using fh_close_fds(2) [OF K close_raw.hyps(2)] by (simp add: fh_new_def)
  then show ?case using owns_raw [OF own close_raw.hyps(1)] by (simp add: uh_inv_def)
qed

section \<open>Runs\<close>

inductive uh_run :: "platform \<Rightarrow> 'w kernel \<Rightarrow> 'w uh_state \<Rightarrow> 'w uh_state \<Rightarrow> bool" for P K where
  refl: "uh_run P K s s"
| step: "uh_run P K s s' \<Longrightarrow> uh_step P K s' s'' \<Longrightarrow> uh_run P K s s''"

lemma uh_run_inv:
  assumes "fd_kernel K fds" and "uh_run P K s s'" and "uh_inv fds B s"
  shows "uh_inv fds B s'"
  using assms(2,3) by (induction rule: uh_run.induct) (auto intro: uh_step_inv [OF assms(1)])

text \<open>
  C12. Whatever a program does with \<open>unique_file_handle\<close> objects -- open, duplicate, move (also to
  itself), assign, release, reset, close, destroy, in any order and with any error of the system --
  no descriptor is held by two of them or by an object and the user, none that is held has been
  closed, none is lost, and the descriptors of the rest of the program are not touched: when no
  object and no handle in the user's hands is left, exactly those are open.
\<close>

theorem unique_handles_own:
  assumes "fd_kernel K fds" and "uh_run P K s s'" and "live s = {}" and "raw s = {}"
  shows "(\<forall>i j. i \<in> live s' \<and> j \<in> live s' \<and> ufh_is_open (objs s' i) \<and> i \<noteq> j
            \<longrightarrow> native_handle (uh (objs s' i)) \<noteq> native_handle (uh (objs s' j)))
    \<and> (\<forall>i. i \<in> live s' \<and> ufh_is_open (objs s' i)
            \<longrightarrow> native_handle (uh (objs s' i)) \<in> fds (world s') - raw s' - fds (world s))
    \<and> fds (world s') = fds (world s) \<union> raw s'
         \<union> {native_handle (uh (objs s' i)) |i. i \<in> live s' \<and> ufh_is_open (objs s' i)}"
proof -
  have "- 1 \<notin> fds (world s)" by (rule fd_kernel_rules(1) [OF assms(1)])
  then have "uh_inv fds (fds (world s)) s" by (simp add: uh_inv_def owns_def assms(3,4))
  from uh_run_inv [OF assms(1,2) this] show ?thesis
    unfolding uh_inv_def owns_def ufh_is_open_def fh_is_open_def by (intro conjI; blast)
qed

text \<open>
  A system whose state is the list of its descriptors, for an example: every call that opens gives a
  number larger than all of them, every other call but \<^verbatim>\<open>close\<close> fails.
\<close>

definition new_fd :: "int list \<Rightarrow> int" where
  "new_fd xs = 1 + sum_list (map abs xs)"

definition list_kernel :: "int list kernel" where
  "list_kernel =
     \<lparr>k_open = (\<lambda>w _ _ _. (new_fd w # w, Inr (new_fd w))),
      k_close = (\<lambda>w fd. (removeAll fd w, Inr ())),
      k_dup = (\<lambda>w _. (new_fd w # w, Inr (new_fd w))),
      k_fstat = (\<lambda>w _. (w, Inl 9)), k_ftruncate = (\<lambda>w _ _. (w, Inl 9)),
      k_lseek = (\<lambda>w _ _ _. (w, Inl 9)), k_fchmod = (\<lambda>w _ _. (w, Inl 9)),
      k_fchflags = (\<lambda>w _ _. (w, Inl 9)), k_futimens = (\<lambda>w _ _. (w, Inl 9)),
      k_futimes = (\<lambda>w _ _. (w, Inl 9)), k_readv = (\<lambda>w _ _. (w, Inl 9)),
      k_writev = (\<lambda>w _ _. (w, Inl 9)), k_pread = (\<lambda>w _ _ _. (w, Inl 9)),
      k_pwrite = (\<lambda>w _ _ _. (w, Inl 9)), k_preadv = (\<lambda>w _ _ _. (w, Inl 9)),
      k_pwritev = (\<lambda>w _ _ _. (w, Inl 9))\<rparr>"

definition list_fds :: "int list \<Rightarrow> int set" where
  "list_fds xs = {x \<in> set xs. 0 \<le> x}"

lemma new_fd_fresh: "x \<in> set xs \<Longrightarrow> x < new_fd xs" "0 \<le> new_fd xs"
proof -
  have nonneg: "0 \<le> sum_list (map abs (ys :: int list))" for ys
    by (induction ys) auto
  show "0 \<le> new_fd xs" using nonneg [of xs] by (simp add: new_fd_def)
  show "x < new_fd xs" if "x \<in> set xs"
    using that
  proof (induction xs)
    case (Cons y ys)
    then show ?case using nonneg [of ys] by (auto simp: new_fd_def)
  qed simp
qed

lemma list_kernel_ok: "fd_kernel list_kernel list_fds"
proof -
  have "new_fd w \<notin> list_fds w" and "list_fds (new_fd w # w) = insert (new_fd w) (list_fds w)" for w
    using new_fd_fresh(1) [of _ w] new_fd_fresh(2) [of w] by (auto simp: list_fds_def)
  moreover have "list_fds (removeAll fd w) = list_fds w - {fd}" for w fd
    by (auto simp: list_fds_def)
  ultimately show ?thesis
    by (simp add: fd_kernel_def list_kernel_def) (simp add: list_fds_def)
qed

theorem unique_handles_own_witness:
  "\<exists>s' :: int list uh_state.
     uh_run linux list_kernel \<lparr>objs = \<lambda>_. ufh_default, live = {}, raw = {}, world = [0]\<rparr> s'
     \<and> live s' = {1} \<and> list_fds (world s') = {0, 1}
     \<and> native_handle (uh (objs s' 1)) \<in> list_fds (world s') - {0}"
proof -
  let ?st = "\<lparr>objs = \<lambda>_. ufh_default, live = {}, raw = {}, world = [0]\<rparr> :: int list uh_state"
  have "new_fd [0] = 1" by (simp add: new_fd_def)
  then have call: "retry linux (\<lambda>w. k_open list_kernel w ''a'' (O_CLOEXEC linux OR native_flags open_args_default)
      (oa_mode open_args_default)) [0] = Some ([1, 0], Inr 1)"
    by (subst retry.simps) (simp add: list_kernel_def)
  then have "open_file linux list_kernel ''a'' open_args_default (world ?st) = Some ([1, 0], no_error, ufh_of_native 1)"
    by (simp add: open_file_def posix_open_def linux_def)
  from uh_step.open_new [where i = 1, OF _ this]
  have "uh_step linux list_kernel ?st
      (?st\<lparr>objs := (objs ?st)(1 := ufh_of_native 1), live := {1}, world := [1, 0]\<rparr>)" by simp
  then have run: "uh_run linux list_kernel ?st
      (?st\<lparr>objs := (objs ?st)(1 := ufh_of_native 1), live := {1}, world := [1, 0]\<rparr>)"
    using uh_run.step uh_run.refl by blast
  have "list_fds [1, 0] = {0, 1}" by (auto simp: list_fds_def)
  then show ?thesis
    using unique_handles_own [OF list_kernel_ok run] run
    by (intro exI [of _ "?st\<lparr>objs := (objs ?st)(1 := ufh_of_native 1), live := {1}, world := [1, 0]\<rparr>"])
      (auto simp: ufh_is_open_def fh_is_open_def ufh_of_native_def fh_new_def)
qed

end
