(* ===== verification/CancelTokens.thy ===== *)
theory CancelTokens
  imports Prelude
begin

text \<open>
  \<^verbatim>\<open>cancellation_token_source\<close> and \<^verbatim>\<open>cancellation_token\<close> (\<^verbatim>\<open>cancellation_token.hpp\<close>,
  \<^verbatim>\<open>impl/cancellation_token.cpp\<close>). A source is a \<^verbatim>\<open>shared_ptr\<close> that owns nothing but a
  control block: the address is null in all its states. A token is a \<^verbatim>\<open>weak_ptr\<close> to the block.
\<close>

section \<open>Shared pointers\<close>

text \<open>A shared pointer has a control block, or none, and an address; 0 is the null address.\<close>

record shared_ptr =
  sp_block :: "nat option"
  sp_addr :: nat

text \<open>The control blocks: how many shared pointers use each, and the next one to be made.\<close>

record blocks =
  uses :: "nat \<Rightarrow> nat"
  fresh :: nat

definition sp_empty :: shared_ptr where
  "sp_empty = \<lparr>sp_block = None, sp_addr = 0\<rparr>"

text \<open>\<^verbatim>\<open>shared_ptr(static_cast<void*>(0), null_deleter())\<close>\<close>

definition sp_make :: "blocks \<Rightarrow> shared_ptr \<times> blocks" where
  "sp_make B =
     (\<lparr>sp_block = Some (fresh B), sp_addr = 0\<rparr>,
      B\<lparr>uses := (uses B)(fresh B := 1), fresh := Suc (fresh B)\<rparr>)"

definition sp_drop :: "shared_ptr \<Rightarrow> blocks \<Rightarrow> blocks" where
  "sp_drop p B =
     (case sp_block p of None \<Rightarrow> B | Some b \<Rightarrow> B\<lparr>uses := (uses B)(b := uses B b - 1)\<rparr>)"

section \<open>Sources and tokens\<close>

record token_source =
  ts_ptr :: shared_ptr

record cancellation_token =
  ct_block :: "nat option"

definition ts_new :: "blocks \<Rightarrow> token_source \<times> blocks" where
  "ts_new B = (case sp_make B of (p, B) \<Rightarrow> (\<lparr>ts_ptr = p\<rparr>, B))"

text \<open>The new source and what is left of the other.\<close>

definition ts_move_new :: "token_source \<Rightarrow> token_source \<times> token_source" where
  "ts_move_new other = (\<lparr>ts_ptr = ts_ptr other\<rparr>, other\<lparr>ts_ptr := sp_empty\<rparr>)"

text \<open>
  The assignment on the sources \<open>m\<close>: the pointer of the other is moved to a temporary object, which
  is swapped with the target and destroyed.
\<close>

definition ts_move_assign ::
    "nat \<Rightarrow> nat \<Rightarrow> (nat \<Rightarrow> token_source) \<Rightarrow> blocks \<Rightarrow> (nat \<Rightarrow> token_source) \<times> blocks" where
  "ts_move_assign i j m B =
     (let temp = ts_ptr (m j);
          m = m(j := (m j)\<lparr>ts_ptr := sp_empty\<rparr>);
          old = ts_ptr (m i);
          m = m(i := (m i)\<lparr>ts_ptr := temp\<rparr>) in
      (m, sp_drop old B))"

definition ts_cancel :: "token_source \<Rightarrow> blocks \<Rightarrow> token_source \<times> blocks" where
  "ts_cancel s B = (case sp_make B of (p, B) \<Rightarrow> (s\<lparr>ts_ptr := p\<rparr>, sp_drop (ts_ptr s) B))"

definition ts_destroy :: "token_source \<Rightarrow> blocks \<Rightarrow> token_source \<times> blocks" where
  "ts_destroy s B = (s\<lparr>ts_ptr := sp_empty\<rparr>, sp_drop (ts_ptr s) B)"

text \<open>\<^verbatim>\<open>!ptr_\<close> looks at the address.\<close>

definition ts_reset :: "token_source \<Rightarrow> blocks \<Rightarrow> token_source \<times> blocks" where
  "ts_reset s B =
     (if sp_addr (ts_ptr s) = 0
      then (case sp_make B of (p, B) \<Rightarrow> (s\<lparr>ts_ptr := p\<rparr>, sp_drop (ts_ptr s) B))
      else (s, B))"

definition ct_new :: "token_source \<Rightarrow> cancellation_token" where
  "ct_new s = \<lparr>ct_block = sp_block (ts_ptr s)\<rparr>"

definition ct_cancelled :: "cancellation_token \<Rightarrow> blocks \<Rightarrow> bool" where
  "ct_cancelled t B = (case ct_block t of None \<Rightarrow> True | Some b \<Rightarrow> uses B b = 0)"

section \<open>A program with several sources and tokens\<close>

datatype token_op =
    Op_new nat
  | Op_move_new nat nat
  | Op_move_assign nat nat
  | Op_cancel nat
  | Op_destroy nat
  | Op_reset nat
  | Op_delete nat
  | Op_token nat nat

record token_sys =
  srcs :: "nat \<Rightarrow> token_source"
  alive :: "nat set"
  toks :: "nat \<Rightarrow> cancellation_token"
  blks :: blocks

text \<open>What the operations do; one on an object that does not exist does nothing.\<close>

fun token_step :: "token_op \<Rightarrow> token_sys \<Rightarrow> token_sys" where
  "token_step (Op_new i) S =
     (if i \<in> alive S then S
      else (case ts_new (blks S) of
              (s, B) \<Rightarrow> S\<lparr>srcs := (srcs S)(i := s), alive := insert i (alive S), blks := B\<rparr>))"
| "token_step (Op_move_new i j) S =
     (if i \<in> alive S \<or> j \<notin> alive S then S
      else (case ts_move_new (srcs S j) of
              (s, t) \<Rightarrow> S\<lparr>srcs := (srcs S)(i := s, j := t), alive := insert i (alive S)\<rparr>))"
| "token_step (Op_move_assign i j) S =
     (if i \<notin> alive S \<or> j \<notin> alive S then S
      else (case ts_move_assign i j (srcs S) (blks S) of (m, B) \<Rightarrow> S\<lparr>srcs := m, blks := B\<rparr>))"
| "token_step (Op_cancel i) S =
     (if i \<notin> alive S then S
      else (case ts_cancel (srcs S i) (blks S) of (s, B) \<Rightarrow> S\<lparr>srcs := (srcs S)(i := s), blks := B\<rparr>))"
| "token_step (Op_destroy i) S =
     (if i \<notin> alive S then S
      else (case ts_destroy (srcs S i) (blks S) of (s, B) \<Rightarrow> S\<lparr>srcs := (srcs S)(i := s), blks := B\<rparr>))"
| "token_step (Op_reset i) S =
     (if i \<notin> alive S then S
      else (case ts_reset (srcs S i) (blks S) of (s, B) \<Rightarrow> S\<lparr>srcs := (srcs S)(i := s), blks := B\<rparr>))"
| "token_step (Op_delete i) S =
     (if i \<notin> alive S then S
      else S\<lparr>alive := alive S - {i}, blks := sp_drop (ts_ptr (srcs S i)) (blks S)\<rparr>)"
| "token_step (Op_token t i) S =
     (if i \<notin> alive S then S else S\<lparr>toks := (toks S)(t := ct_new (srcs S i))\<rparr>)"

definition token_start :: token_sys where
  "token_start =
     \<lparr>srcs = \<lambda>_. \<lparr>ts_ptr = sp_empty\<rparr>, alive = {}, toks = \<lambda>_. \<lparr>ct_block = None\<rparr>,
      blks = \<lparr>uses = \<lambda>_. 0, fresh = 0\<rparr>\<rparr>"

section \<open>What they are meant to do\<close>

text \<open>
  The sources that issue tokens, and for every token that is not cancelled the source that can still
  cancel it. Moving a source takes its tokens along.
\<close>

record token_spec =
  exists :: "nat set"
  issuing :: "nat set"
  owner :: "nat \<Rightarrow> nat option"

definition cancel_all :: "nat \<Rightarrow> token_spec \<Rightarrow> token_spec" where
  "cancel_all i A = A\<lparr>owner := (\<lambda>t. if owner A t = Some i then None else owner A t)\<rparr>"

definition hand_over :: "nat \<Rightarrow> nat \<Rightarrow> token_spec \<Rightarrow> token_spec" where
  "hand_over j i A =
     A\<lparr>owner := (\<lambda>t. if owner A t = Some j then Some i else owner A t),
       issuing := (if j \<in> issuing A then insert i (issuing A) else issuing A - {i}) - {j}\<rparr>"

fun spec_step :: "token_op \<Rightarrow> token_spec \<Rightarrow> token_spec" where
  "spec_step (Op_new i) A =
     (if i \<in> exists A then A
      else A\<lparr>exists := insert i (exists A), issuing := insert i (issuing A)\<rparr>)"
| "spec_step (Op_move_new i j) A =
     (if i \<in> exists A \<or> j \<notin> exists A then A
      else (hand_over j i A)\<lparr>exists := insert i (exists A)\<rparr>)"
| "spec_step (Op_move_assign i j) A =
     (if i \<notin> exists A \<or> j \<notin> exists A \<or> i = j then A else hand_over j i (cancel_all i A))"
| "spec_step (Op_cancel i) A =
     (if i \<notin> exists A then A else (cancel_all i A)\<lparr>issuing := insert i (issuing A)\<rparr>)"
| "spec_step (Op_destroy i) A =
     (if i \<notin> exists A then A else (cancel_all i A)\<lparr>issuing := issuing A - {i}\<rparr>)"
| "spec_step (Op_reset i) A =
     (if i \<notin> exists A then A else (cancel_all i A)\<lparr>issuing := insert i (issuing A)\<rparr>)"
| "spec_step (Op_delete i) A =
     (if i \<notin> exists A then A
      else (cancel_all i A)\<lparr>exists := exists A - {i}, issuing := issuing A - {i}\<rparr>)"
| "spec_step (Op_token t i) A =
     (if i \<notin> exists A then A
      else A\<lparr>owner := (owner A)(t := if i \<in> issuing A then Some i else None)\<rparr>)"

definition spec_start :: token_spec where
  "spec_start = \<lparr>exists = {}, issuing = {}, owner = \<lambda>_. None\<rparr>"

section \<open>They do it\<close>

text \<open>
  How blocks, sources and tokens hang together: \<open>bl\<close> gives the block of every source that exists,
  \<open>u\<close> the uses, \<open>f\<close> the next block, \<open>tk\<close> the block of every token; \<open>iss\<close> and \<open>own\<close> are the
  specification's.
\<close>

definition linked ::
    "(nat \<rightharpoonup> nat) \<Rightarrow> (nat \<Rightarrow> nat) \<Rightarrow> nat \<Rightarrow> (nat \<Rightarrow> nat option) \<Rightarrow> nat set \<Rightarrow> (nat \<Rightarrow> nat option)
      \<Rightarrow> bool" where
  "linked bl u f tk iss own \<longleftrightarrow>
     (\<forall>i j b. bl i = Some b \<longrightarrow> bl j = Some b \<longrightarrow> i = j) \<and>
     (\<forall>i b. bl i = Some b \<longrightarrow> b < f) \<and>
     (\<forall>t b. tk t = Some b \<longrightarrow> b < f) \<and>
     (\<forall>b. u b = (if \<exists>i. bl i = Some b then 1 else 0)) \<and>
     iss = dom bl \<and>
     (\<forall>t i. own t = Some i \<longleftrightarrow> (\<exists>b. tk t = Some b \<and> bl i = Some b))"

definition drop_use :: "nat option \<Rightarrow> (nat \<Rightarrow> nat) \<Rightarrow> nat \<Rightarrow> nat" where
  "drop_use b u = (case b of None \<Rightarrow> u | Some b \<Rightarrow> u(b := u b - 1))"

definition drop_owner :: "nat \<Rightarrow> (nat \<Rightarrow> nat option) \<Rightarrow> nat \<Rightarrow> nat option" where
  "drop_owner i own = (\<lambda>t. if own t = Some i then None else own t)"

lemma linkedD:
  assumes "linked bl u f tk iss own"
  shows "bl i = Some b \<Longrightarrow> bl j = Some b \<Longrightarrow> i = j"
    and "bl i = Some b \<Longrightarrow> b < f"
    and "tk t = Some b \<Longrightarrow> b < f"
    and "u b = (if \<exists>i. bl i = Some b then 1 else 0)"
    and "iss = dom bl"
    and "own t = Some i \<longleftrightarrow> (\<exists>b. tk t = Some b \<and> bl i = Some b)"
  using assms unfolding linked_def by blast+

lemma linkedI:
  assumes "\<And>i j b. bl i = Some b \<Longrightarrow> bl j = Some b \<Longrightarrow> i = j"
    and "\<And>i b. bl i = Some b \<Longrightarrow> b < f"
    and "\<And>t b. tk t = Some b \<Longrightarrow> b < f"
    and "\<And>b. u b = (if \<exists>i. bl i = Some b then 1 else 0)"
    and "iss = dom bl"
    and "\<And>t i. own t = Some i \<longleftrightarrow> (\<exists>b. tk t = Some b \<and> bl i = Some b)"
  shows "linked bl u f tk iss own"
  using assms unfolding linked_def by blast

lemma linked_drop:
  assumes l: "linked bl u f tk iss own"
  shows "linked (bl(i := None)) (drop_use (bl i) u) f tk (iss - {i}) (drop_owner i own)"
proof (rule linkedI)
  have "(\<exists>j. (bl(i := None)) j = Some b) \<longleftrightarrow> bl i \<noteq> Some b \<and> (\<exists>j. bl j = Some b)" for b
    using linkedD(1) [OF l] by (metis fun_upd_apply option.distinct(1))
  then show "drop_use (bl i) u b = (if \<exists>j. (bl(i := None)) j = Some b then 1 else 0)" for b
    using linkedD(4) [OF l, of b] by (simp add: drop_use_def split: option.split)
  show "drop_owner i own t = Some j \<longleftrightarrow> (\<exists>b. tk t = Some b \<and> (bl(i := None)) j = Some b)" for t j
    using linkedD(6) [OF l, of t i] linkedD(6) [OF l, of t j] linkedD(1) [OF l, of i _ j]
    by (cases "own t = Some i") (auto simp: drop_owner_def)
  show "j = j'" if "(bl(i := None)) j = Some b" "(bl(i := None)) j' = Some b" for j j' b
    using that linkedD(1) [OF l, of j b j'] by (simp split: if_splits)
  show "b < f" if "(bl(i := None)) j = Some b" for j b
    using that linkedD(2) [OF l, of j b] by (simp split: if_splits)
  show "b < f" if "tk t = Some b" for t b
    using that by (rule linkedD(3) [OF l])
  show "iss - {i} = dom (bl(i := None))"
    by (simp add: linkedD(5) [OF l])
qed

lemma linked_fresh:
  assumes l: "linked bl u f tk iss own" and i: "bl i = None"
  shows "linked (bl(i := Some f)) (u(f := 1)) (Suc f) tk (insert i iss) own"
proof (rule linkedI)
  have new: "bl j \<noteq> Some f" "tk t \<noteq> Some f" for j t
    using linkedD(2,3) [OF l] by auto
  have "(\<exists>j. (bl(i := Some f)) j = Some b) \<longleftrightarrow> b = f \<or> (\<exists>j. bl j = Some b)" for b
    using i by (auto, metis option.distinct(1))
  then show "(u(f := 1)) b = (if \<exists>j. (bl(i := Some f)) j = Some b then 1 else 0)" for b
    using linkedD(4) [OF l, of b] by simp
  show "own t = Some j \<longleftrightarrow> (\<exists>b. tk t = Some b \<and> (bl(i := Some f)) j = Some b)" for t j
    using linkedD(6) [OF l] new i by auto
  show "j = j'" if "(bl(i := Some f)) j = Some b" "(bl(i := Some f)) j' = Some b" for j j' b
    using that linkedD(1) [OF l, of j b j'] new by (simp split: if_splits)
  show "b < Suc f" if "(bl(i := Some f)) j = Some b" for j b
    using that linkedD(2) [OF l] by (auto split: if_splits simp: less_SucI)
  show "b < Suc f" if "tk t = Some b" for t b
    using linkedD(3) [OF l that] by simp
  show "insert i iss = dom (bl(i := Some f))"
    by (simp add: linkedD(5) [OF l])
qed

lemma linked_move:
  assumes l: "linked bl u f tk iss own" and i: "bl i = None" and ij: "i \<noteq> j"
  shows "linked (bl(i := bl j, j := None)) u f tk
           ((if j \<in> iss then insert i iss else iss - {i}) - {j})
           (\<lambda>t. if own t = Some j then Some i else own t)"
    (is "linked ?bl _ _ _ _ _")
proof (rule linkedI)
  have moved: "?bl k = Some b \<longleftrightarrow> (k = i \<and> bl j = Some b) \<or> (k \<noteq> j \<and> bl k = Some b)" for k b
    using i ij by auto
  have "(\<exists>k. ?bl k = Some b) \<longleftrightarrow> (\<exists>k. bl k = Some b)" for b
    unfolding moved by metis
  then show "u b = (if \<exists>k. ?bl k = Some b then 1 else 0)" for b
    using linkedD(4) [OF l, of b] by simp
  show "(if own t = Some j then Some i else own t) = Some k \<longleftrightarrow>
      (\<exists>b. tk t = Some b \<and> ?bl k = Some b)" for t k
    unfolding moved using linkedD(6) [OF l, of t j] linkedD(6) [OF l, of t k]
      linkedD(1) [OF l, of j _ k] i ij
    by (cases "own t = Some j"; cases "tk t"; cases "k = i"; cases "k = j") auto
  show "k = k'" if "?bl k = Some b" "?bl k' = Some b" for k k' b
    using that unfolding moved using linkedD(1) [OF l] by blast
  show "b < f" if "?bl k = Some b" for k b
    using that unfolding moved using linkedD(2) [OF l] by blast
  show "b < f" if "tk t = Some b" for t b
    using that by (rule linkedD(3) [OF l])
  show "((if j \<in> iss then insert i iss else iss - {i}) - {j}) = dom ?bl"
    using i ij by (auto simp: linkedD(5) [OF l])
qed

lemma linked_token:
  assumes "linked bl u f tk iss own"
  shows "linked bl u f (tk(t := bl i)) iss (own(t := if i \<in> iss then Some i else None))"
  using assms by (auto simp: linked_def)

text \<open>The system and the specification are in step.\<close>

definition block_of :: "token_sys \<Rightarrow> nat \<rightharpoonup> nat" where
  "block_of S = (\<lambda>i. if i \<in> alive S then sp_block (ts_ptr (srcs S i)) else None)"

definition tokens_in_step :: "token_sys \<Rightarrow> token_spec \<Rightarrow> bool" where
  "tokens_in_step S A \<longleftrightarrow>
     alive S = exists A \<and>
     (\<forall>i \<in> alive S. sp_addr (ts_ptr (srcs S i)) = 0) \<and>
     linked (block_of S) (uses (blks S)) (fresh (blks S)) (\<lambda>t. ct_block (toks S t)) (issuing A) (owner A)"

lemma sp_drop_uses:
  "uses (sp_drop p B) = drop_use (sp_block p) (uses B)"
  "fresh (sp_drop p B) = fresh B"
  by (simp_all add: sp_drop_def drop_use_def split: option.splits)

lemma cancel_all_simps [simp]:
  "owner (cancel_all i A) = drop_owner i (owner A)"
  "exists (cancel_all i A) = exists A" "issuing (cancel_all i A) = issuing A"
  by (simp_all add: cancel_all_def drop_owner_def fun_eq_iff)

lemma hand_over_simps [simp]:
  "owner (hand_over j i A) = (\<lambda>t. if owner A t = Some j then Some i else owner A t)"
  "exists (hand_over j i A) = exists A"
  "issuing (hand_over j i A) = (if j \<in> issuing A then insert i (issuing A) else issuing A - {i}) - {j}"
  by (simp_all add: hand_over_def)

lemma linked_renew:
  assumes l: "linked bl u f tk iss own"
  shows "linked (bl(i := Some f)) (drop_use (bl i) (u(f := 1))) (Suc f) tk (insert i iss)
           (drop_owner i own)"
proof -
  have "linked ((bl(i := None))(i := Some f)) ((drop_use (bl i) u)(f := 1)) (Suc f) tk
          (insert i (iss - {i})) (drop_owner i own)"
    by (rule linked_fresh [OF linked_drop [OF l]]) simp
  moreover have "(drop_use (bl i) u)(f := 1) = drop_use (bl i) (u(f := 1))"
    using linkedD(2) [OF l, of i] by (auto simp: drop_use_def fun_eq_iff split: option.split)
  ultimately show ?thesis by simp
qed

lemma linked_not_owned:
  assumes "linked bl u f tk iss own" and "bl i = None"
  shows "drop_owner i own = own"
  using linkedD(6) [OF assms(1)] assms(2) by (auto simp: drop_owner_def fun_eq_iff)

lemma block_of_set:
  "i \<in> alive S \<Longrightarrow> block_of (S\<lparr>srcs := (srcs S)(i := s)\<rparr>) = (block_of S)(i := sp_block (ts_ptr s))"
  "block_of (S\<lparr>blks := B\<rparr>) = block_of S"
  "block_of (S\<lparr>toks := tk\<rparr>) = block_of S"
  "X = alive S - {i} \<Longrightarrow> block_of (S\<lparr>alive := X\<rparr>) = (block_of S)(i := None)"
  "X = insert i (alive S) \<Longrightarrow> block_of (S\<lparr>srcs := (srcs S)(i := s), alive := X\<rparr>) =
     (block_of S)(i := sp_block (ts_ptr s))"
  by (auto simp: block_of_def fun_eq_iff)

lemma in_step_renew:
  assumes "tokens_in_step S A" and "i \<in> alive S"
  shows "tokens_in_step
           (S\<lparr>srcs := (srcs S)(i := s\<lparr>ts_ptr := fst (sp_make (blks S))\<rparr>),
              blks := sp_drop (ts_ptr (srcs S i)) (snd (sp_make (blks S)))\<rparr>)
           ((cancel_all i A)\<lparr>issuing := insert i (issuing A)\<rparr>)"
proof -
  have "block_of S i = sp_block (ts_ptr (srcs S i))"
    using assms(2) by (simp add: block_of_def)
  then show ?thesis
    using assms linked_renew [of "block_of S", where i = i]
    by (auto simp: tokens_in_step_def sp_make_def sp_drop_uses block_of_set)
qed

lemma in_step_facts:
  assumes "tokens_in_step S A"
  shows "linked (block_of S) (uses (blks S)) (fresh (blks S)) (\<lambda>t. ct_block (toks S t)) (issuing A) (owner A)"
    and "alive S = exists A"
    and "i \<in> exists A \<Longrightarrow> sp_addr (ts_ptr (srcs S i)) = 0"
    and "i \<in> exists A \<Longrightarrow> block_of S i = sp_block (ts_ptr (srcs S i))"
    and "i \<notin> exists A \<Longrightarrow> block_of S i = None"
  using assms by (auto simp: tokens_in_step_def block_of_def)

lemma in_step_move_new:
  assumes "tokens_in_step S A"
  shows "tokens_in_step (token_step (Op_move_new i j) S) (spec_step (Op_move_new i j) A)"
proof (cases "i \<in> exists A \<or> j \<notin> exists A")
  case False
  note in_step_facts [OF assms]
  then have "block_of (token_step (Op_move_new i j) S) = (block_of S)(i := block_of S j, j := None)"
    using False by (auto simp: block_of_def ts_move_new_def sp_empty_def fun_eq_iff)
  moreover have "i \<noteq> j" using False by blast
  ultimately show ?thesis
    using False in_step_facts(2-5) [OF assms] linked_move [OF in_step_facts(1) [OF assms], of i j]
    by (auto simp: tokens_in_step_def ts_move_new_def sp_empty_def)
qed (use assms in_step_facts(2) [OF assms] in simp)

lemma in_step_move_assign:
  assumes "tokens_in_step S A"
  shows "tokens_in_step (token_step (Op_move_assign i j) S) (spec_step (Op_move_assign i j) A)"
proof -
  note l = in_step_facts(1) [OF assms] and al = in_step_facts(2) [OF assms]
  consider (none) "i \<notin> exists A \<or> j \<notin> exists A" | (self) "i \<in> exists A" "i = j"
    | (other) "i \<in> exists A" "j \<in> exists A" "i \<noteq> j" by blast
  then show ?thesis
  proof cases
    case none
    then show ?thesis using assms al by auto
  next
    case self
    then have "token_step (Op_move_assign i j) S = S"
      using al by (simp add: ts_move_assign_def Let_def sp_drop_def sp_empty_def)
    then show ?thesis using assms self by simp
  next
    case other
    then have "block_of (token_step (Op_move_assign i j) S) =
        ((block_of S)(i := None))(i := ((block_of S)(i := None)) j, j := None)"
      using al by (auto simp: block_of_def ts_move_assign_def Let_def sp_empty_def fun_eq_iff)
    then show ?thesis
      using other al in_step_facts(3,4) [OF assms] linked_move [OF linked_drop [OF l, of i] _ other(3)]
      by (auto simp: tokens_in_step_def ts_move_assign_def Let_def sp_empty_def sp_drop_uses
          cong: if_cong)
  qed
qed

lemma tokens_in_step_step:
  assumes "tokens_in_step S A"
  shows "tokens_in_step (token_step op S) (spec_step op A)"
proof -
  note l = in_step_facts(1) [OF assms] and al = in_step_facts(2) [OF assms]
    and addr = in_step_facts(3) [OF assms] and bl = in_step_facts(4) [OF assms]
  show ?thesis
  proof (cases op)
    case (Op_new i)
    then show ?thesis
      using assms al addr in_step_facts(5) [OF assms, of i] linked_fresh [OF l, of i]
      by (auto simp: tokens_in_step_def ts_new_def sp_make_def block_of_set)
  next
    case (Op_cancel i)
    then show ?thesis
      using assms al in_step_renew [OF assms, of i "srcs S i"]
      by (auto simp: ts_cancel_def split: prod.split)
  next
    case (Op_reset i)
    then show ?thesis
      using assms al addr [of i] in_step_renew [OF assms, of i "srcs S i"]
      by (auto simp: ts_reset_def split: prod.split)
  next
    case (Op_destroy i)
    then show ?thesis
      using assms al addr bl [of i] linked_drop [OF l, of i]
      by (auto simp: tokens_in_step_def ts_destroy_def sp_empty_def sp_drop_uses block_of_set)
  next
    case (Op_delete i)
    then show ?thesis
      using assms al addr bl [of i] linked_drop [OF l, of i]
      by (auto simp: tokens_in_step_def sp_drop_uses block_of_set)
  next
    case (Op_token t i)
    have "(\<lambda>s. ct_block (((toks S)(t := ct_new (srcs S i))) s)) =
        (\<lambda>s. ct_block (toks S s))(t := sp_block (ts_ptr (srcs S i)))"
      by (simp add: ct_new_def fun_eq_iff)
    then show ?thesis
      using Op_token assms al addr bl [of i] linked_token [OF l, of t i]
      by (auto simp: tokens_in_step_def block_of_set)
  qed (simp_all only: in_step_move_new [OF assms] in_step_move_assign [OF assms])
qed

lemma tokens_in_step_start: "tokens_in_step token_start spec_start"
  by (simp add: tokens_in_step_def token_start_def spec_start_def linked_def block_of_def)

lemma tokens_in_step_fold:
  "tokens_in_step S A \<Longrightarrow> tokens_in_step (fold token_step ops S) (fold spec_step ops A)"
  by (induction ops arbitrary: S A) (simp_all add: tokens_in_step_step)

lemma cancelled_iff_unowned:
  assumes "tokens_in_step S A"
  shows "ct_cancelled (toks S t) (blks S) \<longleftrightarrow> owner A t = None"
proof -
  have l: "linked (block_of S) (uses (blks S)) (fresh (blks S)) (\<lambda>t. ct_block (toks S t))
             (issuing A) (owner A)"
    using assms by (simp add: tokens_in_step_def)
  show ?thesis
    using linkedD(6) [OF l, of t] linkedD(4) [OF l]
    by (cases "ct_block (toks S t)"; cases "owner A t") (auto simp: ct_cancelled_def)
qed

lemma cancelled_value:
  "ct_cancelled (toks (fold token_step ops token_start) t) (blks (fold token_step ops token_start))
     \<longleftrightarrow> owner (fold spec_step ops spec_start) t = None"
  by (rule cancelled_iff_unowned [OF tokens_in_step_fold [OF tokens_in_step_start]])

text \<open>
  C17. Over any sequence of operations on any number of sources and tokens, a token reports that it
  is cancelled exactly if no source is left that could still cancel it: every source that has issued
  or been handed the token was cancelled, destroyed, reset or deleted since, or it issued the token
  when it had itself been destroyed or moved from.
\<close>

theorem tokens_follow_sources:
  "ct_cancelled (toks (fold token_step ops token_start) t) (blks (fold token_step ops token_start))
     \<longleftrightarrow> owner (fold spec_step ops spec_start) t = None"
  by (rule cancelled_value)

text \<open>
  \<^verbatim>\<open>reset()\<close> on a source that issues tokens cancels them, as \<^verbatim>\<open>cancel()\<close> does, for the
  address it tests is null in every state of a source.
\<close>

theorem reset_cancels_live_tokens:
  assumes "i \<in> alive (fold token_step ops token_start)"
  shows "ct_cancelled
           (toks (fold token_step (ops @ [Op_token t i, Op_reset i]) token_start) t)
           (blks (fold token_step (ops @ [Op_token t i, Op_reset i]) token_start))"
  unfolding cancelled_value
  using assms tokens_in_step_fold [OF tokens_in_step_start, of ops]
  by (simp add: tokens_in_step_def drop_owner_def)

theorem reset_cancels_live_tokens_witness:
  "ct_cancelled
     (toks (fold token_step ([Op_new 3] @ [Op_token 7 3, Op_reset 3]) token_start) 7)
     (blks (fold token_step ([Op_new 3] @ [Op_token 7 3, Op_reset 3]) token_start)) \<and>
   \<not> ct_cancelled
     (toks (fold token_step ([Op_new 3] @ [Op_token 7 3]) token_start) 7)
     (blks (fold token_step ([Op_new 3] @ [Op_token 7 3]) token_start))"
  by (rule conjI, rule reset_cancels_live_tokens)
    (simp_all add: ts_new_def sp_make_def token_start_def ct_new_def ct_cancelled_def)

end
