(* ===== verification/Links.thy ===== *)
theory Links
  imports Main
begin

text \<open>
  Doubly linked lists in a store: \<open>nx\<close> and \<open>pv\<close> give the links of every node, none for the null
  pointer. \<open>seg\<close> describes a piece of a list; the lemmas give the pieces that are left when links
  change, and the two updates the library makes, insertion at the front and removal.
\<close>

fun seg ::
    "('a \<Rightarrow> 'a option) \<Rightarrow> ('a \<Rightarrow> 'a option) \<Rightarrow> 'a option \<Rightarrow> 'a option \<Rightarrow> 'a list
      \<Rightarrow> 'a option \<Rightarrow> 'a option \<Rightarrow> bool" where
  "seg nx pv p h [] q t = (h = t \<and> p = q)"
| "seg nx pv p h (x # xs) q t = (h = Some x \<and> pv x = p \<and> seg nx pv (Some x) (nx x) xs q t)"

text \<open>A whole list with the first node \<open>h\<close>.\<close>

definition linked_list ::
    "('a \<Rightarrow> 'a option) \<Rightarrow> ('a \<Rightarrow> 'a option) \<Rightarrow> 'a option \<Rightarrow> 'a list \<Rightarrow> bool" where
  "linked_list nx pv h xs \<longleftrightarrow> distinct xs \<and> (\<exists>q. seg nx pv None h xs q None)"

lemma seg_append:
  "seg nx pv p h (xs @ ys) q t \<longleftrightarrow> (\<exists>q' t'. seg nx pv p h xs q' t' \<and> seg nx pv q' t' ys q t)"
  by (induction xs arbitrary: p h) auto

lemma seg_frame:
  assumes "\<And>x. x \<in> set xs \<Longrightarrow> nx x = nx' x" and "\<And>x. x \<in> set xs \<Longrightarrow> pv x = pv' x"
  shows "seg nx pv p h xs q t = seg nx' pv' p h xs q t"
  using assms by (induction xs arbitrary: p h) auto

lemma seg_upd [simp]:
  "i \<notin> set xs \<Longrightarrow> seg (nx(i := v)) pv p h xs q t = seg nx pv p h xs q t"
  "i \<notin> set xs \<Longrightarrow> seg nx (pv(i := v)) p h xs q t = seg nx pv p h xs q t"
  by (rule seg_frame; auto)+

lemma seg_set_next:
  assumes "seg nx pv p h xs (Some l) t" and "xs \<noteq> []" and "distinct xs"
  shows "l = last xs \<and> seg (nx(l := t')) pv p h xs (Some l) t'"
  using assms
proof (induction xs arbitrary: p h)
  case (Cons x xs)
  show ?case
  proof (cases "xs = []")
    case True
    then show ?thesis using Cons.prems(1) by auto
  next
    case False
    have ih: "l = last xs \<and> seg (nx(l := t')) pv (Some x) (nx x) xs (Some l) t'"
      by (rule Cons.IH) (use Cons.prems False in auto)
    then have "l \<noteq> x" using False Cons.prems(3) by auto
    then have "seg (nx(l := t')) pv p h (x # xs) (Some l) t'"
      using ih [THEN conjunct2] Cons.prems(1) by simp
    moreover have "l = last (x # xs)" using ih False by simp
    ultimately show ?thesis by blast
  qed
qed simp

lemma seg_set_prev:
  assumes "seg nx pv p (Some b) (b # xs) q t" and "b \<notin> set xs"
  shows "seg nx (pv(b := p')) p' (Some b) (b # xs) q t"
  using assms by simp

lemma linked_list_frame:
  assumes "\<And>x. x \<in> set xs \<Longrightarrow> nx x = nx' x" and "\<And>x. x \<in> set xs \<Longrightarrow> pv x = pv' x"
  shows "linked_list nx pv h xs = linked_list nx' pv' h xs"
proof -
  have "seg nx pv None h xs q None = seg nx' pv' None h xs q None" for q
    by (rule seg_frame [OF assms])
  then show ?thesis by (simp add: linked_list_def)
qed

lemma linked_list_Nil [simp]: "linked_list nx pv h [] \<longleftrightarrow> h = None"
  by (simp add: linked_list_def)

lemma linked_list_head: "linked_list nx pv h xs \<Longrightarrow> h = (case xs of [] \<Rightarrow> None | x # _ \<Rightarrow> Some x)"
  by (auto simp: linked_list_def split: list.split)

lemma seg_last: "seg nx pv p h xs q t \<Longrightarrow> q = (if xs = [] then p else Some (last xs))"
  by (induction xs arbitrary: p h) auto

lemma linked_list_neighbours:
  assumes "linked_list nx pv h (as @ i # bs)"
  shows "pv i = Some p \<Longrightarrow> p \<in> set as" and "nx i = Some n \<Longrightarrow> n \<in> set bs"
proof -
  obtain q p' where a: "seg nx pv None h as p' (Some i)" and i: "pv i = p'"
    and b: "seg nx pv (Some i) (nx i) bs q None"
    using assms by (auto simp: linked_list_def seg_append)
  show "p \<in> set as" if "pv i = Some p"
    using seg_last [OF a] i that by (auto split: if_splits)
  show "n \<in> set bs" if "nx i = Some n"
    using b that by (cases bs) auto
qed

section \<open>Insertion at the front\<close>

definition front_prev :: "'a \<Rightarrow> 'a option \<Rightarrow> ('a \<Rightarrow> 'a option) \<Rightarrow> 'a \<Rightarrow> 'a option" where
  "front_prev i h pv = (case h of None \<Rightarrow> pv(i := None) | Some b \<Rightarrow> pv(i := None, b := Some i))"

lemma linked_list_push:
  assumes l: "linked_list nx pv h xs" and i: "i \<notin> set xs"
  shows "linked_list (nx(i := h)) (front_prev i h pv) (Some i) (i # xs)"
proof (cases xs)
  case Nil
  then show ?thesis using l by (simp add: linked_list_def front_prev_def)
next
  case (Cons b bs)
  then obtain q where h: "h = Some b" and b: "b \<notin> set bs" "i \<noteq> b" "i \<notin> set bs"
    and s: "seg nx pv None (Some b) (b # bs) q None"
    using l i by (auto simp: linked_list_def)
  have "seg (nx(i := h)) (pv(i := None)) None (Some b) (b # bs) q None"
    using s b by simp
  from seg_set_prev [OF this b(1), of "Some i"]
  have "seg (nx(i := h)) (pv(i := None, b := Some i)) (Some i) (Some b) (b # bs) q None" .
  then have "seg (nx(i := h)) (front_prev i h pv) None (Some i) (i # b # bs) q None"
    using b(2) h by (simp add: front_prev_def)
  moreover have "distinct (i # xs)" using l i by (simp add: linked_list_def)
  ultimately show ?thesis unfolding linked_list_def Cons by blast
qed

section \<open>Removal\<close>

definition gap_head :: "'a \<Rightarrow> ('a \<Rightarrow> 'a option) \<Rightarrow> 'a option \<Rightarrow> 'a option" where
  "gap_head i nx h = (if h = Some i then nx i else h)"

definition gap_next :: "'a \<Rightarrow> ('a \<Rightarrow> 'a option) \<Rightarrow> ('a \<Rightarrow> 'a option) \<Rightarrow> 'a \<Rightarrow> 'a option" where
  "gap_next i nx pv = (case pv i of None \<Rightarrow> nx | Some p \<Rightarrow> nx(p := nx i))"

definition gap_prev :: "'a \<Rightarrow> ('a \<Rightarrow> 'a option) \<Rightarrow> ('a \<Rightarrow> 'a option) \<Rightarrow> 'a \<Rightarrow> 'a option" where
  "gap_prev i nx pv = (case nx i of None \<Rightarrow> pv | Some b \<Rightarrow> pv(b := pv i))"

lemma linked_list_unlink:
  assumes l: "linked_list nx pv h (as @ i # bs)"
  shows "linked_list (gap_next i nx pv) (gap_prev i nx pv) (gap_head i nx h) (as @ bs)"
proof -
  have d: "distinct (as @ i # bs)" using l by (simp add: linked_list_def)
  obtain q p where a: "seg nx pv None h as p (Some i)" and i: "pv i = p"
    and b: "seg nx pv (Some i) (nx i) bs q None"
    using l by (auto simp: linked_list_def seg_append)
  have i_last: "p = Some l \<Longrightarrow> as \<noteq> []" for l using a by (cases as) auto
  have nx: "gap_next i nx pv x = nx x" if "x \<notin> set as" for x
  proof (cases p)
    case (Some l)
    then have "l = last as" and "as \<noteq> []"
      using seg_set_next [OF a [unfolded Some] i_last] d i_last by auto
    then show ?thesis using that by (auto simp: gap_next_def i Some)
  qed (simp add: gap_next_def i)
  have pv: "gap_prev i nx pv x = pv x" if "x \<notin> set bs" for x
    using that b by (cases bs) (auto simp: gap_prev_def split: option.split)
  \<comment> \<open>the nodes before \<open>i\<close>, which now lead to those behind it\<close>
  have "seg (gap_next i nx pv) pv None (gap_head i nx h) as p (nx i)"
  proof (cases as)
    case Nil
    then show ?thesis using a i by (simp add: gap_head_def)
  next
    case (Cons x xs)
    have "h = Some x" using a Cons by simp
    moreover have "x \<noteq> i" using d Cons by auto
    ultimately have "gap_head i nx h = h" by (simp add: gap_head_def)
    moreover obtain l where "p = Some l"
    proof -
      have "seg nx pv (Some x) (nx x) xs p (Some i) \<Longrightarrow> p \<noteq> None"
        by (induction xs arbitrary: x) auto
      then show ?thesis using that a Cons by auto
    qed
    moreover have "distinct as" using d by simp
    ultimately show ?thesis
      using seg_set_next [of nx pv None h as _ "Some i" "nx i"] a i Cons by (simp add: gap_next_def)
  qed
  moreover have "x \<in> set as \<Longrightarrow> pv x = gap_prev i nx pv x" for x
    using d by (intro pv [symmetric]) auto
  ultimately have as': "seg (gap_next i nx pv) (gap_prev i nx pv) None (gap_head i nx h) as p (nx i)"
    using seg_frame [of as "gap_next i nx pv" "gap_next i nx pv" pv "gap_prev i nx pv"] by blast
  \<comment> \<open>the nodes behind \<open>i\<close>\<close>
  have "seg nx (gap_prev i nx pv) p (nx i) bs (if bs = [] then p else q) None"
  proof (cases bs)
    case Nil
    then show ?thesis using b by simp
  next
    case (Cons x xs)
    have "nx i = Some x" using b Cons by simp
    then show ?thesis
      using seg_set_prev [of nx pv "Some i" x xs q None p] b d Cons i by (simp add: gap_prev_def)
  qed
  moreover have "x \<in> set bs \<Longrightarrow> gap_next i nx pv x = nx x" for x
    using nx d by auto
  ultimately have bs': "seg (gap_next i nx pv) (gap_prev i nx pv) p (nx i) bs (if bs = [] then p else q) None"
    using seg_frame [of bs "gap_next i nx pv" nx "gap_prev i nx pv" "gap_prev i nx pv"] by blast
  show ?thesis
    unfolding linked_list_def seg_append using as' bs' d by auto
qed

end
