(* ===== verification/FileService.thy ===== *)
theory FileService
  imports UniqueHandle CancelTokens Links
begin

text \<open>
  \<^verbatim>\<open>thread_pool_file_service\<close> (\<^verbatim>\<open>thread_pool_file_service.hpp\<close>,
  \<^verbatim>\<open>impl/thread_pool_file_service.*\<close>) and the object that holds an implementation of it,
  \<^verbatim>\<open>io_object_holder\<close>. The implementations live in a store, for they are linked by pointers; an
  implementation is the member of its holder, so both have the same address. An asynchronous
  operation is a function object that waits in the queue of the thread pool. Each function below is
  one step: the list is only changed under its lock, and a file is used by one thread at a time.
\<close>

section \<open>Implementations and operations\<close>

record implementation =
  impl_handle :: file_handle
  impl_token :: token_source
  impl_next :: "nat option"
  impl_prev :: "nat option"

text \<open>
  The function objects with the handle they have copied, and the composed operation around one; its
  service is the one it was started on.
\<close>

datatype fs_impl =
    Fs_read file_handle "nat list"
  | Fs_write file_handle "bytes list"
  | Fs_read_at file_handle nat "nat list"
  | Fs_write_at file_handle nat "bytes list"

record fs_op =
  op_token :: cancellation_token
  op_impl :: fs_impl
  op_service :: nat

text \<open>
  All implementations and services of a program: \<open>built\<close> are the holders that exist and
  \<open>service_of\<close> their services; \<open>impl_list\<close> is the first implementation of every service, \<open>queued\<close>
  the operations that its pool has not run, \<open>stopped\<close> the services whose pool was stopped.
\<close>

record 'w files =
  built :: "nat set"
  service_of :: "nat \<Rightarrow> nat"
  impls :: "nat \<Rightarrow> implementation"
  impl_list :: "nat \<Rightarrow> nat option"
  control :: blocks
  queued :: "nat \<Rightarrow> fs_op option"
  stopped :: "nat set"
  system :: 'w

definition on_impl :: "nat \<Rightarrow> (implementation \<Rightarrow> implementation) \<Rightarrow> 'w files \<Rightarrow> 'w files" where
  "on_impl i f st = st\<lparr>impls := (impls st)(i := f (impls st i))\<rparr>"

abbreviation set_next :: "nat \<Rightarrow> nat option \<Rightarrow> 'w files \<Rightarrow> 'w files" where
  "set_next i v \<equiv> on_impl i (\<lambda>x. x\<lparr>impl_next := v\<rparr>)"

abbreviation set_prev :: "nat \<Rightarrow> nat option \<Rightarrow> 'w files \<Rightarrow> 'w files" where
  "set_prev i v \<equiv> on_impl i (\<lambda>x. x\<lparr>impl_prev := v\<rparr>)"

abbreviation set_handle :: "nat \<Rightarrow> file_handle \<Rightarrow> 'w files \<Rightarrow> 'w files" where
  "set_handle i h \<equiv> on_impl i (\<lambda>x. x\<lparr>impl_handle := h\<rparr>)"

text \<open>An operation of the token source of an implementation.\<close>

definition on_token ::
    "nat \<Rightarrow> (token_source \<Rightarrow> blocks \<Rightarrow> token_source \<times> blocks) \<Rightarrow> 'w files \<Rightarrow> 'w files" where
  "on_token i f st =
     (case f (impl_token (impls st i)) (control st) of
        (t, B) \<Rightarrow> (on_impl i (\<lambda>x. x\<lparr>impl_token := t\<rparr>) st)\<lparr>control := B\<rparr>)"

section \<open>The list of the implementations\<close>

definition push_impl :: "nat \<Rightarrow> nat \<Rightarrow> 'w files \<Rightarrow> 'w files" where
  "push_impl s i st =
     (let st = set_next i (impl_list st s) st;
          st = set_prev i None st;
          st = (case impl_list st s of None \<Rightarrow> st | Some h \<Rightarrow> set_prev h (Some i) st) in
      st\<lparr>impl_list := (impl_list st)(s := Some i)\<rparr>)"

definition unlink_impl :: "nat \<Rightarrow> nat \<Rightarrow> 'w files \<Rightarrow> 'w files" where
  "unlink_impl s i st =
     (let st = (if impl_list st s = Some i
                then st\<lparr>impl_list := (impl_list st)(s := impl_next (impls st i))\<rparr> else st);
          st = (case impl_prev (impls st i) of
                  None \<Rightarrow> st | Some p \<Rightarrow> set_next p (impl_next (impls st i)) st);
          st = (case impl_next (impls st i) of
                  None \<Rightarrow> st | Some n \<Rightarrow> set_prev n (impl_prev (impls st i)) st) in
      set_prev i None (set_next i None st))"

section \<open>Life cycle of an implementation\<close>

text \<open>\<^verbatim>\<open>implementation_type()\<close>, which makes its members.\<close>

definition impl_new :: "nat \<Rightarrow> 'w files \<Rightarrow> 'w files" where
  "impl_new i st =
     (case ts_new (control st) of
        (t, B) \<Rightarrow>
          st\<lparr>impls := (impls st)(i :=
                \<lparr>impl_handle = fh_default, impl_token = t, impl_next = None, impl_prev = None\<rparr>),
             control := B\<rparr>)"

definition svc_construct :: "nat \<Rightarrow> nat \<Rightarrow> 'w files \<Rightarrow> 'w files" where
  "svc_construct s i st = push_impl s i (on_token i ts_reset st)"

definition svc_move_construct :: "nat \<Rightarrow> nat \<Rightarrow> nat \<Rightarrow> 'w files \<Rightarrow> 'w files" where
  "svc_move_construct s i j st =
     (let st = set_handle i (impl_handle (impls st j)) st;
          st = set_handle j (fh_clear (impl_handle (impls st j))) st;
          (m, B) = ts_move_assign i j (\<lambda>k. impl_token (impls st k)) (control st);
          st = st\<lparr>impls := (\<lambda>k. (impls st k)\<lparr>impl_token := m k\<rparr>), control := B\<rparr> in
      push_impl s i st)"

text \<open>The exception is that of \<^verbatim>\<open>handle_.close()\<close>.\<close>

definition close_for_destruction ::
    "'w kernel \<Rightarrow> nat \<Rightarrow> 'w files \<Rightarrow> 'w files \<times> (cxx_exception + unit)" where
  "close_for_destruction K i st =
     (if fh_is_open (impl_handle (impls st i)) then
        (let st = on_token i ts_destroy st in
         case fh_close_throwing K (impl_handle (impls st i)) (system st) of
           (h, w, r) \<Rightarrow> ((set_handle i h st)\<lparr>system := w\<rparr>, r))
      else (st, Inr ()))"

definition svc_move_assign ::
    "'w kernel \<Rightarrow> nat \<Rightarrow> nat \<Rightarrow> nat \<Rightarrow> nat \<Rightarrow> 'w files \<Rightarrow> 'w files \<times> (cxx_exception + unit)" where
  "svc_move_assign K s i s' j st =
     (case close_for_destruction K i st of
        (st, Inl e) \<Rightarrow> (st, Inl e)
      | (st, Inr _) \<Rightarrow>
          (let st = (if s \<noteq> s' then unlink_impl s i st else st);
               st = set_handle i (impl_handle (impls st j)) st;
               st = set_handle j (fh_clear (impl_handle (impls st j))) st;
               st = (if s \<noteq> s' then push_impl s' i st else st) in
           (st, Inr ())))"

definition svc_destroy :: "'w kernel \<Rightarrow> nat \<Rightarrow> nat \<Rightarrow> 'w files \<Rightarrow> 'w files \<times> (cxx_exception + unit)" where
  "svc_destroy K s i st =
     (case close_for_destruction K i st of
        (st, Inl e) \<Rightarrow> (st, Inl e)
      | (st, Inr _) \<Rightarrow> (unlink_impl s i st, Inr ()))"

text \<open>
  The loop of \<^verbatim>\<open>shutdown_service()\<close> from the implementation \<open>cur\<close>, and the whole function; a
  stopped pool does not call the function objects that wait in it.
\<close>

partial_function (option) close_from ::
    "'w kernel \<Rightarrow> nat option \<Rightarrow> 'w files \<Rightarrow> ('w files \<times> (cxx_exception + unit)) option" where
  "close_from K cur st =
     (case cur of
        None \<Rightarrow> Some (st, Inr ())
      | Some i \<Rightarrow>
          (case close_for_destruction K i st of
             (st, Inl e) \<Rightarrow> Some (st, Inl e)
           | (st, Inr _) \<Rightarrow> close_from K (impl_next (impls st i)) st))"

declare close_from.simps [code]

definition svc_shutdown ::
    "'w kernel \<Rightarrow> nat \<Rightarrow> 'w files \<Rightarrow> ('w files \<times> (cxx_exception + unit)) option" where
  "svc_shutdown K s st =
     (case close_from K (impl_list st s) st of
        None \<Rightarrow> None
      | Some (st, Inl e) \<Rightarrow> Some (st, Inl e)
      | Some (st, Inr _) \<Rightarrow> Some (st\<lparr>stopped := insert s (stopped st)\<rparr>, Inr ()))"

section \<open>Opening, closing and cancelling\<close>

definition svc_is_open :: "nat \<Rightarrow> 'w files \<Rightarrow> bool" where
  "svc_is_open i st = fh_is_open (impl_handle (impls st i))"

definition svc_native_handle :: "nat \<Rightarrow> 'w files \<Rightarrow> int" where
  "svc_native_handle i st = native_handle (impl_handle (impls st i))"

text \<open>The temporary object that \<^verbatim>\<open>open\<close> returns is destroyed after its handle was released.\<close>

definition svc_open ::
    "platform \<Rightarrow> 'w kernel \<Rightarrow> nat \<Rightarrow> string \<Rightarrow> open_args \<Rightarrow> 'w files \<Rightarrow> ('w files \<times> error_code) option" where
  "svc_open P K i filename args st =
     (if fh_is_open (impl_handle (impls st i)) then Some (st, ec_asio already_open)
      else (case open_file P K filename args (system st) of
              None \<Rightarrow> None
            | Some (w, ec, u) \<Rightarrow>
                (case ufh_release u of
                   (u, h) \<Rightarrow> Some ((set_handle i h st)\<lparr>system := ufh_destroy K u w\<rparr>, ec))))"

definition svc_assign :: "nat \<Rightarrow> int \<Rightarrow> 'w files \<Rightarrow> 'w files \<times> error_code" where
  "svc_assign i h st =
     (if fh_is_open (impl_handle (impls st i)) then (st, ec_asio already_open)
      else (set_handle i (fh_new h) st, no_error))"

definition svc_close :: "'w kernel \<Rightarrow> nat \<Rightarrow> 'w files \<Rightarrow> 'w files \<times> error_code" where
  "svc_close K i st =
     (case fh_close K (impl_handle (impls st i)) (system st) of
        (h, w, ec) \<Rightarrow> ((set_handle i h st)\<lparr>system := w\<rparr>, ec))"

text \<open>\<open>ec\<close> is the value of the caller's object, which stays when there is nothing to report.\<close>

definition svc_cancel :: "nat \<Rightarrow> error_code \<Rightarrow> 'w files \<Rightarrow> 'w files \<times> error_code" where
  "svc_cancel i ec st =
     (if \<not> fh_is_open (impl_handle (impls st i)) then (st, ec_asio bad_descriptor)
      else (on_token i ts_cancel st, ec))"

section \<open>The operations that pass on to the handle\<close>

definition with_system :: "'w files \<Rightarrow> 'w \<times> 'r \<Rightarrow> 'w files \<times> 'r" where
  "with_system st r = (st\<lparr>system := fst r\<rparr>, snd r)"

definition svc_position where
  "svc_position K i st = with_system st (fh_position K (impl_handle (impls st i)) (system st))"
definition svc_seek where
  "svc_seek K i origin offset st =
     with_system st (fh_seek K (impl_handle (impls st i)) origin offset (system st))"
definition svc_size where
  "svc_size K i st = with_system st (fh_size K (impl_handle (impls st i)) (system st))"
definition svc_truncate where
  "svc_truncate K i new_size st =
     with_system st (fh_truncate K (impl_handle (impls st i)) new_size (system st))"
definition svc_permissions where
  "svc_permissions K i st = with_system st (fh_permissions K (impl_handle (impls st i)) (system st))"
definition svc_set_permissions where
  "svc_set_permissions K i new_perms opts st =
     with_system st (fh_set_permissions K (impl_handle (impls st i)) new_perms opts (system st))"
definition svc_replace_permissions where
  "svc_replace_permissions K i new_perms st =
     with_system st (fh_replace_permissions K (impl_handle (impls st i)) new_perms (system st))"
definition svc_attributes where
  "svc_attributes P K i st = with_system st (fh_attributes P K (impl_handle (impls st i)) (system st))"
definition svc_set_attributes where
  "svc_set_attributes P K i new_attrs opts st =
     with_system st (fh_set_attributes P K (impl_handle (impls st i)) new_attrs opts (system st))"
definition svc_replace_attributes where
  "svc_replace_attributes P K i new_attrs st =
     with_system st (fh_replace_attributes P K (impl_handle (impls st i)) new_attrs (system st))"
definition svc_times where
  "svc_times P K i st =
     map_option (with_system st) (fh_times P K (impl_handle (impls st i)) (system st))"
definition svc_set_times where
  "svc_set_times P K i new_times st =
     map_option (with_system st) (fh_set_times P K (impl_handle (impls st i)) new_times (system st))"
definition svc_read_some where
  "svc_read_some P K i bufs st =
     map_option (with_system st) (fh_read_some P K (impl_handle (impls st i)) bufs (system st))"
definition svc_write_some where
  "svc_write_some P K i bufs st =
     map_option (with_system st) (fh_write_some P K (impl_handle (impls st i)) bufs (system st))"
definition svc_read_some_at where
  "svc_read_some_at P K i offset bufs st =
     map_option (with_system st) (fh_read_some_at P K (impl_handle (impls st i)) offset bufs (system st))"
definition svc_write_some_at where
  "svc_write_some_at P K i offset bufs st =
     map_option (with_system st) (fh_write_some_at P K (impl_handle (impls st i)) offset bufs (system st))"

section \<open>Asynchronous operations\<close>

text \<open>
  What a function object gives: the code, the number of bytes transferred, and for a read the bytes.
\<close>

fun fs_impl_call ::
    "platform \<Rightarrow> 'w kernel \<Rightarrow> fs_impl \<Rightarrow> 'w \<Rightarrow> ('w \<times> error_code \<times> nat \<times> bytes) option" where
  "fs_impl_call P K (Fs_read h bufs) w =
     map_option (\<lambda>(w, ec, data). (w, ec, length data, data)) (fh_read_some P K h bufs w)"
| "fs_impl_call P K (Fs_write h bufs) w =
     map_option (\<lambda>(w, ec, n). (w, ec, n, [])) (fh_write_some P K h bufs w)"
| "fs_impl_call P K (Fs_read_at h offset bufs) w =
     map_option (\<lambda>(w, ec, data). (w, ec, length data, data)) (fh_read_some_at P K h offset bufs w)"
| "fs_impl_call P K (Fs_write_at h offset bufs) w =
     map_option (\<lambda>(w, ec, n). (w, ec, n, [])) (fh_write_some_at P K h offset bufs w)"

text \<open>The operation on a thread of the pool: what it gives is posted to the handler.\<close>

definition fs_op_call ::
    "platform \<Rightarrow> 'w kernel \<Rightarrow> fs_op \<Rightarrow> blocks \<Rightarrow> 'w \<Rightarrow> ('w \<times> error_code \<times> nat \<times> bytes) option" where
  "fs_op_call P K op B w =
     (if ct_cancelled (op_token op) B then Some (w, ec_asio operation_aborted, 0, [])
      else fs_impl_call P K (op_impl op) w)"

text \<open>An operation with the name \<open>n\<close> is made and posted to the pool.\<close>

definition fs_init :: "nat \<Rightarrow> fs_impl \<Rightarrow> token_source \<Rightarrow> nat \<Rightarrow> 'w files \<Rightarrow> 'w files" where
  "fs_init n impl source s st =
     st\<lparr>queued := (queued st)(n := Some \<lparr>op_token = ct_new source, op_impl = impl, op_service = s\<rparr>)\<rparr>"

definition svc_async_read_some :: "nat \<Rightarrow> nat \<Rightarrow> nat list \<Rightarrow> nat \<Rightarrow> 'w files \<Rightarrow> 'w files" where
  "svc_async_read_some s i bufs n st =
     fs_init n (Fs_read (impl_handle (impls st i)) bufs) (impl_token (impls st i)) s st"

definition svc_async_write_some :: "nat \<Rightarrow> nat \<Rightarrow> bytes list \<Rightarrow> nat \<Rightarrow> 'w files \<Rightarrow> 'w files" where
  "svc_async_write_some s i bufs n st =
     fs_init n (Fs_write (impl_handle (impls st i)) bufs) (impl_token (impls st i)) s st"

definition svc_async_read_some_at :: "nat \<Rightarrow> nat \<Rightarrow> nat \<Rightarrow> nat list \<Rightarrow> nat \<Rightarrow> 'w files \<Rightarrow> 'w files" where
  "svc_async_read_some_at s i offset bufs n st =
     fs_init n (Fs_read_at (impl_handle (impls st i)) offset bufs) (impl_token (impls st i)) s st"

definition svc_async_write_some_at :: "nat \<Rightarrow> nat \<Rightarrow> nat \<Rightarrow> bytes list \<Rightarrow> nat \<Rightarrow> 'w files \<Rightarrow> 'w files" where
  "svc_async_write_some_at s i offset bufs n st =
     fs_init n (Fs_write_at (impl_handle (impls st i)) offset bufs) (impl_token (impls st i)) s st"

text \<open>A thread of the pool takes the operation \<open>n\<close> out of the queue and calls it.\<close>

definition run_queued ::
    "platform \<Rightarrow> 'w kernel \<Rightarrow> nat \<Rightarrow> 'w files \<Rightarrow> ('w files \<times> error_code \<times> nat \<times> bytes) option" where
  "run_queued P K n st =
     (case queued st n of
        None \<Rightarrow> None
      | Some op \<Rightarrow>
          if op_service op \<in> stopped st then None
          else map_option (with_system (st\<lparr>queued := (queued st)(n := None)\<rparr>))
                 (fs_op_call P K op (control st) (system st)))"

section \<open>The holder\<close>

definition holder_new :: "nat \<Rightarrow> nat \<Rightarrow> 'w files \<Rightarrow> 'w files" where
  "holder_new i s st =
     (let st = st\<lparr>service_of := (service_of st)(i := s)\<rparr>;
          st = impl_new i st in
      (svc_construct s i st)\<lparr>built := insert i (built st)\<rparr>)"

definition holder_move_new :: "nat \<Rightarrow> nat \<Rightarrow> 'w files \<Rightarrow> 'w files" where
  "holder_move_new i j st =
     (let s = service_of st j;
          st = st\<lparr>service_of := (service_of st)(i := s)\<rparr>;
          st = impl_new i st in
      (svc_move_construct s i j st)\<lparr>built := insert i (built st)\<rparr>)"

definition holder_move_assign ::
    "'w kernel \<Rightarrow> nat \<Rightarrow> nat \<Rightarrow> 'w files \<Rightarrow> 'w files \<times> (cxx_exception + unit)" where
  "holder_move_assign K i j st =
     (if i = j then (st, Inr ())
      else (case svc_move_assign K (service_of st i) i (service_of st j) j st of
              (st, Inl e) \<Rightarrow> (st, Inl e)
            | (st, Inr _) \<Rightarrow> (st\<lparr>service_of := (service_of st)(i := service_of st j)\<rparr>, Inr ())))"

text \<open>
  The destructor, which cannot raise: None is \<^verbatim>\<open>std::terminate\<close>. The token source dies with the
  implementation.
\<close>

definition holder_destroy :: "'w kernel \<Rightarrow> nat \<Rightarrow> 'w files \<Rightarrow> 'w files option" where
  "holder_destroy K i st =
     (case svc_destroy K (service_of st i) i st of
        (st, Inl e) \<Rightarrow> None
      | (st, Inr _) \<Rightarrow>
          Some (st\<lparr>built := built st - {i},
                   control := sp_drop (ts_ptr (impl_token (impls st i))) (control st)\<rparr>))"

end
