(* ===== verification/FileServiceCorrect.thy ===== *)
theory FileServiceCorrect
  imports FileService
begin

text \<open>
  Programs that use files of several services: the steps they make, the list of the implementations
  that every service keeps, and which of the queued operations are cancelled.
\<close>

section \<open>Steps of a program\<close>

datatype file_op =
    F_new nat nat
  | F_move_new nat nat
  | F_move_assign nat nat
  | F_destroy nat
  | F_cancel nat
  | F_start nat nat
  | F_other

text \<open>
  \<open>F_other\<close> are the operations that touch neither the tokens nor the list; any of them, and the
  rest of the program, may change the state of the system.
\<close>

inductive file_step :: "platform \<Rightarrow> 'w kernel \<Rightarrow> file_op \<Rightarrow> 'w files \<Rightarrow> 'w files \<Rightarrow> bool" for P K where
  new: "i \<notin> built st \<Longrightarrow> file_step P K (F_new i s) st (holder_new i s st)"
| move_new: "i \<notin> built st \<Longrightarrow> j \<in> built st \<Longrightarrow>
    file_step P K (F_move_new i j) st (holder_move_new i j st)"
| move_assign: "i \<in> built st \<Longrightarrow> j \<in> built st \<Longrightarrow> holder_move_assign K i j st = (st', r) \<Longrightarrow>
    file_step P K (F_move_assign i j) st st'"
| destroy: "i \<in> built st \<Longrightarrow> holder_destroy K i st = Some st' \<Longrightarrow> file_step P K (F_destroy i) st st'"
| cancel: "i \<in> built st \<Longrightarrow> svc_cancel i ec st = (st', ec') \<Longrightarrow> file_step P K (F_cancel i) st st'"
| start_read: "i \<in> built st \<Longrightarrow> queued st n = None \<Longrightarrow>
    file_step P K (F_start n i) st (svc_async_read_some (service_of st i) i bufs n st)"
| start_write: "i \<in> built st \<Longrightarrow> queued st n = None \<Longrightarrow>
    file_step P K (F_start n i) st (svc_async_write_some (service_of st i) i cbufs n st)"
| start_read_at: "i \<in> built st \<Longrightarrow> queued st n = None \<Longrightarrow>
    file_step P K (F_start n i) st (svc_async_read_some_at (service_of st i) i offset bufs n st)"
| start_write_at: "i \<in> built st \<Longrightarrow> queued st n = None \<Longrightarrow>
    file_step P K (F_start n i) st (svc_async_write_some_at (service_of st i) i offset cbufs n st)"
| open_file: "i \<in> built st \<Longrightarrow> svc_open P K i path args st = Some (st', ec) \<Longrightarrow>
    file_step P K F_other st st'"
| assign: "i \<in> built st \<Longrightarrow> svc_assign i h st = (st', ec) \<Longrightarrow> file_step P K F_other st st'"
| close: "i \<in> built st \<Longrightarrow> svc_close K i st = (st', ec) \<Longrightarrow> file_step P K F_other st st'"
| run: "run_queued P K n st = Some (st', ec, k, data) \<Longrightarrow> file_step P K F_other st st'"
| world: "file_step P K F_other st (st\<lparr>system := w\<rparr>)"

text \<open>
  What a step is to the token sources: every file has one. A file cancels its operations when it is
  open; assigning to a file that is open or destroying it ends its source.
\<close>

fun token_ops :: "file_op \<Rightarrow> 'w files \<Rightarrow> token_op list" where
  "token_ops (F_new i s) st = [Op_new i, Op_reset i]"
| "token_ops (F_move_new i j) st = [Op_new i, Op_move_assign i j]"
| "token_ops (F_move_assign i j) st = (if i \<noteq> j \<and> svc_is_open i st then [Op_destroy i] else [])"
| "token_ops (F_destroy i) st = (if svc_is_open i st then [Op_destroy i] else []) @ [Op_delete i]"
| "token_ops (F_cancel i) st = (if svc_is_open i st then [Op_cancel i] else [])"
| "token_ops (F_start n i) st = [Op_token n i]"
| "token_ops F_other st = []"

definition files_start :: "'w files \<Rightarrow> bool" where
  "files_start st \<longleftrightarrow>
     built st = {} \<and> impl_list st = (\<lambda>_. None) \<and> queued st = (\<lambda>_. None)
     \<and> control st = blks token_start"

text \<open>The states a program reaches, each with the state of the specification of the tokens.\<close>

inductive file_run :: "platform \<Rightarrow> 'w kernel \<Rightarrow> 'w files \<Rightarrow> token_spec \<Rightarrow> bool" for P K where
  start: "files_start st \<Longrightarrow> file_run P K st spec_start"
| step: "file_run P K st A \<Longrightarrow> file_step P K op st st' \<Longrightarrow>
    file_run P K st' (fold spec_step (token_ops op st) A)"

section \<open>What the parts of the operations change\<close>

abbreviation nexts :: "'w files \<Rightarrow> nat \<Rightarrow> nat option" where
  "nexts st \<equiv> (\<lambda>i. impl_next (impls st i))"

abbreviation prevs :: "'w files \<Rightarrow> nat \<Rightarrow> nat option" where
  "prevs st \<equiv> (\<lambda>i. impl_prev (impls st i))"

abbreviation sources :: "'w files \<Rightarrow> nat \<Rightarrow> token_source" where
  "sources st \<equiv> (\<lambda>i. impl_token (impls st i))"

abbreviation handles :: "'w files \<Rightarrow> nat \<Rightarrow> file_handle" where
  "handles st \<equiv> (\<lambda>i. impl_handle (impls st i))"

lemma on_impl_simps [simp]:
  "impls (on_impl i f st) = (impls st)(i := f (impls st i))"
  "built (on_impl i f st) = built st" "service_of (on_impl i f st) = service_of st"
  "impl_list (on_impl i f st) = impl_list st" "control (on_impl i f st) = control st"
  "queued (on_impl i f st) = queued st" "stopped (on_impl i f st) = stopped st"
  "system (on_impl i f st) = system st"
  by (simp_all add: on_impl_def)

lemma push_impl_simps [simp]:
  "nexts (push_impl s i st) = (nexts st)(i := impl_list st s)"
  "prevs (push_impl s i st) = front_prev i (impl_list st s) (prevs st)"
  "sources (push_impl s i st) = sources st" "handles (push_impl s i st) = handles st"
  "impl_list (push_impl s i st) = (impl_list st)(s := Some i)"
  "built (push_impl s i st) = built st" "service_of (push_impl s i st) = service_of st"
  "control (push_impl s i st) = control st" "queued (push_impl s i st) = queued st"
  "stopped (push_impl s i st) = stopped st" "system (push_impl s i st) = system st"
  by (auto simp: push_impl_def Let_def front_prev_def fun_eq_iff split: option.split)

lemma list_ops_keep [simp]:
  "impl_token (impls (push_impl s i st) k) = impl_token (impls st k)"
  "impl_token (impls (unlink_impl s i st) k) = impl_token (impls st k)"
  "impl_handle (impls (push_impl s i st) k) = impl_handle (impls st k)"
  "impl_handle (impls (unlink_impl s i st) k) = impl_handle (impls st k)"
  by (auto simp: push_impl_def unlink_impl_def Let_def split: option.split)

lemma unlink_impl_simps [simp]:
  "nexts (unlink_impl s i st) = (gap_next i (nexts st) (prevs st))(i := None)"
  "prevs (unlink_impl s i st) = (gap_prev i (nexts st) (prevs st))(i := None)"
  "sources (unlink_impl s i st) = sources st" "handles (unlink_impl s i st) = handles st"
  "impl_list (unlink_impl s i st) = (impl_list st)(s := gap_head i (nexts st) (impl_list st s))"
  "built (unlink_impl s i st) = built st" "service_of (unlink_impl s i st) = service_of st"
  "control (unlink_impl s i st) = control st" "queued (unlink_impl s i st) = queued st"
  "stopped (unlink_impl s i st) = stopped st" "system (unlink_impl s i st) = system st"
  by (auto simp: unlink_impl_def Let_def gap_next_def gap_prev_def gap_head_def fun_eq_iff
      split: option.split)

section \<open>The lists\<close>

text \<open>Every service has a list of just the objects in \<open>L\<close> that belong to it.\<close>

definition lists_ok ::
    "(nat \<Rightarrow> nat option) \<Rightarrow> (nat \<Rightarrow> nat option) \<Rightarrow> (nat \<Rightarrow> nat option) \<Rightarrow> nat set \<Rightarrow> (nat \<Rightarrow> nat) \<Rightarrow> bool" where
  "lists_ok nx pv h L sv \<longleftrightarrow>
     (\<forall>s. \<exists>xs. linked_list nx pv (h s) xs \<and> set xs = {i \<in> L. sv i = s})"

lemma lists_ok_push:
  assumes ok: "lists_ok nx pv h L sv" and i: "i \<notin> L"
  shows "lists_ok (nx(i := h s)) (front_prev i (h s) pv) (h(s := Some i)) (insert i L) (sv(i := s))"
  unfolding lists_ok_def
proof
  fix s'
  obtain xs where xs: "linked_list nx pv (h s') xs" and mem: "set xs = {i \<in> L. sv i = s'}"
    using ok unfolding lists_ok_def by blast
  show "\<exists>xs. linked_list (nx(i := h s)) (front_prev i (h s) pv) ((h(s := Some i)) s') xs
      \<and> set xs = {j \<in> insert i L. (sv(i := s)) j = s'}"
  proof (cases "s' = s")
    case True
    have "linked_list (nx(i := h s)) (front_prev i (h s) pv) (Some i) (i # xs)"
      using linked_list_push [OF xs, of i] mem i True by simp
    moreover have "set (i # xs) = {j \<in> insert i L. (sv(i := s)) j = s'}"
      using mem i True by auto
    ultimately show ?thesis using True by (metis fun_upd_same)
  next
    case False
    obtain ys where "linked_list nx pv (h s) ys" and ys: "set ys = {i \<in> L. sv i = s}"
      using ok unfolding lists_ok_def by blast
    then have h: "h s = Some b \<Longrightarrow> b \<notin> set xs" for b
      using linked_list_head [of nx pv "h s" ys] mem False by (auto split: list.splits)
    have "linked_list (nx(i := h s)) (front_prev i (h s) pv) (h s') xs"
    proof (rule linked_list_frame [THEN iffD1, OF _ _ xs])
      show "nx x = (nx(i := h s)) x" if "x \<in> set xs" for x
        using that mem i by auto
      show "pv x = front_prev i (h s) pv x" if "x \<in> set xs" for x
        using that mem i h by (auto simp: front_prev_def split: option.split)
    qed
    moreover have "set xs = {j \<in> insert i L. (sv(i := s)) j = s'}"
      using mem i False by auto
    ultimately show ?thesis using False by auto
  qed
qed

lemma lists_ok_unlink:
  assumes ok: "lists_ok nx pv h L sv" and i: "i \<in> L"
  shows "lists_ok ((gap_next i nx pv)(i := None)) ((gap_prev i nx pv)(i := None))
           (h(sv i := gap_head i nx (h (sv i)))) (L - {i}) sv"
  unfolding lists_ok_def
proof
  fix s
  obtain xs where xs: "linked_list nx pv (h s) xs" and mem: "set xs = {i \<in> L. sv i = s}"
    using ok unfolding lists_ok_def by blast
  obtain ys where ys: "linked_list nx pv (h (sv i)) ys" and memy: "set ys = {j \<in> L. sv j = sv i}"
    using ok unfolding lists_ok_def by blast
  obtain as bs where split: "ys = as @ i # bs"
    using memy i by (metis (mono_tags, lifting) mem_Collect_eq split_list)
  have gone: "i \<notin> set (as @ bs)" "distinct ys" using ys split by (auto simp: linked_list_def)
  show "\<exists>xs. linked_list ((gap_next i nx pv)(i := None)) ((gap_prev i nx pv)(i := None))
        ((h(sv i := gap_head i nx (h (sv i)))) s) xs \<and> set xs = {j \<in> L - {i}. sv j = s}"
  proof (cases "s = sv i")
    case True
    have "linked_list (gap_next i nx pv) (gap_prev i nx pv) (gap_head i nx (h (sv i))) (as @ bs)"
      by (rule linked_list_unlink) (use ys split in simp)
    then have "linked_list ((gap_next i nx pv)(i := None)) ((gap_prev i nx pv)(i := None))
        (gap_head i nx (h (sv i))) (as @ bs)"
      by (rule linked_list_frame [THEN iffD1, rotated -1]) (use gone in auto)
    moreover have "set (as @ bs) = {j \<in> L - {i}. sv j = s}"
      using memy split gone True by auto
    ultimately show ?thesis using True by (metis fun_upd_same)
  next
    case False
    note nb = linked_list_neighbours [OF ys [unfolded split]]
    have other: "x \<notin> set ys" if "x \<in> set xs" for x using that mem memy False by auto
    have "linked_list ((gap_next i nx pv)(i := None)) ((gap_prev i nx pv)(i := None)) (h s) xs"
    proof (rule linked_list_frame [THEN iffD1, OF _ _ xs])
      show "nx x = ((gap_next i nx pv)(i := None)) x" if "x \<in> set xs" for x
        using other [OF that] nb split by (auto simp: gap_next_def split: option.split)
      show "pv x = ((gap_prev i nx pv)(i := None)) x" if "x \<in> set xs" for x
        using other [OF that] nb split by (auto simp: gap_prev_def split: option.split)
    qed
    moreover have "set xs = {j \<in> L - {i}. sv j = s}" using mem False by auto
    ultimately show ?thesis using False by auto
  qed
qed

lemma set_handle_links:
  "nexts (set_handle i h st) = nexts st" "prevs (set_handle i h st) = prevs st"
  "sources (set_handle i h st) = sources st"
  by (simp_all add: fun_eq_iff)

lemma plain_step_keeps:
  assumes "file_step P K op st st'"
    and "op = F_other \<or> (\<exists>i. op = F_cancel i) \<or> (\<exists>n i. op = F_start n i)"
  shows "nexts st' = nexts st" "prevs st' = prevs st" "impl_list st' = impl_list st"
    "built st' = built st" "service_of st' = service_of st"
  using assms
  by (auto elim!: file_step.cases simp: fun_eq_iff svc_cancel_def on_token_def fs_init_def
      svc_async_read_some_def svc_async_write_some_def svc_async_read_some_at_def
      svc_async_write_some_at_def svc_open_def svc_assign_def svc_close_def run_queued_def
      with_system_def split: if_splits option.splits prod.splits)

definition files_lists_ok :: "'w files \<Rightarrow> bool" where
  "files_lists_ok st = lists_ok (nexts st) (prevs st) (impl_list st) (built st) (service_of st)"

lemma close_for_destruction_keeps:
  assumes "close_for_destruction K i st = (st', r)"
  shows "nexts st' = nexts st" "prevs st' = prevs st" "impl_list st' = impl_list st"
    "built st' = built st" "service_of st' = service_of st" "queued st' = queued st"
    "stopped st' = stopped st"
  using assms
  by (auto simp: close_for_destruction_def on_token_def fun_eq_iff Let_def split: if_splits prod.splits)

lemma push_pop_collapse [simp]:
  "front_prev i h (pv(i := x)) = front_prev i h pv"
  by (auto simp: front_prev_def split: option.split)

lemma files_lists_ok_cong:
  assumes "nexts st' = nexts st" "prevs st' = prevs st" "impl_list st' = impl_list st"
    and "built st' = built st" "service_of st' = service_of st"
  shows "files_lists_ok st' = files_lists_ok st"
  using assms by (simp add: files_lists_ok_def)

lemma files_lists_ok_new:
  assumes "files_lists_ok st" and "i \<notin> built st"
  shows "files_lists_ok (holder_new i s st)"
proof -
  let ?st = "holder_new i s st"
  have "nexts ?st = (nexts st)(i := impl_list st s)" "prevs ?st = front_prev i (impl_list st s) (prevs st)"
    "impl_list ?st = (impl_list st)(s := Some i)" "built ?st = insert i (built st)"
    "service_of ?st = (service_of st)(i := s)"
    by (auto simp: holder_new_def Let_def svc_construct_def on_token_def impl_new_def fun_eq_iff
        push_impl_def front_prev_def split: prod.split option.split)
  then show ?thesis
    using lists_ok_push [OF assms(1) [unfolded files_lists_ok_def] assms(2), of s]
    by (simp add: files_lists_ok_def)
qed

lemma files_lists_ok_move_new:
  assumes "files_lists_ok st" and "i \<notin> built st" and "j \<in> built st"
  shows "files_lists_ok (holder_move_new i j st)"
proof -
  let ?st = "holder_move_new i j st" and ?s = "service_of st j"
  have "nexts ?st = (nexts st)(i := impl_list st ?s)"
    "prevs ?st = front_prev i (impl_list st ?s) (prevs st)"
    "impl_list ?st = (impl_list st)(?s := Some i)" "built ?st = insert i (built st)"
    "service_of ?st = (service_of st)(i := ?s)"
    by (auto simp: holder_move_new_def Let_def svc_move_construct_def impl_new_def fun_eq_iff
        push_impl_def front_prev_def split: prod.split option.split)
  then show ?thesis
    using lists_ok_push [OF assms(1) [unfolded files_lists_ok_def] assms(2), of ?s]
    by (simp add: files_lists_ok_def)
qed

lemma files_lists_ok_unlink:
  assumes "files_lists_ok st" and "i \<in> built st" and "s = service_of st i"
  shows "lists_ok (nexts (unlink_impl s i st)) (prevs (unlink_impl s i st))
           (impl_list (unlink_impl s i st)) (built st - {i}) (service_of st)"
  using lists_ok_unlink [OF assms(1) [unfolded files_lists_ok_def] assms(2)] assms(3) by simp

lemma files_lists_ok_move_assign:
  assumes ok: "files_lists_ok st" and i: "i \<in> built st" and j: "j \<in> built st"
    and m: "holder_move_assign K i j st = (st', r)"
  shows "files_lists_ok st'"
proof (cases "i = j")
  case True
  then show ?thesis using ok m by (simp add: holder_move_assign_def)
next
  case False
  obtain st1 q where c: "close_for_destruction K i st = (st1, q)" by fastforce
  note keeps = close_for_destruction_keeps [OF c]
  have ok1: "files_lists_ok st1" by (rule files_lists_ok_cong [THEN iffD2, OF keeps(1-5) ok])
  let ?s = "service_of st i" and ?t = "service_of st j"
  show ?thesis
  proof (cases q)
    case (Inl e)
    then have "st' = st1" using m c False by (simp add: holder_move_assign_def svc_move_assign_def)
    then show ?thesis using ok1 by simp
  next
    case (Inr u)
    show ?thesis
    proof (cases "?s = ?t")
      case True
      have "nexts st' = nexts st1" "prevs st' = prevs st1" "impl_list st' = impl_list st1"
        "built st' = built st1" "service_of st' = service_of st1"
        using m c False Inr True keeps(5)
        by (auto simp: holder_move_assign_def svc_move_assign_def Let_def fun_eq_iff)
      from files_lists_ok_cong [OF this] show ?thesis using ok1 by simp
    next
      case ne: False
      let ?u = "unlink_impl ?s i st1"
      let ?p = "push_impl ?t i ?u"
      have "lists_ok (nexts ?u) (prevs ?u) (impl_list ?u) (built st1 - {i}) (service_of st1)"
        by (rule files_lists_ok_unlink [OF ok1]) (use i keeps in simp_all)
      from lists_ok_push [OF this, of i ?t]
      have "lists_ok (nexts ?p) (prevs ?p) (impl_list ?p) (built st1) ((service_of st1)(i := ?t))"
        using i keeps(4) by (simp add: insert_absorb)
      moreover
      let ?v = "set_handle j (fh_clear (handles (set_handle i (handles ?u j) ?u) j))
                  (set_handle i (handles ?u j) ?u)"
      have st': "st' = (push_impl ?t i ?v)\<lparr>service_of := (service_of st1)(i := ?t)\<rparr>"
        using m c False Inr ne keeps(5)
        by (simp add: holder_move_assign_def svc_move_assign_def Let_def)
      have "nexts ?v = nexts ?u" "prevs ?v = prevs ?u" "impl_list ?v = impl_list ?u"
        by (simp_all only: set_handle_links on_impl_simps(4))
      then have "nexts st' = nexts ?p" "prevs st' = prevs ?p" "impl_list st' = impl_list ?p"
        "built st' = built st1" "service_of st' = (service_of st1)(i := ?t)"
        unfolding st' by simp_all
      ultimately show ?thesis by (simp add: files_lists_ok_def)
    qed
  qed
qed

lemma files_lists_ok_destroy:
  assumes ok: "files_lists_ok st" and i: "i \<in> built st" and d: "holder_destroy K i st = Some st'"
  shows "files_lists_ok st'"
proof -
  obtain st1 q where c: "close_for_destruction K i st = (st1, q)" by fastforce
  note keeps = close_for_destruction_keeps [OF c]
  have ok1: "files_lists_ok st1" by (rule files_lists_ok_cong [THEN iffD2, OF keeps(1-5) ok])
  have "files_lists_ok (st1\<lparr>built := built st1\<rparr>)" using ok1 by simp
  let ?u = "unlink_impl (service_of st i) i st1"
  have "lists_ok (nexts ?u) (prevs ?u) (impl_list ?u) (built st1 - {i}) (service_of st1)"
    by (rule files_lists_ok_unlink [OF ok1]) (use i keeps in simp_all)
  moreover have "nexts st' = nexts ?u" "prevs st' = prevs ?u" "impl_list st' = impl_list ?u"
      "built st' = built st1 - {i}" "service_of st' = service_of st1"
    using d c by (auto simp: holder_destroy_def svc_destroy_def split: sum.splits)
  ultimately show ?thesis by (simp add: files_lists_ok_def)
qed

lemma file_step_lists_ok:
  assumes "file_step P K op st st'" and "files_lists_ok st"
  shows "files_lists_ok st'"
  using assms
proof (cases rule: file_step.cases)
  case (new i s)
  then show ?thesis using files_lists_ok_new assms(2) by blast
next
  case (move_new i j)
  then show ?thesis using files_lists_ok_move_new assms(2) by blast
next
  case (move_assign i j r)
  then show ?thesis using files_lists_ok_move_assign assms(2) by blast
next
  case (destroy i)
  then show ?thesis using files_lists_ok_destroy assms(2) by blast
next
  case (cancel i ec ec')
  then show ?thesis using files_lists_ok_cong [OF plain_step_keeps [OF assms(1)]] assms(2) by simp
qed (use files_lists_ok_cong [OF plain_step_keeps [OF assms(1)]] assms(2) in simp_all)

section \<open>The tokens\<close>

text \<open>The sources of the files and the tokens \<open>tk\<close> as a system of sources and tokens.\<close>

definition token_view :: "(nat \<Rightarrow> cancellation_token) \<Rightarrow> 'w files \<Rightarrow> token_sys" where
  "token_view tk st = \<lparr>srcs = sources st, alive = built st, toks = tk, blks = control st\<rparr>"

definition tokens_ok :: "'w files \<Rightarrow> token_spec \<Rightarrow> bool" where
  "tokens_ok st A \<longleftrightarrow>
     (\<exists>tk. tokens_in_step (token_view tk st) A \<and> (\<forall>n op. queued st n = Some op \<longrightarrow> tk n = op_token op))"

lemma tokens_okI:
  assumes "tokens_ok st A"
    and "\<And>tk. token_view tk st' = fold token_step ops (token_view tk st)"
    and "\<And>n op. queued st' n = Some op \<Longrightarrow> queued st n = Some op"
  shows "tokens_ok st' (fold spec_step ops A)"
  using assms tokens_in_step_fold unfolding tokens_ok_def by metis

lemma token_view_new:
  assumes "i \<notin> built st"
  shows "token_view tk (holder_new i s st) = fold token_step [Op_new i, Op_reset i] (token_view tk st)"
  using assms
  by (auto simp: token_view_def holder_new_def Let_def svc_construct_def on_token_def impl_new_def
      fun_eq_iff push_impl_def split: prod.split option.split)

lemma token_view_move_new:
  assumes "i \<notin> built st" and "j \<in> built st"
  shows "token_view tk (holder_move_new i j st) =
    fold token_step [Op_new i, Op_move_assign i j] (token_view tk st)"
proof -
  obtain t B where new: "ts_new (control st) = (t, B)" by fastforce
  obtain m B' where mv: "ts_move_assign i j ((sources st)(i := t)) B = (m, B')" by fastforce
  have ij: "i \<noteq> j" using assms by blast
  let ?st0 = "st\<lparr>service_of := (service_of st)(i := service_of st j)\<rparr>"
  let ?st1 = "impl_new i ?st0"
  let ?st2 = "set_handle i (handles ?st1 j) ?st1"
  let ?st3 = "set_handle j (fh_clear (handles ?st2 j)) ?st2"
  have src: "sources ?st3 = (sources st)(i := t)" and B: "control ?st3 = B"
    using new by (simp_all add: set_handle_links) (simp_all add: impl_new_def fun_eq_iff)
  have "svc_move_construct (service_of st j) i j ?st1 =
      push_impl (service_of st j) i
        (?st3\<lparr>impls := (\<lambda>k. (impls ?st3 k)\<lparr>impl_token := m k\<rparr>), control := B'\<rparr>)"
    unfolding svc_move_construct_def Let_def src B mv by simp
  then have "sources (holder_move_new i j st) = m" "control (holder_move_new i j st) = B'"
    "built (holder_move_new i j st) = insert i (built st)"
    using new by (simp_all add: holder_move_new_def Let_def) (simp_all add: impl_new_def)
  then show ?thesis
    using assms ij new mv by (simp add: token_view_def)
qed

lemma token_view_close_for_destruction:
  assumes "close_for_destruction K i st = (st', r)" and "i \<in> built st"
  shows "token_view tk st' =
    fold token_step (if svc_is_open i st then [Op_destroy i] else []) (token_view tk st)"
  using assms
  by (auto simp: token_view_def close_for_destruction_def on_token_def svc_is_open_def Let_def
      fun_eq_iff split: if_splits prod.splits)

lemma token_view_move_assign:
  assumes m: "holder_move_assign K i j st = (st', r)" and i: "i \<in> built st" and ij: "i \<noteq> j"
  shows "token_view tk st' =
    fold token_step (if svc_is_open i st then [Op_destroy i] else []) (token_view tk st)"
    and "queued st' = queued st"
proof -
  obtain st1 q where c: "close_for_destruction K i st = (st1, q)" by fastforce
  have "sources st' k = sources st1 k" "built st' = built st1" "control st' = control st1"
    "queued st' = queued st1" for k
    using m c ij
    by (auto simp: holder_move_assign_def svc_move_assign_def Let_def split: sum.splits if_splits)
  then have "token_view tk st' = token_view tk st1" and "queued st' = queued st"
    using close_for_destruction_keeps [OF c] by (simp_all add: token_view_def)
  then show "token_view tk st' =
      fold token_step (if svc_is_open i st then [Op_destroy i] else []) (token_view tk st)"
    and "queued st' = queued st"
    using token_view_close_for_destruction [OF c i, of tk] by simp_all
qed

lemma token_view_destroy:
  assumes d: "holder_destroy K i st = Some st'" and i: "i \<in> built st"
  shows "token_view tk st' = fold token_step (token_ops (F_destroy i) st) (token_view tk st)"
    and "queued st' = queued st"
proof -
  obtain st1 q where c: "close_for_destruction K i st = (st1, q)" by fastforce
  note keeps = close_for_destruction_keeps [OF c]
  have "sources st' = sources st1" "built st' = built st1 - {i}" "queued st' = queued st1"
    "control st' = sp_drop (ts_ptr (sources st1 i)) (control st1)"
    using d c by (auto simp: holder_destroy_def svc_destroy_def split: sum.splits)
  then have "token_view tk st' = token_step (Op_delete i) (token_view tk st1)"
    using i keeps(4) by (simp add: token_view_def)
  then show "token_view tk st' = fold token_step (token_ops (F_destroy i) st) (token_view tk st)"
    using token_view_close_for_destruction [OF c i, of tk] by simp
  show "queued st' = queued st" using keeps(6) \<open>queued st' = queued st1\<close> by simp
qed

lemma plain_step_tokens:
  assumes "file_step P K op st st'" and "op = F_other \<or> (\<exists>i. op = F_cancel i)"
  shows "token_view tk st' = fold token_step (token_ops op st) (token_view tk st)"
    and "queued st' n = Some q \<Longrightarrow> queued st n = Some q"
  using assms
  by (auto elim!: file_step.cases simp: token_view_def fun_eq_iff svc_cancel_def on_token_def
      svc_is_open_def svc_open_def svc_assign_def svc_close_def run_queued_def with_system_def
      split: if_splits option.splits prod.splits)

lemma start_step:
  assumes "file_step P K (F_start n i) st st'"
  obtains impl where "st' = fs_init n impl (sources st i) (service_of st i) st" and "i \<in> built st"
  using assms
  by (auto elim!: file_step.cases simp: svc_async_read_some_def svc_async_write_some_def
      svc_async_read_some_at_def svc_async_write_some_at_def)

lemma tokens_ok_start:
  assumes ok: "tokens_ok st A" and step: "file_step P K (F_start n i) st st'"
  shows "tokens_ok st' (fold spec_step (token_ops (F_start n i) st) A)"
proof -
  obtain impl where st': "st' = fs_init n impl (sources st i) (service_of st i) st"
    and i: "i \<in> built st"
    by (rule start_step [OF step])
  obtain tk where tk: "tokens_in_step (token_view tk st) A"
      "\<forall>n op. queued st n = Some op \<longrightarrow> tk n = op_token op"
    using ok unfolding tokens_ok_def by blast
  let ?tk = "tk(n := ct_new (sources st i))"
  have "token_view ?tk st' = token_step (Op_token n i) (token_view tk st)"
    using i by (simp add: token_view_def st' fs_init_def)
  then have "tokens_in_step (token_view ?tk st') (spec_step (Op_token n i) A)"
    using tokens_in_step_step [OF tk(1)] by metis
  moreover have "\<forall>n op. queued st' n = Some op \<longrightarrow> ?tk n = op_token op"
    using tk(2) by (auto simp: st' fs_init_def)
  ultimately have "tokens_ok st' (spec_step (Op_token n i) A)"
    unfolding tokens_ok_def by blast
  then show ?thesis by simp
qed

lemma file_step_tokens_ok:
  assumes "file_step P K op st st'" and "tokens_ok st A"
  shows "tokens_ok st' (fold spec_step (token_ops op st) A)"
  using assms
proof (cases rule: file_step.cases)
  case (new i s)
  have "queued (holder_new i s st) = queued st"
    by (simp add: holder_new_def Let_def svc_construct_def on_token_def impl_new_def split: prod.split)
  then show ?thesis
    using tokens_okI [OF assms(2) token_view_new [where i = i and st = st and s = s]] new by simp
next
  case (move_new i j)
  have "queued (holder_move_new i j st) = queued st"
    by (simp add: holder_move_new_def Let_def svc_move_construct_def impl_new_def split: prod.split)
  then show ?thesis
    using tokens_okI [OF assms(2) token_view_move_new [where i = i and st = st and j = j]] move_new by simp
next
  case (move_assign i j r)
  show ?thesis
  proof (cases "i = j")
    case True
    then have "st' = st" using move_assign by (simp add: holder_move_assign_def)
    then show ?thesis using assms(2) move_assign True by simp
  next
    case False
    note v = token_view_move_assign [OF move_assign(4) move_assign(2) False]
    have "tokens_ok st' (fold spec_step (if svc_is_open i st then [Op_destroy i] else []) A)"
      by (rule tokens_okI [OF assms(2) v(1)]) (simp add: v(2))
    then show ?thesis using move_assign(1) False by simp
  qed
next
  case (destroy i)
  note v = token_view_destroy [OF destroy(3,2)]
  have "tokens_ok st' (fold spec_step (token_ops (F_destroy i) st) A)"
    by (rule tokens_okI [OF assms(2) v(1)]) (simp add: v(2))
  then show ?thesis using destroy(1) by simp
next
  case (cancel i ec ec')
  show ?thesis
    by (rule tokens_okI [OF assms(2) plain_step_tokens [OF assms(1)]]) (use cancel in auto)
next
  case (start_read i n bufs)
  then show ?thesis using tokens_ok_start assms by blast
next
  case (start_write i n cbufs)
  then show ?thesis using tokens_ok_start assms by blast
next
  case (start_read_at i n offset bufs)
  then show ?thesis using tokens_ok_start assms by blast
next
  case (start_write_at i n offset cbufs)
  then show ?thesis using tokens_ok_start assms by blast
qed (rule tokens_okI [OF assms(2) plain_step_tokens [OF assms(1)]]; use assms in auto)+

lemma file_run_ok:
  assumes "file_run P K st A"
  shows "files_lists_ok st \<and> tokens_ok st A"
  using assms
proof (induction rule: file_run.induct)
  case (start st)
  then have "files_lists_ok st" by (simp add: files_start_def files_lists_ok_def lists_ok_def)
  moreover have "tokens_in_step (token_view (\<lambda>_. \<lparr>ct_block = None\<rparr>) st) spec_start"
    using start
    by (simp add: files_start_def tokens_in_step_def token_view_def linked_def block_of_def
        spec_start_def token_start_def)
  ultimately show ?case using start by (auto simp: tokens_ok_def files_start_def)
next
  case (step st A op st')
  then show ?case using file_step_lists_ok file_step_tokens_ok by blast
qed

lemma op_cancelled_iff:
  assumes "file_run P K st A" and "queued st n = Some op"
  shows "ct_cancelled (op_token op) (control st) \<longleftrightarrow> owner A n = None"
proof -
  obtain tk where tk: "tokens_in_step (token_view tk st) A" and q: "tk n = op_token op"
    using file_run_ok [OF assms(1)] assms(2) unfolding tokens_ok_def by blast
  show ?thesis using cancelled_iff_unowned [OF tk, of n] q by (simp add: token_view_def)
qed

section \<open>Shutting a service down\<close>

lemma close_for_destruction_handles:
  assumes "close_for_destruction K i st = (st', r)"
  shows "\<not> svc_is_open i st'" and "k \<noteq> i \<Longrightarrow> handles st' k = handles st k"
  using assms
  by (auto simp: close_for_destruction_def on_token_def Let_def svc_is_open_def fh_is_open_def
      fh_close_throwing_def fh_close_def split: if_splits prod.splits)

text \<open>The system after the calls of \<^verbatim>\<open>close()\<close> on some descriptors, one after the other.\<close>

definition close_all :: "'w kernel \<Rightarrow> int list \<Rightarrow> 'w \<Rightarrow> 'w" where
  "close_all K fds w = fold (\<lambda>fd w. fst (k_close K w fd)) fds w"

lemma close_all_simps [simp]:
  "close_all K [] w = w" "close_all K (fd # fds) w = close_all K fds (fst (k_close K w fd))"
  by (simp_all add: close_all_def)







section \<open>A program with two files\<close>

definition sample_files :: "int list files" where
  "sample_files =
     \<lparr>built = {}, service_of = \<lambda>_. 0,
      impls = \<lambda>_. \<lparr>impl_handle = fh_default, impl_token = \<lparr>ts_ptr = sp_empty\<rparr>,
                   impl_next = None, impl_prev = None\<rparr>,
      impl_list = \<lambda>_. None, control = blks token_start, queued = \<lambda>_. None, stopped = {},
      system = [0]\<rparr>"

definition two_files :: "int list files" where
  "two_files = holder_new 4 0 (holder_new 3 0 sample_files)"

text \<open>The first one is given the descriptor 0 and starts to read four bytes.\<close>

definition busy_files :: "int list files" where
  "busy_files = svc_async_read_some 0 3 [4] 5 (fst (svc_assign 3 0 two_files))"

lemmas sample_defs = sample_files_def two_files_def busy_files_def holder_new_def svc_construct_def
  impl_new_def on_token_def ts_new_def ts_reset_def sp_make_def sp_drop_def push_impl_def Let_def
  token_start_def sp_empty_def svc_assign_def fh_default_def fh_new_def fh_is_open_def
  svc_async_read_some_def fs_init_def ct_new_def

lemma two_files_facts:
  "built two_files = {3, 4}" "service_of two_files 3 = 0" "service_of two_files 4 = 0"
  "queued two_files = (\<lambda>_. None)" "stopped two_files = {}" "system two_files = [0]"
  "impl_handle (impls two_files 3) = fh_default" "impl_handle (impls two_files 4) = fh_default"
  by (auto simp: sample_defs)

lemma two_files_run:
  "file_run linux list_kernel two_files
     (fold spec_step [Op_new 3, Op_reset 3, Op_new 4, Op_reset 4] spec_start)"
proof -
  have "file_run linux list_kernel sample_files spec_start"
    by (rule file_run.start) (simp add: files_start_def sample_files_def)
  moreover have "file_step linux list_kernel (F_new 3 0) sample_files (holder_new 3 0 sample_files)"
    by (rule file_step.new) (simp add: sample_files_def)
  moreover have "file_step linux list_kernel (F_new 4 0) (holder_new 3 0 sample_files) two_files"
    unfolding two_files_def by (rule file_step.new) (simp add: sample_defs)
  ultimately have "file_run linux list_kernel two_files
      (fold spec_step (token_ops (F_new 4 0) (holder_new 3 0 sample_files))
        (fold spec_step (token_ops (F_new 3 0) sample_files) spec_start))"
    by (blast intro: file_run.step)
  then show ?thesis by simp
qed

lemma busy_files_run:
  "file_run linux list_kernel busy_files
     (fold spec_step [Op_new 3, Op_reset 3, Op_new 4, Op_reset 4, Op_token 5 3] spec_start)"
proof -
  let ?st = "fst (svc_assign 3 0 two_files)"
  have "file_step linux list_kernel F_other two_files ?st"
    by (rule file_step.assign [of 3 _ 0 _ no_error])
      (simp_all add: two_files_facts svc_assign_def fh_default_def fh_is_open_def)
  moreover have "service_of ?st 3 = 0" "built ?st = {3, 4}" "queued ?st = (\<lambda>_. None)"
    by (simp_all add: svc_assign_def two_files_facts)
  then have "file_step linux list_kernel (F_start 5 3) ?st busy_files"
    using file_step.start_read [of 3 ?st 5 linux list_kernel "[4]"] by (simp add: busy_files_def)
  ultimately have "file_run linux list_kernel busy_files
      (fold spec_step (token_ops (F_start 5 3) ?st) (fold spec_step (token_ops F_other two_files)
         (fold spec_step [Op_new 3, Op_reset 3, Op_new 4, Op_reset 4] spec_start)))"
    using two_files_run by (blast intro: file_run.step)
  then show ?thesis by simp
qed

section \<open>Properties\<close>

text \<open>
  C5. Whatever a program does with files of any number of services, the implementations that exist
  and belong to a service are, each once, the nodes of a proper doubly linked list that starts at the
  pointer of this service: \<^verbatim>\<open>next_\<close> leads through all of them to null, \<^verbatim>\<open>prev_\<close> back.
\<close>

theorem implementation_lists_well_formed:
  assumes "file_run P K st A"
  shows "\<exists>xs. linked_list (\<lambda>i. impl_next (impls st i)) (\<lambda>i. impl_prev (impls st i)) (impl_list st s) xs
    \<and> set xs = {i \<in> built st. service_of st i = s}"
  using file_run_ok [OF assms] by (simp add: files_lists_ok_def lists_ok_def)

theorem implementation_lists_well_formed_witness:
  "\<exists>xs. linked_list (\<lambda>i. impl_next (impls two_files i)) (\<lambda>i. impl_prev (impls two_files i))
     (impl_list two_files 0) xs \<and> set xs = {3, 4}"
proof -
  have "{i \<in> built two_files. service_of two_files i = 0} = {3, 4}"
    by (auto simp: two_files_facts)
  then show ?thesis using implementation_lists_well_formed [OF two_files_run, of 0] by simp
qed

text \<open>
  C3. A queued operation that a thread of the pool calls aborts, without a system call, exactly if
  by the specification no file can cancel it any more: the file it was started on was cancelled while
  open, or destroyed or assigned to since, or had no working token source to begin with. Otherwise it
  makes its call, on the handle the file had when it was started, and passes on the result.
\<close>

theorem queued_operation_result:
  assumes "file_run P K st A" and "queued st n = Some op" and "op_service op \<notin> stopped st"
  shows "run_queued P K n st =
    (if owner A n = None
     then Some (st\<lparr>queued := (queued st)(n := None)\<rparr>, ec_asio operation_aborted, 0, [])
     else map_option (with_system (st\<lparr>queued := (queued st)(n := None)\<rparr>))
            (fs_impl_call P K (op_impl op) (system st)))"
  using assms(2,3) op_cancelled_iff [OF assms(1,2)]
  by (simp add: run_queued_def fs_op_call_def with_system_def)

theorem queued_operation_result_witness:
  "run_queued linux list_kernel 5 busy_files =
     Some (busy_files\<lparr>queued := (queued busy_files)(5 := None)\<rparr>, ec_system 9, 0, [])"
proof -
  have op: "queued busy_files 5 =
      Some \<lparr>op_token = ct_new (impl_token (impls two_files 3)), op_impl = Fs_read (fh_new 0) [4],
           op_service = 0\<rparr>"
    by (simp add: busy_files_def svc_async_read_some_def fs_init_def svc_assign_def two_files_facts
        fh_default_def fh_is_open_def)
  have "stopped busy_files = {}" "system busy_files = [0]"
    by (simp_all add: busy_files_def svc_async_read_some_def fs_init_def svc_assign_def two_files_facts
        fh_default_def fh_is_open_def)
  moreover have "retry linux (\<lambda>w. k_readv list_kernel w 0 [4]) [0] = Some ([0], Inl 9)"
    by (subst retry.simps) (simp add: list_kernel_def linux_def)
  ultimately show ?thesis
    using queued_operation_result [OF busy_files_run op]
    by (simp add: spec_start_def cancel_all_def fh_read_some_def posix_readv_def fh_new_def with_system_def set_error_def)
qed



text \<open>
  A file that was open and is assigned another one takes its handle, but its token source
  stays destroyed: every operation started on it aborts, although the file is open if the other was.
\<close>

theorem assigned_file_aborts:
  assumes "svc_is_open i st" and "i \<noteq> j" and "holder_move_assign K i j st = (st', Inr ())"
    and "s \<notin> stopped st"
  shows "svc_is_open i st' = svc_is_open j st
    \<and> run_queued P K n (svc_async_read_some s i bufs n st') =
        Some (st'\<lparr>queued := (queued st')(n := None)\<rparr>, ec_asio operation_aborted, 0, [])"
proof -
  obtain st1 q where c: "close_for_destruction K i st = (st1, q)" by fastforce
  have t: "sp_block (ts_ptr (sources st1 i)) = None"
    using c assms(1)
    by (auto simp: close_for_destruction_def svc_is_open_def on_token_def ts_destroy_def sp_empty_def
        Let_def split: prod.splits)
  have j: "handles st1 j = handles st j" and "stopped st1 = stopped st"
    using close_for_destruction_handles(2) [OF c] close_for_destruction_keeps(7) [OF c] assms(2)
    by auto
  moreover have "sources st' i = sources st1 i" "handles st' i = handles st1 j" "stopped st' = stopped st1"
    using assms(2,3) c
    by (auto simp: holder_move_assign_def svc_move_assign_def Let_def split: sum.splits if_splits)
  ultimately show ?thesis
    using t assms(4)
    by (simp add: svc_is_open_def run_queued_def svc_async_read_some_def fs_init_def fs_op_call_def
        ct_new_def ct_cancelled_def with_system_def)
qed

theorem assigned_file_aborts_witness:
  "\<exists>st'. holder_move_assign list_kernel 3 4 busy_files = (st', Inr ())
    \<and> run_queued linux list_kernel 6 (svc_async_read_some 0 3 [4] 6 st') =
        Some (st'\<lparr>queued := (queued st')(6 := None)\<rparr>, ec_asio operation_aborted, 0, [])"
proof -
  have o: "svc_is_open 3 busy_files" and s: "(0::nat) \<notin> stopped busy_files"
    by (simp_all add: busy_files_def svc_async_read_some_def fs_init_def svc_assign_def two_files_facts
        fh_default_def fh_is_open_def svc_is_open_def fh_new_def)
  obtain st' r where m: "holder_move_assign list_kernel 3 4 busy_files = (st', r)" by fastforce
  moreover have "r = Inr ()"
  proof -
    obtain st1 q where c: "close_for_destruction list_kernel 3 busy_files = (st1, q)" by fastforce
    then have "q = Inr ()"
      by (auto simp: close_for_destruction_def Let_def fh_close_throwing_def fh_close_def
          posix_close_def ec_of_def list_kernel_def throwing_unit_def throw_error_def split: if_splits prod.splits)
    then show ?thesis using m c
      by (auto simp: holder_move_assign_def svc_move_assign_def Let_def split: if_splits)
  qed
  ultimately show ?thesis using assigned_file_aborts [OF o _ _ s, of 4 list_kernel st' linux 6 "[4]"] by simp
qed

end
