(* ===== verification/WholeFile.thy ===== *)
theory WholeFile
  imports UniqueHandle
begin

text \<open>
  \<^verbatim>\<open>read_file.hpp\<close> and \<^verbatim>\<open>write_file.hpp\<close>: reading a whole file into a container or into
  buffers, and writing one. \<^verbatim>\<open>asio::read\<close> and \<^verbatim>\<open>asio::write\<close> are arguments of the
  functions; each takes the operation of the stream it calls. A container is the list of its bytes;
  its allocations succeed.
\<close>

section \<open>asio::read and asio::write\<close>

type_synonym 'w read_op = "nat \<Rightarrow> 'w \<Rightarrow> ('w \<times> error_code \<times> bytes) option"
type_synonym 'w write_op = "bytes \<Rightarrow> 'w \<Rightarrow> ('w \<times> error_code \<times> nat) option"

text \<open>
  What the documentation of asio says of \<^verbatim>\<open>read\<close>: it returns when the buffers are full or on an
  error, and it is composed of calls of \<^verbatim>\<open>read_some\<close>, each for some of the space that is left.
\<close>

definition asio_read_ok :: "('w read_op \<Rightarrow> 'w read_op) \<Rightarrow> bool" where
  "asio_read_ok ar \<longleftrightarrow>
     (\<forall>rd w. ar rd 0 w = Some (w, no_error, []))
     \<and> (\<forall>rd n w. 0 < n \<longrightarrow> (\<exists>k. 0 < k \<and> k \<le> n \<and> ar rd n w =
          (case rd k w of
             None \<Rightarrow> None
           | Some (w1, ec, bs) \<Rightarrow>
               if ec_failed ec then Some (w1, ec, bs)
               else (case ar rd (n - length bs) w1 of
                       None \<Rightarrow> None
                     | Some (w2, ec2, cs) \<Rightarrow> Some (w2, ec2, bs @ cs)))))"

definition asio_write_ok :: "('w write_op \<Rightarrow> 'w write_op) \<Rightarrow> bool" where
  "asio_write_ok aw \<longleftrightarrow>
     (\<forall>wr w. aw wr [] w = Some (w, no_error, 0))
     \<and> (\<forall>wr bs w. bs \<noteq> [] \<longrightarrow> (\<exists>k. 0 < k \<and> k \<le> length bs \<and> aw wr bs w =
          (case wr (take k bs) w of
             None \<Rightarrow> None
           | Some (w1, ec, n) \<Rightarrow>
               if ec_failed ec then Some (w1, ec, n)
               else (case aw wr (drop n bs) w1 of
                       None \<Rightarrow> None
                     | Some (w2, ec2, m) \<Rightarrow> Some (w2, ec2, n + m)))))"

section \<open>The functions\<close>

definition resize_bytes :: "nat \<Rightarrow> bytes \<Rightarrow> bytes" where
  "resize_bytes n c = take n c @ replicate (n - length c) 0"

text \<open>\<open>size_type_max\<close> and \<open>max_size\<close> are the limits of the container.\<close>

definition read_file_handle ::
    "platform \<Rightarrow> 'w kernel \<Rightarrow> ('w read_op \<Rightarrow> 'w read_op) \<Rightarrow> nat \<Rightarrow> nat \<Rightarrow> file_handle \<Rightarrow> bytes \<Rightarrow> 'w
      \<Rightarrow> ('w \<times> error_code \<times> bytes) option" where
  "read_file_handle P K ar size_type_max max_size file c w =
     (case fh_size K file w of
        (w, ec, sz) \<Rightarrow>
          if ec_failed ec then Some (w, ec, c)
          else if sz > size_type_max \<or> sz > max_size then Some (w, ec_asio message_size, c)
          else if sz \<noteq> 0 then
            (let c = resize_bytes sz c in
             case ar (\<lambda>n. fh_read_some P K file [n]) (length c) w of
               None \<Rightarrow> None
             | Some (w, ec, bs) \<Rightarrow> Some (w, ec, bs @ drop (length bs) c))
          else Some (w, ec, []))"

definition read_file_handle_throwing where
  "read_file_handle_throwing P K ar size_type_max max_size file c w =
     map_option (throwing ''read_file'') (read_file_handle P K ar size_type_max max_size file c w)"

text \<open>The arguments of \<^verbatim>\<open>open\<close>; nothing is left of what the object held before.\<close>

definition read_args :: "platform \<Rightarrow> open_args" where
  "read_args P = open_args_new P open_args_default (access_read OR open_existing) create_default 0"

definition write_args :: "platform \<Rightarrow> open_args" where
  "write_args P = open_args_new P open_args_default (access_write OR create_always) create_default 0"

text \<open>The handle is destroyed, and so closed, at the end of the function.\<close>

definition read_file ::
    "platform \<Rightarrow> 'w kernel \<Rightarrow> ('w read_op \<Rightarrow> 'w read_op) \<Rightarrow> nat \<Rightarrow> nat \<Rightarrow> string \<Rightarrow> bytes \<Rightarrow> 'w
      \<Rightarrow> ('w \<times> error_code \<times> bytes) option" where
  "read_file P K ar size_type_max max_size filename c w =
     (case open_file P K filename (read_args P) w of
        None \<Rightarrow> None
      | Some (w, ec, file) \<Rightarrow>
          if \<not> ec_failed ec then
            (case read_file_handle P K ar size_type_max max_size (ufh_get file) c w of
               None \<Rightarrow> None
             | Some (w, ec, c) \<Rightarrow> Some (ufh_destroy K file w, ec, c))
          else Some (ufh_destroy K file w, ec, c))"

definition read_file_throwing where
  "read_file_throwing P K ar size_type_max max_size filename c w =
     map_option (throwing ''read_file'') (read_file P K ar size_type_max max_size filename c w)"

text \<open>Into buffers of \<open>n\<close> bytes altogether; the result are the bytes that were read.\<close>

definition read_file_handle_buffers ::
    "platform \<Rightarrow> 'w kernel \<Rightarrow> ('w read_op \<Rightarrow> 'w read_op) \<Rightarrow> file_handle \<Rightarrow> nat \<Rightarrow> 'w
      \<Rightarrow> ('w \<times> error_code \<times> bytes) option" where
  "read_file_handle_buffers P K ar file n w = ar (\<lambda>n. fh_read_some P K file [n]) n w"

definition read_file_handle_buffers_throwing where
  "read_file_handle_buffers_throwing P K ar file n w =
     map_option (throwing ''read_file'') (read_file_handle_buffers P K ar file n w)"

definition read_file_buffers ::
    "platform \<Rightarrow> 'w kernel \<Rightarrow> ('w read_op \<Rightarrow> 'w read_op) \<Rightarrow> string \<Rightarrow> nat \<Rightarrow> 'w
      \<Rightarrow> ('w \<times> error_code \<times> bytes) option" where
  "read_file_buffers P K ar filename n w =
     (case open_file P K filename (read_args P) w of
        None \<Rightarrow> None
      | Some (w, ec, file) \<Rightarrow>
          if \<not> ec_failed ec then
            (case read_file_handle_buffers P K ar (ufh_get file) n w of
               None \<Rightarrow> None
             | Some (w, ec, bs) \<Rightarrow> Some (ufh_destroy K file w, ec, bs))
          else Some (ufh_destroy K file w, ec, []))"

definition read_file_buffers_throwing where
  "read_file_buffers_throwing P K ar filename n w =
     map_option (throwing ''read_file'') (read_file_buffers P K ar filename n w)"

definition write_file ::
    "platform \<Rightarrow> 'w kernel \<Rightarrow> ('w write_op \<Rightarrow> 'w write_op) \<Rightarrow> string \<Rightarrow> bytes \<Rightarrow> 'w
      \<Rightarrow> ('w \<times> error_code) option" where
  "write_file P K aw filename bs w =
     (case open_file P K filename (write_args P) w of
        None \<Rightarrow> None
      | Some (w, ec, file) \<Rightarrow>
          if \<not> ec_failed ec then
            (case aw (\<lambda>cs. ufh_write_some P K file [cs]) bs w of
               None \<Rightarrow> None
             | Some (w, ec, n) \<Rightarrow> Some (ufh_destroy K file w, ec))
          else Some (ufh_destroy K file w, ec))"

definition write_file_throwing where
  "write_file_throwing P K aw filename bs w =
     map_option (throwing_unit ''write_file'') (write_file P K aw filename bs w)"

section \<open>Streams\<close>

text \<open>
  What \<^verbatim>\<open>asio::read\<close> needs of a stream it reads: \<open>rest\<close> are the bytes to come. A read gives a
  non-empty start of them, or an error and nothing; the end of file is one, when none are left. \<open>c\<close>
  is whatever the stream is made of besides its state.
\<close>

locale read_stream =
  fixes rd :: "'c \<Rightarrow> 'w read_op"
    and rest :: "'c \<Rightarrow> 'w \<Rightarrow> bytes"
    and ok :: "'c \<Rightarrow> 'w \<Rightarrow> bool"
  assumes reads: "ok c w \<Longrightarrow> 0 < n \<Longrightarrow> \<exists>w' ec bs. rd c n w = Some (w', ec, bs) \<and> ok c w'
      \<and> rest c w = bs @ rest c w' \<and> length bs \<le> n \<and> (ec_failed ec \<longleftrightarrow> bs = [])
      \<and> (ec = ec_asio eof \<longrightarrow> rest c w = [])
      \<and> (ec_failed ec \<longrightarrow> ec = ec_asio eof \<or> (\<exists>e. ec = ec_system e))"
begin

lemma read_all:
  assumes ar: "asio_read_ok ar" and "ok c w"
  shows "\<exists>w' ec bs. ar (rd c) n w = Some (w', ec, bs) \<and> ok c w' \<and> rest c w = bs @ rest c w'
      \<and> length bs \<le> n \<and> (ec_failed ec \<longleftrightarrow> length bs < n) \<and> (ec = ec_asio eof \<longrightarrow> rest c w' = [])
      \<and> (ec_failed ec \<longrightarrow> ec = ec_asio eof \<or> (\<exists>e. ec = ec_system e))"
  using assms(2)
proof (induction n arbitrary: w rule: less_induct)
  case (less n)
  show ?case
  proof (cases "n = 0")
    case True
    then show ?thesis using ar less.prems by (simp add: asio_read_ok_def)
  next
    case False
    then obtain k where k: "0 < k" "k \<le> n" and step: "ar (rd c) n w =
        (case rd c k w of
             None \<Rightarrow> None
           | Some (w1, ec, bs) \<Rightarrow>
               if ec_failed ec then Some (w1, ec, bs)
               else (case ar (rd c) (n - length bs) w1 of
                       None \<Rightarrow> None
                     | Some (w2, ec2, cs) \<Rightarrow> Some (w2, ec2, bs @ cs)))"
      using ar unfolding asio_read_ok_def by blast
    obtain w1 ec bs where r: "rd c k w = Some (w1, ec, bs)" "ok c w1" "rest c w = bs @ rest c w1"
      "length bs \<le> k" "ec_failed ec \<longleftrightarrow> bs = []" "ec = ec_asio eof \<longrightarrow> rest c w = []"
      "ec_failed ec \<longrightarrow> ec = ec_asio eof \<or> (\<exists>e. ec = ec_system e)"
      using reads [OF less.prems k(1)] by blast
    show ?thesis
    proof (cases "ec_failed ec")
      case True
      then show ?thesis using r k step by simp
    next
      case False
      then have "n - length bs < n" using r(5) \<open>n \<noteq> 0\<close> by simp
      from less.IH [OF this r(2)] obtain w2 ec2 cs where "ar (rd c) (n - length bs) w1 = Some (w2, ec2, cs)"
        "ok c w2" "rest c w1 = cs @ rest c w2" "length cs \<le> n - length bs"
        "ec_failed ec2 \<longleftrightarrow> length cs < n - length bs" "ec2 = ec_asio eof \<longrightarrow> rest c w2 = []"
        "ec_failed ec2 \<longrightarrow> ec2 = ec_asio eof \<or> (\<exists>e. ec2 = ec_system e)"
        by blast
      then show ?thesis using False r k step by auto
    qed
  qed
qed

end

text \<open>And of one it writes: \<open>written\<close> are the bytes written so far.\<close>

locale write_stream =
  fixes wr :: "'c \<Rightarrow> 'w write_op"
    and written :: "'c \<Rightarrow> 'w \<Rightarrow> bytes"
    and ok :: "'c \<Rightarrow> 'w \<Rightarrow> bool"
  assumes writes: "ok c w \<Longrightarrow> bs \<noteq> [] \<Longrightarrow> \<exists>w' ec n. wr c bs w = Some (w', ec, n) \<and> ok c w'
      \<and> n \<le> length bs \<and> written c w' = written c w @ take n bs \<and> (ec_failed ec \<longleftrightarrow> n = 0)"
begin

lemma write_all:
  assumes aw: "asio_write_ok aw" and "ok c w"
  shows "\<exists>w' ec n. aw (wr c) bs w = Some (w', ec, n) \<and> ok c w' \<and> n \<le> length bs
      \<and> written c w' = written c w @ take n bs \<and> (ec_failed ec \<longleftrightarrow> n < length bs)"
  using assms(2)
proof (induction "length bs" arbitrary: bs w rule: less_induct)
  case less
  show ?case
  proof (cases "bs = []")
    case True
    then show ?thesis using aw less.prems by (simp add: asio_write_ok_def)
  next
    case False
    then obtain k where k: "0 < k" "k \<le> length bs" and step: "aw (wr c) bs w =
        (case wr c (take k bs) w of
             None \<Rightarrow> None
           | Some (w1, ec, n) \<Rightarrow>
               if ec_failed ec then Some (w1, ec, n)
               else (case aw (wr c) (drop n bs) w1 of
                       None \<Rightarrow> None
                     | Some (w2, ec2, m) \<Rightarrow> Some (w2, ec2, n + m)))"
      using aw unfolding asio_write_ok_def by blast
    have "take k bs \<noteq> []" using k by auto
    then obtain w1 ec n where r: "wr c (take k bs) w = Some (w1, ec, n)" "ok c w1" "n \<le> k"
      "written c w1 = written c w @ take n bs" "ec_failed ec \<longleftrightarrow> n = 0"
      using writes [OF less.prems, of "take k bs"] k by (auto simp: min_absorb1 min_absorb2)
    show ?thesis
    proof (cases "ec_failed ec")
      case True
      then show ?thesis using r k step \<open>bs \<noteq> []\<close> by simp
    next
      case False
      then have "length (drop n bs) < length bs" using r(5) \<open>bs \<noteq> []\<close> by simp
      from less.hyps [OF this r(2)] obtain w2 ec2 m where "aw (wr c) (drop n bs) w1 = Some (w2, ec2, m)"
        "ok c w2" "m \<le> length bs - n" "written c w2 = written c w1 @ take m (drop n bs)"
        "ec_failed ec2 \<longleftrightarrow> m < length bs - n"
        by auto
      then show ?thesis using False r k step by (auto simp: take_add)
    qed
  qed
qed

end

section \<open>Files\<close>

text \<open>
  What the system promises of regular files that nobody else changes. The state is seen as the bytes
  of every file and, for every descriptor, the file it is open on and its position. A call that fails
  changes neither, and can be interrupted only so often: \<open>intr\<close> bounds it.
\<close>

record fs_view =
  files :: "string \<Rightarrow> bytes option"
  fdtab :: "int \<Rightarrow> (string \<times> nat) option"

definition fails :: "platform \<Rightarrow> ('w \<Rightarrow> fs_view) \<Rightarrow> ('w \<Rightarrow> nat) \<Rightarrow> 'w \<Rightarrow> 'w \<Rightarrow> nat \<Rightarrow> bool" where
  "fails P view intr w w' e \<longleftrightarrow> e \<noteq> 0 \<and> view w' = view w \<and> (e = EINTR P \<longrightarrow> intr w' < intr w)"

definition open_law :: "platform \<Rightarrow> 'w kernel \<Rightarrow> ('w \<Rightarrow> fs_view) \<Rightarrow> ('w \<Rightarrow> nat) \<Rightarrow> bool" where
  "open_law P K view intr \<longleftrightarrow>
     (\<forall>w path flags mode. case k_open K w path flags mode of
        (w', Inl e) \<Rightarrow> fails P view intr w w' e
      | (w', Inr fd) \<Rightarrow>
          fd \<noteq> - 1 \<and> fdtab (view w) fd = None
          \<and> (files (view w) path = None \<longrightarrow> flags AND O_CREAT P \<noteq> 0)
          \<and> view w' =
              \<lparr>files = (if flags AND O_TRUNC P \<noteq> 0 \<or> files (view w) path = None
                        then (files (view w))(path \<mapsto> []) else files (view w)),
               fdtab = (fdtab (view w))(fd \<mapsto> (path, 0))\<rparr>)"

definition close_law :: "'w kernel \<Rightarrow> ('w \<Rightarrow> fs_view) \<Rightarrow> bool" where
  "close_law K view \<longleftrightarrow>
     (\<forall>w fd. fdtab (view w) fd \<noteq> None \<longrightarrow>
        view (fst (k_close K w fd)) = (view w)\<lparr>fdtab := (fdtab (view w))(fd := None)\<rparr>)"

definition stat_law :: "platform \<Rightarrow> 'w kernel \<Rightarrow> ('w \<Rightarrow> fs_view) \<Rightarrow> ('w \<Rightarrow> nat) \<Rightarrow> bool" where
  "stat_law P K view intr \<longleftrightarrow>
     (\<forall>w fd path pos d. fdtab (view w) fd = Some (path, pos) \<and> files (view w) path = Some d \<longrightarrow>
        (case k_fstat K w fd of
           (w', Inl e) \<Rightarrow> fails P view intr w w' e
         | (w', Inr st) \<Rightarrow> view w' = view w \<and> st_size st = int (length d) \<and> length d < 2 ^ 63))"

definition read_law :: "platform \<Rightarrow> 'w kernel \<Rightarrow> ('w \<Rightarrow> fs_view) \<Rightarrow> ('w \<Rightarrow> nat) \<Rightarrow> bool" where
  "read_law P K view intr \<longleftrightarrow>
     (\<forall>w fd sizes path pos d. fdtab (view w) fd = Some (path, pos) \<and> files (view w) path = Some d \<longrightarrow>
        (case k_readv K w fd sizes of
           (w', Inl e) \<Rightarrow> fails P view intr w w' e
         | (w', Inr bs) \<Rightarrow>
             bs = take (length bs) (drop pos d) \<and> length bs \<le> sum_list sizes
             \<and> (bs = [] \<longrightarrow> sum_list sizes = 0 \<or> length d \<le> pos)
             \<and> view w' = (view w)\<lparr>fdtab := (fdtab (view w))(fd \<mapsto> (path, pos + length bs))\<rparr>))"

text \<open>
  A write is at the position; \<open>overwrite pos bs d\<close> fills a gap with zeros, and writing nothing
  leaves the file alone.
\<close>

definition overwrite :: "nat \<Rightarrow> bytes \<Rightarrow> bytes \<Rightarrow> bytes" where
  "overwrite pos bs d =
     (if bs = [] then d
      else take pos (d @ replicate (pos - length d) 0) @ bs @ drop (pos + length bs) d)"

definition write_law :: "platform \<Rightarrow> 'w kernel \<Rightarrow> ('w \<Rightarrow> fs_view) \<Rightarrow> ('w \<Rightarrow> nat) \<Rightarrow> bool" where
  "write_law P K view intr \<longleftrightarrow>
     (\<forall>w fd bufs path pos d. fdtab (view w) fd = Some (path, pos) \<and> files (view w) path = Some d \<longrightarrow>
        (case k_writev K w fd bufs of
           (w', Inl e) \<Rightarrow> fails P view intr w w' e
         | (w', Inr n) \<Rightarrow>
             n \<le> length (concat bufs) \<and> (n = 0 \<longrightarrow> concat bufs = [])
             \<and> view w' =
                 \<lparr>files = (files (view w))(path \<mapsto> overwrite pos (take n (concat bufs)) d),
                  fdtab = (fdtab (view w))(fd \<mapsto> (path, pos + n))\<rparr>))"

definition file_kernel :: "platform \<Rightarrow> 'w kernel \<Rightarrow> ('w \<Rightarrow> fs_view) \<Rightarrow> ('w \<Rightarrow> nat) \<Rightarrow> bool" where
  "file_kernel P K view intr \<longleftrightarrow>
     open_law P K view intr \<and> close_law K view \<and> stat_law P K view intr
     \<and> read_law P K view intr \<and> write_law P K view intr"

section \<open>A file is a stream\<close>

text \<open>
  An interrupted call is repeated until it answers, and that it does: \<open>Q\<close> is what holds while it is
  interrupted.
\<close>

lemma retry_fails:
  assumes "\<And>v v' e. view v = view w \<Longrightarrow> call v = (v', Inl e) \<Longrightarrow> fails P view intr v v' e"
  shows "\<exists>w' r v. retry P call w = Some (w', r) \<and> view v = view w \<and> call v = (w', r)
    \<and> (\<forall>e. r = Inl e \<longrightarrow> e \<noteq> 0 \<and> view w' = view w)"
proof -
  have "\<exists>w' r u. retry P call v = Some (w', r) \<and> view u = view w \<and> call u = (w', r)
      \<and> (\<forall>e. r = Inl e \<longrightarrow> e \<noteq> 0 \<and> view w' = view w)"
    if "view v = view w" for v
    using that
  proof (induction "intr v" arbitrary: v rule: less_induct)
    case less
    obtain v1 r where c: "call v = (v1, r)" by (cases "call v")
    show ?case
    proof (cases "r = Inl (EINTR P)")
      case True
      with assms [OF less.prems] c have "fails P view intr v v1 (EINTR P)" by blast
      then have "view v1 = view w" "intr v1 < intr v" using less.prems by (simp_all add: fails_def)
      moreover have "retry P call v = retry P call v1"
        using c True by (simp add: retry.simps [of P call v])
      ultimately show ?thesis using less.hyps by simp
    next
      case False
      have "retry P call v = Some (v1, r)"
        using retry_complete [OF answers.now [of call v v1 r P]] c False by blast
      moreover have "e \<noteq> 0 \<and> view v1 = view w" if "r = Inl e" for e
        using assms [OF less.prems, of v1 e] c that less.prems by (simp add: fails_def)
      ultimately show ?thesis using c less.prems by blast
    qed
  qed
  then show ?thesis by blast
qed

lemma retry_law:
  assumes "\<And>u. view u = view w \<Longrightarrow> case call u of
      (u', Inl e) \<Rightarrow> fails P view intr u u' e
    | (u', Inr x) \<Rightarrow> Q u' x"
  shows "\<exists>w' r. retry P call w = Some (w', r)
    \<and> (case r of Inl e \<Rightarrow> e \<noteq> 0 \<and> view w' = view w | Inr x \<Rightarrow> Q w' x)"
proof -
  have "fails P view intr u u' e" if "view u = view w" and "call u = (u', Inl e)" for u u' e
    using assms [OF that(1)] that(2) by simp
  from retry_fails [of view w call, OF this] obtain w' r u where
    r: "retry P call w = Some (w', r)" "view u = view w" "call u = (w', r)"
    "\<forall>e. r = Inl e \<longrightarrow> e \<noteq> 0 \<and> view w' = view w"
    by blast
  then show ?thesis using assms [OF r(2)] by (cases r) auto
qed

text \<open>
  An open file as a stream: the system, the handle, the name of the file, and what was seen of the
  system at the start, of which only the position changes, or only the position and the file.
\<close>

record 'w file_ctx =
  c_platform :: platform
  c_kernel :: "'w kernel"
  c_view :: "'w \<Rightarrow> fs_view"
  c_intr :: "'w \<Rightarrow> nat"
  c_handle :: file_handle
  c_path :: string
  c_start :: fs_view

definition ctx_read :: "'w file_ctx \<Rightarrow> 'w read_op" where
  "ctx_read c n w = fh_read_some (c_platform c) (c_kernel c) (c_handle c) [n] w"

definition ctx_write :: "'w file_ctx \<Rightarrow> 'w write_op" where
  "ctx_write c bs w = fh_write_some (c_platform c) (c_kernel c) (c_handle c) [bs] w"

definition at_pos :: "'w file_ctx \<Rightarrow> nat \<Rightarrow> fs_view" where
  "at_pos c pos =
     (c_start c)\<lparr>fdtab := (fdtab (c_start c))(native_handle (c_handle c) \<mapsto> (c_path c, pos))\<rparr>"

definition ctx_bytes :: "'w file_ctx \<Rightarrow> 'w \<Rightarrow> bytes" where
  "ctx_bytes c w = the (files (c_view c w) (c_path c))"

definition ctx_rest :: "'w file_ctx \<Rightarrow> 'w \<Rightarrow> bytes" where
  "ctx_rest c w =
     drop (snd (the (fdtab (c_view c w) (native_handle (c_handle c))))) (ctx_bytes c w)"

definition ctx_kernel_ok :: "'w file_ctx \<Rightarrow> bool" where
  "ctx_kernel_ok c = file_kernel (c_platform c) (c_kernel c) (c_view c) (c_intr c)"

definition ctx_reading :: "'w file_ctx \<Rightarrow> 'w \<Rightarrow> bool" where
  "ctx_reading c w \<longleftrightarrow>
     ctx_kernel_ok c \<and> files (c_start c) (c_path c) \<noteq> None \<and> (\<exists>pos. c_view c w = at_pos c pos)"

definition ctx_writing :: "'w file_ctx \<Rightarrow> 'w \<Rightarrow> bool" where
  "ctx_writing c w \<longleftrightarrow>
     ctx_kernel_ok c
     \<and> (\<exists>d. c_view c w = (at_pos c (length d))\<lparr>files := (files (c_start c))(c_path c \<mapsto> d)\<rparr>)"

lemma at_pos_simps [simp]:
  "files (at_pos c pos) = files (c_start c)"
  "fdtab (at_pos c pos) (native_handle (c_handle c)) = Some (c_path c, pos)"
  "(at_pos c pos)\<lparr>fdtab := (fdtab (at_pos c pos))(native_handle (c_handle c) \<mapsto> (c_path c, q))\<rparr> = at_pos c q"
  by (simp_all add: at_pos_def)

lemma ctx_read_law:
  assumes "ctx_reading c w" and "0 < n"
  shows "\<exists>w' ec bs. ctx_read c n w = Some (w', ec, bs) \<and> ctx_reading c w'
      \<and> ctx_rest c w = bs @ ctx_rest c w' \<and> length bs \<le> n \<and> (ec_failed ec \<longleftrightarrow> bs = [])
      \<and> (ec = ec_asio eof \<longrightarrow> ctx_rest c w = [])
      \<and> (ec_failed ec \<longrightarrow> ec = ec_asio eof \<or> (\<exists>e. ec = ec_system e))"
proof -
  let ?h = "native_handle (c_handle c)" and ?K = "c_kernel c" and ?v = "c_view c"
  obtain pos d where v: "?v w = at_pos c pos" and d: "files (c_start c) (c_path c) = Some d"
    using assms(1) by (auto simp: ctx_reading_def)
  have K: "read_law (c_platform c) ?K ?v (c_intr c)" and ok: "ctx_kernel_ok c"
    using assms(1) by (simp_all add: ctx_reading_def ctx_kernel_ok_def file_kernel_def)
  have law: "case k_readv ?K u ?h [n] of
           (u', Inl e) \<Rightarrow> fails (c_platform c) ?v (c_intr c) u u' e
         | (u', Inr bs) \<Rightarrow>
             bs = take (length bs) (drop pos d) \<and> length bs \<le> n \<and> (bs = [] \<longrightarrow> length d \<le> pos)
             \<and> ?v u' = at_pos c (pos + length bs)" if "?v u = ?v w" for u
  proof -
    have "fdtab (?v u) ?h = Some (c_path c, pos) \<and> files (?v u) (c_path c) = Some d"
      using that v d by simp
    from K [unfolded read_law_def, rule_format, OF this, of "[n]"] show ?thesis
      using that v assms(2) by (auto split: prod.splits sum.splits)
  qed
  from retry_law [where call = "\<lambda>u. k_readv ?K u ?h [n]", OF law]
  obtain w' r where r: "retry (c_platform c) (\<lambda>u. k_readv ?K u ?h [n]) w = Some (w', r)"
    and res: "case r of Inl e \<Rightarrow> e \<noteq> 0 \<and> ?v w' = ?v w
      | Inr bs \<Rightarrow> bs = take (length bs) (drop pos d) \<and> length bs \<le> n \<and> (bs = [] \<longrightarrow> length d \<le> pos)
          \<and> ?v w' = at_pos c (pos + length bs)"
    by blast
  have rest: "ctx_rest c x = drop p d" if "?v x = at_pos c p" for x p
    using that d by (simp add: ctx_rest_def ctx_bytes_def)
  show ?thesis
  proof (cases r)
    case (Inl e)
    then have "ctx_read c n w = Some (w', ec_system e, [])" and "e \<noteq> 0" and "?v w' = ?v w"
      using r res by (simp_all add: ctx_read_def fh_read_some_def posix_readv_def set_error_def)
    then show ?thesis using assms(1) rest v by (auto simp: ctx_reading_def)
  next
    case (Inr bs)
    with res have bs: "bs = take (length bs) (drop pos d)" "length bs \<le> n"
      "bs = [] \<longrightarrow> length d \<le> pos" "?v w' = at_pos c (pos + length bs)" by simp_all
    have next_rest: "ctx_rest c w = bs @ ctx_rest c w'"
      using rest [OF v] rest [OF bs(4)] bs(1) append_take_drop_id [of "length bs" "drop pos d"]
      by (simp add: add.commute)
    have reading: "ctx_reading c w'" using ok d bs(4) by (auto simp: ctx_reading_def)
    have "ctx_read c n w = Some (w', if bs = [] then ec_asio eof else no_error, bs)"
      using r Inr assms(2) by (simp add: ctx_read_def fh_read_some_def posix_readv_def)
    then show ?thesis using next_rest reading bs rest [OF v] by auto
  qed
qed

interpretation file_reader: read_stream ctx_read ctx_rest ctx_reading
  by unfold_locales (rule ctx_read_law)

lemma overwrite_end [simp]: "overwrite (length d) bs d = d @ bs"
  by (simp add: overwrite_def)

lemma ctx_write_law:
  assumes "ctx_writing c w" and "bs \<noteq> []"
  shows "\<exists>w' ec n. ctx_write c bs w = Some (w', ec, n) \<and> ctx_writing c w'
      \<and> n \<le> length bs \<and> ctx_bytes c w' = ctx_bytes c w @ take n bs \<and> (ec_failed ec \<longleftrightarrow> n = 0)"
proof -
  let ?h = "native_handle (c_handle c)" and ?K = "c_kernel c" and ?v = "c_view c"
  let ?at = "\<lambda>d. (at_pos c (length d))\<lparr>files := (files (c_start c))(c_path c \<mapsto> d)\<rparr>"
  obtain d where v: "?v w = ?at d" using assms(1) by (auto simp: ctx_writing_def)
  have K: "write_law (c_platform c) ?K ?v (c_intr c)" and ok: "ctx_kernel_ok c"
    using assms(1) by (simp_all add: ctx_writing_def ctx_kernel_ok_def file_kernel_def)
  have law: "case k_writev ?K u ?h [bs] of
           (u', Inl e) \<Rightarrow> fails (c_platform c) ?v (c_intr c) u u' e
         | (u', Inr n) \<Rightarrow> n \<le> length bs \<and> 0 < n \<and> ?v u' = ?at (d @ take n bs)" if "?v u = ?v w" for u
  proof -
    have "fdtab (?v u) ?h = Some (c_path c, length d) \<and> files (?v u) (c_path c) = Some d"
      using that v by simp
    from K [unfolded write_law_def, rule_format, OF this, of "[bs]"] show ?thesis
      using that v assms(2) by (auto simp: at_pos_def min_absorb2 split: prod.splits sum.splits)
  qed
  from retry_law [where call = "\<lambda>u. k_writev ?K u ?h [bs]", OF law]
  obtain w' r where r: "retry (c_platform c) (\<lambda>u. k_writev ?K u ?h [bs]) w = Some (w', r)"
    and res: "case r of Inl e \<Rightarrow> e \<noteq> 0 \<and> ?v w' = ?v w
      | Inr n \<Rightarrow> n \<le> length bs \<and> 0 < n \<and> ?v w' = ?at (d @ take n bs)"
    by blast
  have bytes: "ctx_bytes c x = p" if "?v x = ?at p" for x p
    using that by (simp add: ctx_bytes_def)
  show ?thesis
  proof (cases r)
    case (Inl e)
    then have "ctx_write c bs w = Some (w', ec_system e, 0)" and "e \<noteq> 0" and "?v w' = ?v w"
      using r res by (simp_all add: ctx_write_def fh_write_some_def posix_writev_def set_error_def)
    then show ?thesis using assms(1) bytes v by (auto simp: ctx_writing_def)
  next
    case (Inr n)
    with res have n: "n \<le> length bs" "0 < n" "?v w' = ?at (d @ take n bs)" by simp_all
    have "ctx_write c bs w = Some (w', no_error, n)"
      using r Inr by (simp add: ctx_write_def fh_write_some_def posix_writev_def)
    moreover have "ctx_writing c w'"
      unfolding ctx_writing_def using ok n(3) by blast
    ultimately show ?thesis using n bytes [OF v] bytes [OF n(3)] by auto
  qed
qed

interpretation file_writer: write_stream ctx_write ctx_bytes ctx_writing
  by unfold_locales (rule ctx_write_law)

section \<open>Opening and closing around it\<close>

lemma file_attrs_to_native_none [simp]: "file_attrs_to_native P 0 = 0"
  by (simp add: file_attrs_to_native_def set_native_def Let_def split: option.split)

lemma read_args_simps [simp]: "oa_attrs (read_args P) = 0"
  by (simp add: read_args_def open_args_new_def flags_valid_def open_flag_defs)

lemma write_args_simps [simp]: "oa_attrs (write_args P) = 0"
  by (simp add: write_args_def open_args_new_def flags_valid_def open_flag_defs)

lemma open_retries:
  assumes "file_kernel P K view intr" and "oa_attrs args = 0"
  shows "(\<exists>w' e. e \<noteq> 0 \<and> view w' = view w
        \<and> open_file P K path args w = Some (w', ec_system e, ufh_of_native (- 1)))
    \<or> (\<exists>w' fd. open_file P K path args w = Some (w', no_error, ufh_of_native fd)
        \<and> fd \<noteq> - 1 \<and> fdtab (view w) fd = None
        \<and> (files (view w) path = None \<longrightarrow> (O_CLOEXEC P OR native_flags args) AND O_CREAT P \<noteq> 0)
        \<and> view w' =
              \<lparr>files = (if (O_CLOEXEC P OR native_flags args) AND O_TRUNC P \<noteq> 0 \<or> files (view w) path = None
                        then (files (view w))(path \<mapsto> []) else files (view w)),
               fdtab = (fdtab (view w))(fd \<mapsto> (path, 0))\<rparr>)"
proof -
  let ?fl = "O_CLOEXEC P OR native_flags args"
  let ?call = "\<lambda>w. k_open K w path ?fl (oa_mode args)"
  have law: "case ?call u of
        (w', Inl e) \<Rightarrow> fails P view intr u w' e
      | (w', Inr fd) \<Rightarrow>
          fd \<noteq> - 1 \<and> fdtab (view u) fd = None
          \<and> (files (view u) path = None \<longrightarrow> ?fl AND O_CREAT P \<noteq> 0)
          \<and> view w' =
              \<lparr>files = (if ?fl AND O_TRUNC P \<noteq> 0 \<or> files (view u) path = None
                        then (files (view u))(path \<mapsto> []) else files (view u)),
               fdtab = (fdtab (view u))(fd \<mapsto> (path, 0))\<rparr>" for u
    using assms(1) by (simp add: file_kernel_def open_law_def)
  have "fails P view intr u u' e" if "view u = view w" and "?call u = (u', Inl e)" for u u' e
    using law [of u] that(2) by simp
  from retry_fails [of view w ?call, OF this]
  obtain w' r u where r: "retry P ?call w = Some (w', r)"
    "view u = view w" "?call u = (w', r)" "\<forall>e. r = Inl e \<longrightarrow> e \<noteq> 0 \<and> view w' = view w"
    by blast
  show ?thesis
  proof (cases r)
    case (Inl e)
    then show ?thesis using r by (simp add: open_file_def posix_open_def set_error_def)
  next
    case (Inr fd)
    have "open_file P K path args w = Some (w', no_error, ufh_of_native fd)"
      using r(1) Inr assms(2) by (simp add: open_file_def posix_open_def)
    then have "open_file P K path args w = Some (w', no_error, ufh_of_native fd)
        \<and> fd \<noteq> - 1 \<and> fdtab (view w) fd = None
        \<and> (files (view w) path = None \<longrightarrow> ?fl AND O_CREAT P \<noteq> 0)
        \<and> view w' =
              \<lparr>files = (if ?fl AND O_TRUNC P \<noteq> 0 \<or> files (view w) path = None
                        then (files (view w))(path \<mapsto> []) else files (view w)),
               fdtab = (fdtab (view w))(fd \<mapsto> (path, 0))\<rparr>"
      using law [of u] unfolding r(2,3) Inr prod.case sum.case by (rule conjI)
    then show ?thesis by - (rule disjI2, rule exI, rule exI)
  qed
qed

lemma destroy_closes:
  assumes "file_kernel P K view intr" and "fdtab (view w) fd \<noteq> None" and "fd \<noteq> - 1"
  shows "view (ufh_destroy K (ufh_of_native fd) w) = (view w)\<lparr>fdtab := (fdtab (view w))(fd := None)\<rparr>"
proof -
  have "view (fst (k_close K w fd)) = (view w)\<lparr>fdtab := (fdtab (view w))(fd := None)\<rparr>"
    using assms by (simp add: file_kernel_def close_law_def)
  then show ?thesis
    using assms(3)
    by (cases "k_close K w fd")
      (simp add: ufh_destroy_def ufh_close_def fh_close_def ufh_of_native_def fh_new_def posix_close_def)
qed

lemma destroy_closed:
  "ufh_destroy K (ufh_of_native (- 1)) w = w"
  by (simp add: ufh_destroy_def ufh_close_def fh_close_def ufh_of_native_def fh_new_def)

text \<open>Access modes set none of the bits that matter here.\<close>

lemma read_args_flags:
  assumes "open_flags_ok P"
  shows "(O_CLOEXEC P OR native_flags (read_args P)) AND O_TRUNC P = 0"
    and "(O_CLOEXEC P OR native_flags (read_args P)) AND O_CREAT P = 0"
proof -
  have fl: "native_flags (read_args P) = O_RDONLY P"
    by (simp add: read_args_def open_args_new_def flags_valid_def parse_open_flags_access
        native_access_def open_flag_defs)
  note dis = open_flags_disjoint [OF assms]
  have "O_RDONLY P = native_access P access_read"
    by (simp add: native_access_def open_flag_defs)
  then have "O_RDONLY P AND O_TRUNC P = 0" and "O_RDONLY P AND O_CREAT P = 0"
    using native_access_disjoint [of P _ access_read] dis by simp_all
  then show "(O_CLOEXEC P OR native_flags (read_args P)) AND O_TRUNC P = 0"
    and "(O_CLOEXEC P OR native_flags (read_args P)) AND O_CREAT P = 0"
    using dis(5,7) by (simp_all add: fl bit.conj_disj_distrib2 and.commute [of "O_CLOEXEC P"])
qed

lemma write_args_flags:
  assumes "open_flags_ok P"
  shows "(O_CLOEXEC P OR native_flags (write_args P)) AND O_TRUNC P \<noteq> 0"
proof -
  have "native_flags (write_args P) AND O_TRUNC P \<noteq> 0"
    using open_flags_disjoint(4) [OF assms]
    by (simp add: write_args_def open_args_new_def flags_valid_def parse_open_flags_access
        native_access_def open_flag_defs and_or_nonzero)
  then show ?thesis by (simp add: and_or_nonzero)
qed

section \<open>A system in memory\<close>

text \<open>
  A system that keeps the promises, for examples: files are a map, a read gives one byte at a time, a
  write takes two, and the first \<open>s_intr\<close> calls are interrupted.
\<close>

record sample =
  s_files :: "string \<Rightarrow> bytes option"
  s_fds :: "(int \<times> string \<times> nat) list"
  s_intr :: nat

definition sample_view :: "sample \<Rightarrow> fs_view" where
  "sample_view s =
     \<lparr>files = s_files s, fdtab = (\<lambda>fd. if 0 \<le> fd then map_of (s_fds s) fd else None)\<rparr>"

text \<open>A call on a descriptor that is open on a file.\<close>

definition sample_call ::
    "sample \<Rightarrow> int \<Rightarrow> (string \<Rightarrow> nat \<Rightarrow> bytes \<Rightarrow> sample \<times> (nat + 'a)) \<Rightarrow> sample \<times> (nat + 'a)" where
  "sample_call s fd f =
     (if 0 < s_intr s then (s\<lparr>s_intr := s_intr s - 1\<rparr>, Inl 4)
      else (case fdtab (sample_view s) fd of
              None \<Rightarrow> (s, Inl 9)
            | Some (path, pos) \<Rightarrow>
                (case s_files s path of None \<Rightarrow> (s, Inl 9) | Some d \<Rightarrow> f path pos d)))"

definition sample_open :: "sample \<Rightarrow> string \<Rightarrow> u32 \<Rightarrow> u32 \<Rightarrow> sample \<times> (nat + int)" where
  "sample_open s path flags mode =
     (if 0 < s_intr s then (s\<lparr>s_intr := s_intr s - 1\<rparr>, Inl 4)
      else if s_files s path = None \<and> flags AND O_CREAT linux = 0 then (s, Inl 2)
      else
        (let fd = new_fd (map fst (s_fds s)) in
         (s\<lparr>s_files := (if flags AND O_TRUNC linux \<noteq> 0 \<or> s_files s path = None
                        then (s_files s)(path \<mapsto> []) else s_files s),
            s_fds := (fd, path, 0) # s_fds s\<rparr>, Inr fd)))"

definition sample_kernel :: "sample kernel" where
  "sample_kernel =
     \<lparr>k_open = sample_open,
      k_close = (\<lambda>s fd. (s\<lparr>s_fds := filter (\<lambda>e. fst e \<noteq> fd) (s_fds s)\<rparr>, Inr ())),
      k_dup = (\<lambda>s _. (s, Inl 9)),
      k_fstat = (\<lambda>s fd. sample_call s fd (\<lambda>path pos d.
        if length d < 2 ^ 63
        then (s, Inr \<lparr>st_mode = 0, st_size = int (length d), st_flags = 0, st_atim = (0, 0),
                     st_mtim = (0, 0), st_birthtim = (0, 0)\<rparr>)
        else (s, Inl 75))),
      k_ftruncate = (\<lambda>s _ _. (s, Inl 9)), k_lseek = (\<lambda>s _ _ _. (s, Inl 9)),
      k_fchmod = (\<lambda>s _ _. (s, Inl 9)), k_fchflags = (\<lambda>s _ _. (s, Inl 9)),
      k_futimens = (\<lambda>s _ _. (s, Inl 9)), k_futimes = (\<lambda>s _ _. (s, Inl 9)),
      k_readv = (\<lambda>s fd sizes. sample_call s fd (\<lambda>path pos d.
        (let bs = take (min 1 (sum_list sizes)) (drop pos d) in
         (s\<lparr>s_fds := (fd, path, pos + length bs) # s_fds s\<rparr>, Inr bs)))),
      k_writev = (\<lambda>s fd bufs. sample_call s fd (\<lambda>path pos d.
        (let bs = take 2 (concat bufs) in
         (s\<lparr>s_files := (s_files s)(path \<mapsto> overwrite pos bs d),
            s_fds := (fd, path, pos + length bs) # s_fds s\<rparr>, Inr (length bs))))),
      k_pread = (\<lambda>s _ _ _. (s, Inl 9)), k_pwrite = (\<lambda>s _ _ _. (s, Inl 9)),
      k_preadv = (\<lambda>s _ _ _. (s, Inl 9)), k_pwritev = (\<lambda>s _ _ _. (s, Inl 9))\<rparr>"

lemma sample_fails:
  "0 < s_intr s \<Longrightarrow> fails linux sample_view s_intr s (s\<lparr>s_intr := s_intr s - 1\<rparr>) 4"
  "e \<noteq> 0 \<Longrightarrow> e \<noteq> 4 \<Longrightarrow> fails linux sample_view s_intr s s e"
  by (simp_all add: fails_def sample_view_def linux_def fun_eq_iff)

lemma sample_call_law:
  assumes "fdtab (sample_view s) fd = Some (path, pos)" and "files (sample_view s) path = Some d"
    and "case f path pos d of
        (s', Inl e) \<Rightarrow> fails linux sample_view s_intr s s' e
      | (s', Inr v) \<Rightarrow> Q s' v"
  shows "case sample_call s fd f of
        (s', Inl e) \<Rightarrow> fails linux sample_view s_intr s s' e
      | (s', Inr v) \<Rightarrow> Q s' v"
  using assms sample_fails(1) [of s]
  by (cases "0 < s_intr s") (simp_all add: sample_call_def, simp add: sample_view_def)

lemma sample_set_pos:
  assumes "fdtab (sample_view s) fd = Some e"
  shows "sample_view (s\<lparr>s_fds := (fd, e') # s_fds s\<rparr>) =
    (sample_view s)\<lparr>fdtab := (fdtab (sample_view s))(fd \<mapsto> e')\<rparr>"
  using assms by (auto simp: sample_view_def fun_eq_iff split: if_splits)

lemma sample_open_law: "open_law linux sample_kernel sample_view s_intr"
proof -
  have "map_of (s_fds s) (new_fd (map fst (s_fds s))) = None" for s
  proof -
    have "new_fd (map fst (s_fds s)) \<notin> set (map fst (s_fds s))"
      using new_fd_fresh(1) [of "new_fd (map fst (s_fds s))" "map fst (s_fds s)"] by auto
    then show ?thesis by (simp add: map_of_eq_None_iff)
  qed
  moreover have "new_fd xs \<noteq> - 1" for xs using new_fd_fresh(2) [of xs] by linarith
  ultimately show ?thesis
    using new_fd_fresh(2) sample_fails
    unfolding open_law_def
    by (auto simp: sample_kernel_def sample_open_def Let_def sample_view_def fun_eq_iff
        simp del: new_fd_def)
qed

lemma sample_kernel_ok: "file_kernel linux sample_kernel sample_view s_intr"
proof -
  have "close_law sample_kernel sample_view"
  proof -
    have "map_of (filter (\<lambda>e. fst e \<noteq> fd) xs) = (map_of xs)(fd := None)" for xs :: "(int \<times> string \<times> nat) list" and fd
      by (induction xs) (auto simp: fun_eq_iff)
    then show ?thesis
      by (auto simp: close_law_def sample_kernel_def sample_view_def fun_eq_iff)
  qed
  moreover have "stat_law linux sample_kernel sample_view s_intr"
    unfolding stat_law_def
  proof (intro allI impI, elim conjE)
    fix w fd path pos d
    assume e: "fdtab (sample_view w) fd = Some (path, pos)" and d: "files (sample_view w) path = Some d"
    show "case k_fstat sample_kernel w fd of
           (w', Inl e) \<Rightarrow> fails linux sample_view s_intr w w' e
         | (w', Inr st) \<Rightarrow> sample_view w' = sample_view w \<and> st_size st = int (length d) \<and> length d < 2 ^ 63"
      unfolding sample_kernel_def kernel.simps
      by (rule sample_call_law [OF e d]) (simp add: sample_fails(2))
  qed
  moreover have "read_law linux sample_kernel sample_view s_intr"
    unfolding read_law_def
  proof (intro allI impI, elim conjE)
    fix w fd sizes path pos d
    assume e: "fdtab (sample_view w) fd = Some (path, pos)" and d: "files (sample_view w) path = Some d"
    show "case k_readv sample_kernel w fd sizes of
           (w', Inl e) \<Rightarrow> fails linux sample_view s_intr w w' e
         | (w', Inr bs) \<Rightarrow>
             bs = take (length bs) (drop pos d) \<and> length bs \<le> sum_list sizes
             \<and> (bs = [] \<longrightarrow> sum_list sizes = 0 \<or> length d \<le> pos)
             \<and> sample_view w' = (sample_view w)\<lparr>fdtab := (fdtab (sample_view w))(fd \<mapsto> (path, pos + length bs))\<rparr>"
      unfolding sample_kernel_def kernel.simps
      by (rule sample_call_law [OF e d]) (auto simp: Let_def sample_set_pos [OF e] min_def)
  qed
  moreover have "write_law linux sample_kernel sample_view s_intr"
    unfolding write_law_def
  proof (intro allI impI, elim conjE)
    fix w fd bufs path pos d
    assume e: "fdtab (sample_view w) fd = Some (path, pos)" and d: "files (sample_view w) path = Some d"
    have v: "sample_view (w\<lparr>s_files := m, s_fds := (fd, e') # s_fds w\<rparr>) =
        \<lparr>files = m, fdtab = (fdtab (sample_view w))(fd \<mapsto> e')\<rparr>" for m e'
      using e by (auto simp: sample_view_def fun_eq_iff split: if_splits)
    have f: "s_files w = files (sample_view w)" by (simp add: sample_view_def)
    show "case k_writev sample_kernel w fd bufs of
           (w', Inl e) \<Rightarrow> fails linux sample_view s_intr w w' e
         | (w', Inr n) \<Rightarrow>
             n \<le> length (concat bufs) \<and> (n = 0 \<longrightarrow> concat bufs = [])
             \<and> sample_view w' =
                 \<lparr>files = (files (sample_view w))(path \<mapsto> overwrite pos (take n (concat bufs)) d),
                  fdtab = (fdtab (sample_view w))(fd \<mapsto> (path, pos + n))\<rparr>"
      unfolding sample_kernel_def kernel.simps
      by (rule sample_call_law [OF e d]) (simp only: Let_def v f prod.case sum.case, auto simp: min_def)
  qed
  ultimately show ?thesis using sample_open_law by (simp add: file_kernel_def)
qed

text \<open>\<^verbatim>\<open>asio::read\<close> and \<^verbatim>\<open>asio::write\<close> as loops over at most 65536 bytes at a time.\<close>

partial_function (option) read_loop :: "'w read_op \<Rightarrow> nat \<Rightarrow> 'w \<Rightarrow> ('w \<times> error_code \<times> bytes) option" where
  "read_loop rd n w =
     (if n = 0 then Some (w, no_error, [])
      else Option.bind (rd (min n 65536) w) (\<lambda>(w1, ec, bs).
        if ec_failed ec then Some (w1, ec, bs)
        else Option.bind (read_loop rd (n - length bs) w1) (\<lambda>(w2, ec2, cs).
          Some (w2, ec2, bs @ cs))))"

declare read_loop.simps [code]

partial_function (option) write_loop :: "'w write_op \<Rightarrow> bytes \<Rightarrow> 'w \<Rightarrow> ('w \<times> error_code \<times> nat) option" where
  "write_loop wr bs w =
     (if bs = [] then Some (w, no_error, 0)
      else Option.bind (wr (take (min (length bs) 65536) bs) w) (\<lambda>(w1, ec, n).
        if ec_failed ec then Some (w1, ec, n)
        else Option.bind (write_loop wr (drop n bs) w1) (\<lambda>(w2, ec2, m).
          Some (w2, ec2, n + m))))"

declare write_loop.simps [code]

lemma bind_case: "Option.bind r f = (case r of None \<Rightarrow> None | Some x \<Rightarrow> f x)"
  by (cases r) simp_all

lemma read_loop_ok: "asio_read_ok read_loop"
  unfolding asio_read_ok_def
proof (intro conjI allI impI)
  show "read_loop rd 0 w = Some (w, no_error, [])" for rd :: "'w read_op" and w
    by (simp add: read_loop.simps [of rd 0])
  fix rd :: "'w read_op" and n w
  assume "0 < (n :: nat)"
  then show "\<exists>k. 0 < k \<and> k \<le> n \<and> read_loop rd n w =
          (case rd k w of
             None \<Rightarrow> None
           | Some (w1, ec, bs) \<Rightarrow>
               if ec_failed ec then Some (w1, ec, bs)
               else (case read_loop rd (n - length bs) w1 of
                       None \<Rightarrow> None
                     | Some (w2, ec2, cs) \<Rightarrow> Some (w2, ec2, bs @ cs)))"
    by (intro exI [of _ "min n 65536"])
      (simp add: read_loop.simps [of rd n w] bind_case split: option.split prod.split)
qed

lemma write_loop_ok: "asio_write_ok write_loop"
  unfolding asio_write_ok_def
proof (intro conjI allI impI)
  show "write_loop wr [] w = Some (w, no_error, 0)" for wr :: "'w write_op" and w
    by (simp add: write_loop.simps [of wr "[]"])
  fix wr :: "'w write_op" and bs w
  assume "bs \<noteq> ([] :: bytes)"
  then show "\<exists>k. 0 < k \<and> k \<le> length bs \<and> write_loop wr bs w =
          (case wr (take k bs) w of
             None \<Rightarrow> None
           | Some (w1, ec, n) \<Rightarrow>
               if ec_failed ec then Some (w1, ec, n)
               else (case write_loop wr (drop n bs) w1 of
                       None \<Rightarrow> None
                     | Some (w2, ec2, m) \<Rightarrow> Some (w2, ec2, n + m)))"
    by (intro exI [of _ "min (length bs) 65536"])
      (simp add: write_loop.simps [of wr bs w] bind_case split: option.split prod.split)
qed

section \<open>Whole files\<close>

text \<open>A handle at the start of a file: its size, and then all of it.\<close>

lemma fh_size_file:
  assumes "file_kernel P K view intr" and "fdtab (view w) (native_handle h) = Some (path, pos)"
    and "files (view w) path = Some d"
  shows "\<exists>w' ec n. fh_size K h w = (w', ec, n) \<and> view w' = view w
    \<and> (if ec_failed ec then \<exists>e. ec = ec_system e else ec = no_error \<and> n = length d)"
proof -
  obtain w' r where r: "k_fstat K w (native_handle h) = (w', r)" by fastforce
  have law: "case r of Inl e \<Rightarrow> fails P view intr w w' e
      | Inr st \<Rightarrow> view w' = view w \<and> st_size st = int (length d) \<and> length d < 2 ^ 63"
    using assms r unfolding file_kernel_def stat_law_def by fastforce
  show ?thesis
  proof (cases r)
    case (Inl e)
    then show ?thesis using law r by (simp add: fails_def fh_size_def posix_size_def set_error_def)
  next
    case (Inr st)
    then have "unat (of_int (st_size st) :: 64 word) = length d"
      using law by (simp add: unat_of_nat)
    then show ?thesis using Inr law r by (simp add: fh_size_def posix_size_def)
  qed
qed

lemma length_resize_bytes [simp]: "length (resize_bytes n c) = n"
  by (simp add: resize_bytes_def)

lemma read_file_handle_reads:
  assumes K: "file_kernel P K view intr" and ar: "asio_read_ok ar"
    and fd: "fdtab (view w) (native_handle h) = Some (path, 0)" and d: "files (view w) path = Some d"
  shows "\<exists>w' ec c' pos. read_file_handle P K ar stm ms h c w = Some (w', ec, c')
    \<and> view w' = (view w)\<lparr>fdtab := (fdtab (view w))(native_handle h \<mapsto> (path, pos))\<rparr>
    \<and> (if ec_failed ec
       then (\<exists>e. ec = ec_system e) \<or> ec = ec_asio message_size \<and> (stm < length d \<or> ms < length d)
       else c' = d \<and> length d \<le> stm \<and> length d \<le> ms)"
proof -
  let ?c = "\<lparr>c_platform = P, c_kernel = K, c_view = view, c_intr = intr, c_handle = h, c_path = path,
             c_start = view w\<rparr>"
  have start: "view w = at_pos ?c 0" using fd by (simp add: at_pos_def fun_upd_idem)
  obtain w1 ec n where sz: "fh_size K h w = (w1, ec, n)" and w1: "view w1 = view w"
    and res: "if ec_failed ec then \<exists>e. ec = ec_system e else ec = no_error \<and> n = length d"
    using fh_size_file [OF K fd d] by blast
  have same: "view w1 = (view w)\<lparr>fdtab := (fdtab (view w))(native_handle h \<mapsto> (path, 0))\<rparr>"
    using w1 start by (simp add: at_pos_def)
  consider (failed) "ec_failed ec" | (large) "\<not> ec_failed ec" "stm < length d \<or> ms < length d"
    | (empty) "\<not> ec_failed ec" "length d \<le> stm" "length d \<le> ms" "d = []"
    | (full) "\<not> ec_failed ec" "length d \<le> stm" "length d \<le> ms" "d \<noteq> []"
    by (meson not_less)
  then show ?thesis
  proof cases
    case failed
    then have "read_file_handle P K ar stm ms h c w = Some (w1, ec, c)"
      using sz by (simp add: read_file_handle_def)
    then show ?thesis using same failed res by auto
  next
    case large
    then have "read_file_handle P K ar stm ms h c w = Some (w1, ec_asio message_size, c)"
      using sz res by (simp add: read_file_handle_def)
    then show ?thesis using same large by auto
  next
    case empty
    then have "read_file_handle P K ar stm ms h c w = Some (w1, no_error, [])"
      using sz res by (simp add: read_file_handle_def)
    then show ?thesis using same empty by auto
  next
    case full
    have "ctx_reading ?c w1"
      using K d w1 start by (simp add: ctx_reading_def ctx_kernel_ok_def) metis
    from file_reader.read_all [OF ar this, of "length d"]
    obtain w2 ec2 bs where r: "ar (ctx_read ?c) (length d) w1 = Some (w2, ec2, bs)"
      "ctx_reading ?c w2" "ctx_rest ?c w1 = bs @ ctx_rest ?c w2" "length bs \<le> length d"
      "ec_failed ec2 \<longleftrightarrow> length bs < length d" "ec2 = ec_asio eof \<longrightarrow> ctx_rest ?c w2 = []"
      "ec_failed ec2 \<longrightarrow> ec2 = ec_asio eof \<or> (\<exists>e. ec2 = ec_system e)"
      by blast
    have "ctx_read ?c = (\<lambda>n. fh_read_some P K h [n])" by (intro ext) (simp add: ctx_read_def)
    then have call: "read_file_handle P K ar stm ms h c w =
        Some (w2, ec2, bs @ drop (length bs) (resize_bytes (length d) c))"
      using full sz res r(1) by (simp add: read_file_handle_def Let_def)
    obtain pos where pos: "view w2 = at_pos ?c pos" using r(2) by (auto simp: ctx_reading_def)
    have rest: "ctx_rest ?c w1 = d" using w1 fd d by (simp add: ctx_rest_def ctx_bytes_def)
    have outcome: "if ec_failed ec2 then \<exists>e. ec2 = ec_system e
        else bs @ drop (length bs) (resize_bytes (length d) c) = d"
      using r(3-7) rest by (auto simp: append_eq_conv_conj)
    show ?thesis
      using call pos outcome full by (intro exI conjI) (auto simp: at_pos_def split: if_splits)
  qed
qed

lemma files_kept: "\<lparr>files = files v, fdtab = t\<rparr> = v\<lparr>fdtab := t\<rparr>"
  by simp

text \<open>
  C13. Reading a file by its name returns, and every descriptor and every file is as it was before.
  Without an error the container holds exactly the bytes of the file, whatever it held before; an
  error is one the system reported, or \<open>message_size\<close> when the file is larger than the container
  can be. That the calls are interrupted, or give less than was asked for, is not seen.
\<close>

theorem read_file_reads:
  assumes "file_kernel P K view intr" and "open_flags_ok P" and "asio_read_ok ar"
    and "files (view w) path = Some d"
  shows "\<exists>w' ec c'. read_file P K ar stm ms path c w = Some (w', ec, c') \<and> view w' = view w
    \<and> (if ec_failed ec
       then (\<exists>e. ec = ec_system e) \<or> ec = ec_asio message_size \<and> (stm < length d \<or> ms < length d)
       else c' = d \<and> length d \<le> stm \<and> length d \<le> ms)"
proof -
  consider (no_open) w1 e where "e \<noteq> 0" "view w1 = view w"
      "open_file P K path (read_args P) w = Some (w1, ec_system e, ufh_of_native (- 1))"
    | (opened) w1 fd where "open_file P K path (read_args P) w = Some (w1, no_error, ufh_of_native fd)"
      "fd \<noteq> - 1" "fdtab (view w) fd = None"
      "view w1 = (view w)\<lparr>fdtab := (fdtab (view w))(fd \<mapsto> (path, 0))\<rparr>"
    using open_retries [OF assms(1) read_args_simps [of P], of w path] read_args_flags [OF assms(2)] assms(4)
    by (auto simp: files_kept)
  then show ?thesis
  proof cases
    case no_open
    then show ?thesis by (simp add: read_file_def destroy_closed)
  next
    case opened
    let ?h = "ufh_get (ufh_of_native fd)"
    have h: "native_handle ?h = fd" by (simp add: ufh_get_def ufh_of_native_def fh_new_def)
    have "fdtab (view w1) (native_handle ?h) = Some (path, 0)" and "files (view w1) path = Some d"
      using opened(4) assms(4) h by simp_all
    from read_file_handle_reads [OF assms(1,3) this] obtain w2 ec c' pos where
      r: "read_file_handle P K ar stm ms ?h c w1 = Some (w2, ec, c')"
      and v: "view w2 = (view w1)\<lparr>fdtab := (fdtab (view w1))(native_handle ?h \<mapsto> (path, pos))\<rparr>"
      and res: "if ec_failed ec
       then (\<exists>e. ec = ec_system e) \<or> ec = ec_asio message_size \<and> (stm < length d \<or> ms < length d)
       else c' = d \<and> length d \<le> stm \<and> length d \<le> ms"
      by blast
    have "view (ufh_destroy K (ufh_of_native fd) w2) = (view w2)\<lparr>fdtab := (fdtab (view w2))(fd := None)\<rparr>"
      by (rule destroy_closes [OF assms(1) _ opened(2)]) (simp add: v h)
    also have "\<dots> = view w" using opened(3) by (simp add: v h opened(4) fun_upd_idem)
    finally show ?thesis using r res opened(1) by (simp add: read_file_def)
  qed
qed

theorem read_file_reads_witness:
  "\<exists>w' ec c'. read_file linux sample_kernel read_loop 10 10 ''a'' [7]
       \<lparr>s_files = [''a'' \<mapsto> [1, 2, 3]], s_fds = [(0, ''b'', 0)], s_intr = 2\<rparr> = Some (w', ec, c')
     \<and> (ec_failed ec \<or> c' = [1, 2, 3])"
proof -
  let ?w = "\<lparr>s_files = [''a'' \<mapsto> [1, 2, 3]], s_fds = [(0, ''b'', 0)], s_intr = 2\<rparr>"
  have "open_flags_ok linux" by (simp add: open_flags_ok_def linux_def)
  moreover have "files (sample_view ?w) ''a'' = Some [1, 2, 3]" by (simp add: sample_view_def)
  ultimately show ?thesis
    using read_file_reads [OF sample_kernel_ok _ read_loop_ok, of ?w "''a''" "[1, 2, 3]" 10 10 "[7]"]
    by (auto split: if_splits)
qed

text \<open>
  C16. Writing a file by its name returns with every descriptor and every other file as they were.
  Without an error the file holds exactly the bytes that were given, whether it existed or not and
  however the system splits the writes; with an error it is untouched or holds a start of them.
\<close>

theorem write_file_writes:
  assumes "file_kernel P K view intr" and "open_flags_ok P" and "asio_write_ok aw"
  shows "\<exists>w' ec. write_file P K aw path bs w = Some (w', ec)
    \<and> fdtab (view w') = fdtab (view w)
    \<and> (view w' = view w \<and> ec_failed ec
       \<or> (\<exists>n. files (view w') = (files (view w))(path \<mapsto> take n bs) \<and> n \<le> length bs
             \<and> (ec_failed ec \<longleftrightarrow> n < length bs)))"
proof -
  consider (no_open) w1 e where "e \<noteq> 0" "view w1 = view w"
      "open_file P K path (write_args P) w = Some (w1, ec_system e, ufh_of_native (- 1))"
    | (opened) w1 fd where "open_file P K path (write_args P) w = Some (w1, no_error, ufh_of_native fd)"
      "fd \<noteq> - 1" "fdtab (view w) fd = None"
      "view w1 = \<lparr>files = (files (view w))(path \<mapsto> []), fdtab = (fdtab (view w))(fd \<mapsto> (path, 0))\<rparr>"
    using open_retries [OF assms(1) write_args_simps [of P], of w path] write_args_flags [OF assms(2)]
    by auto
  then show ?thesis
  proof cases
    case no_open
    then show ?thesis by (simp add: write_file_def destroy_closed)
  next
    case opened
    let ?c = "\<lparr>c_platform = P, c_kernel = K, c_view = view, c_intr = intr, c_handle = fh_new fd,
               c_path = path, c_start = view w\<rparr>"
    have "ctx_writing ?c w1"
      unfolding ctx_writing_def
      by (intro conjI exI [of _ "[]"])
        (simp_all add: ctx_kernel_ok_def assms(1) at_pos_def opened(4) fh_new_def)
    from file_writer.write_all [OF assms(3) this, of bs] obtain w2 ec n where
      r: "aw (ctx_write ?c) bs w1 = Some (w2, ec, n)" "ctx_writing ?c w2" "n \<le> length bs"
      "ctx_bytes ?c w2 = ctx_bytes ?c w1 @ take n bs" "ec_failed ec \<longleftrightarrow> n < length bs"
      by blast
    have "ctx_write ?c = (\<lambda>cs. ufh_write_some P K (ufh_of_native fd) [cs])"
      by (intro ext) (simp add: ctx_write_def ufh_write_some_def ufh_of_native_def)
    then have call: "write_file P K aw path bs w = Some (ufh_destroy K (ufh_of_native fd) w2, ec)"
      using opened(1) r(1) by (simp add: write_file_def)
    obtain d where d: "view w2 = (at_pos ?c (length d))\<lparr>files := (files (view w))(path \<mapsto> d)\<rparr>"
      using r(2) by (auto simp: ctx_writing_def)
    then have "d = take n bs" using r(4) opened(4) by (simp add: ctx_bytes_def)
    moreover have "view (ufh_destroy K (ufh_of_native fd) w2) =
        (view w2)\<lparr>fdtab := (fdtab (view w2))(fd := None)\<rparr>"
      by (rule destroy_closes [OF assms(1) _ opened(2)]) (simp add: d at_pos_def fh_new_def)
    ultimately have "view (ufh_destroy K (ufh_of_native fd) w2) =
        (view w)\<lparr>files := (files (view w))(path \<mapsto> take n bs)\<rparr>"
      using opened(3) by (simp add: d at_pos_def fh_new_def fun_upd_idem)
    then show ?thesis using call r(3,5) by auto
  qed
qed

theorem write_file_writes_witness:
  "\<exists>w' ec. write_file linux sample_kernel write_loop ''a'' [1, 2, 3]
       \<lparr>s_files = Map.empty, s_fds = [(0, ''b'', 0)], s_intr = 2\<rparr> = Some (w', ec)
     \<and> (ec_failed ec \<or> files (sample_view w') ''a'' = Some [1, 2, 3])"
proof -
  let ?w = "\<lparr>s_files = Map.empty, s_fds = [(0, ''b'', 0)], s_intr = 2\<rparr>"
  have "open_flags_ok linux" by (simp add: open_flags_ok_def linux_def)
  from write_file_writes [OF sample_kernel_ok this write_loop_ok, of "''a''" "[1, 2, 3]" ?w]
  show ?thesis by auto
qed

end
