(* ===== verification/FileContent.thy ===== *)
theory FileContent
  imports WholeFile Programs
begin

text \<open>
  What the operations of \<^verbatim>\<open>file_handle\<close> on the bytes of a file do together: any program
  over any number of open handles, several on one file included, is a run of abstract files, each a
  list of bytes, with a position per handle. The calls for a position, for the size and at an offset
  keep promises like those of \<open>file_kernel\<close>; files are not opened for appending.
\<close>

section \<open>Promises of the other calls\<close>

text \<open>\<open>space\<close> is the space, \<open>bs\<close> are the bytes that \<open>call\<close> is given.\<close>

definition reads_at ::
    "platform \<Rightarrow> ('w \<Rightarrow> fs_view) \<Rightarrow> ('w \<Rightarrow> nat) \<Rightarrow> ('w \<Rightarrow> int \<Rightarrow> int \<Rightarrow> 'w \<times> (nat + bytes)) \<Rightarrow> nat \<Rightarrow> bool" where
  "reads_at P view intr call space \<longleftrightarrow>
     (\<forall>w fd off path pos d. fdtab (view w) fd = Some (path, pos) \<and> files (view w) path = Some d \<longrightarrow>
        (case call w fd off of
           (w', Inl e) \<Rightarrow> fails P view intr w w' e
         | (w', Inr bs) \<Rightarrow>
             0 \<le> off \<and> bs = take (length bs) (drop (nat off) d) \<and> length bs \<le> space
             \<and> (bs = [] \<longrightarrow> space = 0 \<or> length d \<le> nat off) \<and> view w' = view w))"

definition writes_at ::
    "platform \<Rightarrow> ('w \<Rightarrow> fs_view) \<Rightarrow> ('w \<Rightarrow> nat) \<Rightarrow> ('w \<Rightarrow> int \<Rightarrow> int \<Rightarrow> 'w \<times> (nat + nat)) \<Rightarrow> bytes \<Rightarrow> bool" where
  "writes_at P view intr call bs \<longleftrightarrow>
     (\<forall>w fd off path pos d. fdtab (view w) fd = Some (path, pos) \<and> files (view w) path = Some d \<longrightarrow>
        (case call w fd off of
           (w', Inl e) \<Rightarrow> fails P view intr w w' e
         | (w', Inr n) \<Rightarrow>
             0 \<le> off \<and> n \<le> length bs \<and> (n = 0 \<longrightarrow> bs = [])
             \<and> view w' = (view w)\<lparr>files :=
                 (files (view w))(path \<mapsto> overwrite (nat off) (take n bs) d)\<rparr>))"

fun seek_base :: "seek_origin \<Rightarrow> nat \<Rightarrow> bytes \<Rightarrow> nat" where
  "seek_base from_begin pos d = 0"
| "seek_base from_current pos d = pos"
| "seek_base from_end pos d = length d"

definition seek_law :: "platform \<Rightarrow> 'w kernel \<Rightarrow> ('w \<Rightarrow> fs_view) \<Rightarrow> ('w \<Rightarrow> nat) \<Rightarrow> bool" where
  "seek_law P K view intr \<longleftrightarrow>
     (\<forall>w fd origin off path pos d. fdtab (view w) fd = Some (path, pos) \<and> files (view w) path = Some d \<longrightarrow>
        (case k_lseek K w fd off (whence origin) of
           (w', Inl e) \<Rightarrow> fails P view intr w w' e
         | (w', Inr res) \<Rightarrow>
             int res = int (seek_base origin pos d) + off
             \<and> view w' = (view w)\<lparr>fdtab := (fdtab (view w))(fd \<mapsto> (path, res))\<rparr>))"

definition cut_or_fill :: "nat \<Rightarrow> bytes \<Rightarrow> bytes" where
  "cut_or_fill n d = take n d @ replicate (n - length d) 0"

definition truncate_law :: "platform \<Rightarrow> 'w kernel \<Rightarrow> ('w \<Rightarrow> fs_view) \<Rightarrow> ('w \<Rightarrow> nat) \<Rightarrow> bool" where
  "truncate_law P K view intr \<longleftrightarrow>
     (\<forall>w fd n path pos d. fdtab (view w) fd = Some (path, pos) \<and> files (view w) path = Some d \<longrightarrow>
        (case k_ftruncate K w fd n of
           (w', Inl e) \<Rightarrow> fails P view intr w w' e
         | (w', Inr _) \<Rightarrow>
             0 \<le> n \<and> view w' = (view w)\<lparr>files := (files (view w))(path \<mapsto> cut_or_fill (nat n) d)\<rparr>))"

definition content_kernel :: "platform \<Rightarrow> 'w kernel \<Rightarrow> ('w \<Rightarrow> fs_view) \<Rightarrow> ('w \<Rightarrow> nat) \<Rightarrow> bool" where
  "content_kernel P K view intr \<longleftrightarrow>
     file_kernel P K view intr \<and> seek_law P K view intr \<and> truncate_law P K view intr
     \<and> (\<forall>n. reads_at P view intr (\<lambda>w fd. k_pread K w fd n) n)
     \<and> (\<forall>sizes. reads_at P view intr (\<lambda>w fd. k_preadv K w fd sizes) (sum_list sizes))
     \<and> (\<forall>bs. writes_at P view intr (\<lambda>w fd. k_pwrite K w fd bs) bs)
     \<and> (\<forall>bufs. writes_at P view intr (\<lambda>w fd. k_pwritev K w fd bufs) (concat bufs))"

section \<open>Programs\<close>

text \<open>An operation, and what it hands back besides the error code.\<close>

datatype file_cmd =
    do_read "nat list"
  | do_write "bytes list"
  | do_read_at nat "nat list"
  | do_write_at nat "bytes list"
  | do_seek seek_origin int
  | do_position
  | do_truncate nat
  | do_size

datatype reply =
    got bytes
  | num nat
  | nothing

fun fh_exec ::
    "platform \<Rightarrow> 'w kernel \<Rightarrow> file_handle \<Rightarrow> file_cmd \<Rightarrow> 'w \<Rightarrow> ('w \<times> error_code \<times> reply) option" where
  "fh_exec P K h (do_read sizes) w =
     map_option (\<lambda>(w, ec, bs). (w, ec, got bs)) (fh_read_some P K h sizes w)"
| "fh_exec P K h (do_write bufs) w =
     map_option (\<lambda>(w, ec, n). (w, ec, num n)) (fh_write_some P K h bufs w)"
| "fh_exec P K h (do_read_at off sizes) w =
     map_option (\<lambda>(w, ec, bs). (w, ec, got bs)) (fh_read_some_at P K h off sizes w)"
| "fh_exec P K h (do_write_at off bufs) w =
     map_option (\<lambda>(w, ec, n). (w, ec, num n)) (fh_write_some_at P K h off bufs w)"
| "fh_exec P K h (do_seek origin off) w =
     (case fh_seek K h origin off w of (w, ec, n) \<Rightarrow> Some (w, ec, num n))"
| "fh_exec P K h do_position w = (case fh_position K h w of (w, ec, n) \<Rightarrow> Some (w, ec, num n))"
| "fh_exec P K h (do_truncate n) w = (case fh_truncate K h n w of (w, ec) \<Rightarrow> Some (w, ec, nothing))"
| "fh_exec P K h do_size w = (case fh_size K h w of (w, ec, n) \<Rightarrow> Some (w, ec, num n))"

definition fh_run ::
    "platform \<Rightarrow> 'w kernel \<Rightarrow> (file_handle \<times> file_cmd) list \<Rightarrow> 'w
      \<Rightarrow> ('w \<times> (error_code \<times> reply) list) option" where
  "fh_run P K = exec_all (\<lambda>(h, c). fh_exec P K h c)"

text \<open>The offsets and sizes are values of 64 bits.\<close>

fun cmd_ok :: "file_cmd \<Rightarrow> bool" where
  "cmd_ok (do_read_at off sizes) = (off < 2 ^ 64)"
| "cmd_ok (do_write_at off bufs) = (off < 2 ^ 64)"
| "cmd_ok (do_truncate n) = (n < 2 ^ 64)"
| "cmd_ok c = True"

section \<open>Abstract files\<close>

text \<open>What a failed operation hands back.\<close>

fun empty_reply :: "file_cmd \<Rightarrow> reply" where
  "empty_reply (do_read sizes) = got []"
| "empty_reply (do_read_at off sizes) = got []"
| "empty_reply (do_truncate n) = nothing"
| "empty_reply c = num 0"

text \<open>
  One operation on a file with the bytes \<open>d\<close>, by a handle at \<open>pos\<close>. Any operation can be refused by
  the system, and then does nothing. A read gives a start of what is there, and the end of file only
  where nothing is; a write puts down a start of what it is given. Offsets and sizes from
  \<^verbatim>\<open>2 ^ 63\<close> on are always refused.
\<close>

inductive file_step ::
    "file_cmd \<Rightarrow> bytes \<times> nat \<Rightarrow> error_code \<Rightarrow> reply \<Rightarrow> bytes \<times> nat \<Rightarrow> bool" where
  step_refused: "e \<noteq> 0 \<Longrightarrow> file_step c (d, pos) (ec_system e) (empty_reply c) (d, pos)"
| step_read: "bs = take (length bs) (drop pos d) \<Longrightarrow> length bs \<le> sum_list sizes
    \<Longrightarrow> bs \<noteq> [] \<or> sum_list sizes = 0
    \<Longrightarrow> file_step (do_read sizes) (d, pos) no_error (got bs) (d, pos + length bs)"
| step_read_end: "length d \<le> pos \<Longrightarrow> sum_list sizes \<noteq> 0
    \<Longrightarrow> file_step (do_read sizes) (d, pos) (ec_asio eof) (got []) (d, pos)"
| step_write: "n \<le> length (concat bufs) \<Longrightarrow> n \<noteq> 0 \<or> concat bufs = []
    \<Longrightarrow> file_step (do_write bufs) (d, pos) no_error (num n)
          (overwrite pos (take n (concat bufs)) d, pos + n)"
| step_read_at: "bs = take (length bs) (drop off d) \<Longrightarrow> length bs \<le> sum_list sizes
    \<Longrightarrow> bs \<noteq> [] \<or> sum_list sizes = 0 \<Longrightarrow> off < 2 ^ 63
    \<Longrightarrow> file_step (do_read_at off sizes) (d, pos) no_error (got bs) (d, pos)"
| step_read_at_end: "length d \<le> off \<Longrightarrow> sum_list sizes \<noteq> 0 \<Longrightarrow> off < 2 ^ 63
    \<Longrightarrow> file_step (do_read_at off sizes) (d, pos) (ec_asio eof) (got []) (d, pos)"
| step_write_at: "n \<le> length (concat bufs) \<Longrightarrow> n \<noteq> 0 \<or> concat bufs = [] \<Longrightarrow> off < 2 ^ 63
    \<Longrightarrow> file_step (do_write_at off bufs) (d, pos) no_error (num n)
          (overwrite off (take n (concat bufs)) d, pos)"
| step_seek: "int p = int (seek_base origin pos d) + off
    \<Longrightarrow> file_step (do_seek origin off) (d, pos) no_error (num p) (d, p)"
| step_position: "file_step do_position (d, pos) no_error (num pos) (d, pos)"
| step_truncate: "n < 2 ^ 63 \<Longrightarrow> file_step (do_truncate n) (d, pos) no_error nothing (cut_or_fill n d, pos)"
| step_size: "file_step do_size (d, pos) no_error (num (length d)) (d, pos)"

inductive_cases write_at_cases: "file_step (do_write_at off bufs) s ec r s'"
inductive_cases read_at_cases: "file_step (do_read_at off sizes) s ec r s'"

text \<open>A program on all files: its handles see each other's changes.\<close>

inductive files_step ::
    "file_handle \<times> file_cmd \<Rightarrow> fs_view \<Rightarrow> error_code \<times> reply \<Rightarrow> fs_view \<Rightarrow> bool" where
  go: "fdtab v (native_handle h) = Some (path, pos) \<Longrightarrow> files v path = Some d
    \<Longrightarrow> file_step c (d, pos) ec r (d', pos')
    \<Longrightarrow> files_step (h, c) v (ec, r)
          \<lparr>files = (files v)(path \<mapsto> d'), fdtab = (fdtab v)(native_handle h \<mapsto> (path, pos'))\<rparr>"

definition files_run ::
    "fs_view \<Rightarrow> (file_handle \<times> file_cmd) list \<Rightarrow> (error_code \<times> reply) list \<Rightarrow> fs_view \<Rightarrow> bool" where
  "files_run v prog rs v' \<longleftrightarrow> spec_all files_step prog v rs v'"

section \<open>Each operation is a step\<close>

lemma to_off_cases:
  assumes "n < 2 ^ 64"
  shows "to_off n = int n \<and> n < 2 ^ 63 \<or> to_off n < 0 \<and> 2 ^ 63 \<le> n"
proof -
  have eq: "to_off n = signed_take_bit 63 (int n)"
    unfolding to_off_def by (transfer fixing: n) simp
  show ?thesis
  proof (cases "n < 2 ^ 63")
    case True
    then show ?thesis by (simp add: eq signed_take_bit_int_eq_self)
  next
    case False
    have "signed_take_bit 63 (int n) = (int n + 2 ^ 63) mod 2 ^ 64 - 2 ^ 63"
      by (simp add: signed_take_bit_eq_take_bit_shift take_bit_eq_mod)
    also have "(int n + 2 ^ 63) mod 2 ^ 64 = int n - 2 ^ 63"
    proof -
      have "(int n - 2 ^ 63 + 2 ^ 64) mod 2 ^ 64 = int n - 2 ^ 63"
        using False assms by (subst mod_add_self2) (simp add: mod_pos_pos_trivial)
      then show ?thesis by (simp add: algebra_simps)
    qed
    finally show ?thesis using False assms by (simp add: eq)
  qed
qed

lemma first_buffers:
  "first_mutable_buffer sizes \<le> sum_list sizes"
  "first_mutable_buffer sizes = 0 \<longleftrightarrow> sum_list sizes = 0"
  by (induction sizes) auto

lemma first_const_prefix:
  "\<exists>cs. concat bufs = first_const_buffer bufs @ cs"
  "first_const_buffer bufs = [] \<longleftrightarrow> concat bufs = []"
  by (induction bufs) auto

definition with_file :: "fs_view \<Rightarrow> int \<Rightarrow> string \<Rightarrow> bytes \<times> nat \<Rightarrow> fs_view" where
  "with_file v fd path s =
     \<lparr>files = (files v)(path \<mapsto> fst s), fdtab = (fdtab v)(fd \<mapsto> (path, snd s))\<rparr>"

lemma with_file_changes:
  assumes "fdtab v fd = Some (path, pos)" and "files v path = Some d"
  shows "with_file v fd path (d, pos) = v"
    and "with_file v fd path (d, p) = v\<lparr>fdtab := (fdtab v)(fd \<mapsto> (path, p))\<rparr>"
    and "with_file v fd path (b, pos) = v\<lparr>files := (files v)(path \<mapsto> b)\<rparr>"
  using assms by (simp_all add: with_file_def fun_upd_idem)

text \<open>What \<open>fh_exec\<close> does is a step of the file, and changes nothing else.\<close>

definition is_step ::
    "('w \<Rightarrow> fs_view) \<Rightarrow> file_handle \<Rightarrow> string \<Rightarrow> file_cmd \<Rightarrow> bytes \<times> nat \<Rightarrow> 'w
      \<Rightarrow> ('w \<times> error_code \<times> reply) option \<Rightarrow> bool" where
  "is_step view h path c s w r \<longleftrightarrow>
     (\<exists>w' ec v s'. r = Some (w', ec, v) \<and> file_step c s ec v s'
        \<and> view w' = with_file (view w) (native_handle h) path s')"

lemma is_stepI [intro?]:
  "r = Some (w', ec, v) \<Longrightarrow> file_step c s ec v s'
    \<Longrightarrow> view w' = with_file (view w) (native_handle h) path s' \<Longrightarrow> is_step view h path c s w r"
  unfolding is_step_def by blast

lemma is_step_refused:
  assumes "fdtab (view w) (native_handle h) = Some (path, pos)" and "files (view w) path = Some d"
    and "e \<noteq> 0" and "view w' = view w"
  shows "is_step view h path c (d, pos) w (Some (w', ec_system e, empty_reply c))"
  unfolding is_step_def using with_file_changes(1) [OF assms(1,2)] step_refused [OF assms(3)] assms(4) by metis

text \<open>The code and the step of a read that answered.\<close>

definition read_code :: "bytes \<Rightarrow> nat \<Rightarrow> error_code" where
  "read_code bs space = (if bs \<noteq> [] \<or> space = 0 then no_error else ec_asio eof)"

lemma step_read_answer:
  assumes "bs = take (length bs) (drop pos d)" and "length bs \<le> sum_list sizes"
    and "bs = [] \<longrightarrow> sum_list sizes = 0 \<or> length d \<le> pos"
  shows "file_step (do_read sizes) (d, pos) (read_code bs (sum_list sizes)) (got bs) (d, pos + length bs)"
proof (cases "bs \<noteq> [] \<or> sum_list sizes = 0")
  case True
  then show ?thesis using step_read [OF assms(1,2)] by (simp only: read_code_def if_True)
next
  case False
  have "bs = []" and "sum_list sizes \<noteq> 0" and "length d \<le> pos" using False assms(3) by blast+
  then show ?thesis using step_read_end [of d pos sizes] by (simp add: read_code_def del: sum_list_eq_0_iff)
qed

lemma step_read_at_answer:
  assumes "bs = take (length bs) (drop off d)" and "length bs \<le> sum_list sizes"
    and "bs = [] \<longrightarrow> sum_list sizes = 0 \<or> length d \<le> off" and "off < 2 ^ 63"
  shows "file_step (do_read_at off sizes) (d, pos) (read_code bs (sum_list sizes)) (got bs) (d, pos)"
proof (cases "bs \<noteq> [] \<or> sum_list sizes = 0")
  case True
  then show ?thesis using step_read_at [OF assms(1,2) _ assms(4)] by (simp only: read_code_def if_True)
next
  case False
  have "bs = []" and "sum_list sizes \<noteq> 0" and "length d \<le> off" using False assms(3) by blast+
  then show ?thesis using step_read_at_end [of d off sizes] assms(4)
    by (simp add: read_code_def del: sum_list_eq_0_iff)
qed

lemma read_some_step:
  assumes "content_kernel P K view intr" and fd: "fdtab (view w) (native_handle h) = Some (path, pos)"
    and d: "files (view w) path = Some d"
  shows "is_step view h path (do_read sizes) (d, pos) w (fh_exec P K h (do_read sizes) w)"
proof -
  let ?call = "\<lambda>u. k_readv K u (native_handle h) sizes"
  let ?Q = "\<lambda>u bs. bs = take (length bs) (drop pos d) \<and> length bs \<le> sum_list sizes
      \<and> (bs = [] \<longrightarrow> sum_list sizes = 0 \<or> length d \<le> pos)
      \<and> view u = with_file (view w) (native_handle h) path (d, pos + length bs)"
  have law: "read_law P K view intr" using assms(1) by (simp add: content_kernel_def file_kernel_def)
  have "case ?call u of (u', Inl e) \<Rightarrow> fails P view intr u u' e | (u', Inr bs) \<Rightarrow> ?Q u' bs"
    if "view u = view w" for u
    using law [unfolded read_law_def, rule_format, of u "native_handle h" path pos d sizes]
      that fd d by (simp add: with_file_changes(2) [OF fd d] split: prod.splits sum.splits)
  from retry_law [where call = ?call and Q = ?Q, OF this] obtain w' r where
    r: "retry P ?call w = Some (w', r)" and
    res: "case r of Inl e \<Rightarrow> e \<noteq> 0 \<and> view w' = view w | Inr bs \<Rightarrow> ?Q w' bs"
    by blast
  show ?thesis
  proof (cases r)
    case (Inl e)
    then show ?thesis
      using is_step_refused [of view w h path pos d e w' "do_read sizes"] fd d r res
      by (simp add: fh_read_some_def posix_readv_def set_error_def)
  next
    case (Inr bs)
    have "fh_exec P K h (do_read sizes) w = Some (w', read_code bs (sum_list sizes), got bs)"
      using r Inr by (simp add: fh_read_some_def posix_readv_def eof_unless_empty_iff read_code_def)
    then show ?thesis using step_read_answer [of bs pos d sizes] res Inr by (auto intro!: is_stepI)
  qed
qed

lemma write_some_step:
  assumes "content_kernel P K view intr" and fd: "fdtab (view w) (native_handle h) = Some (path, pos)"
    and d: "files (view w) path = Some d"
  shows "is_step view h path (do_write bufs) (d, pos) w (fh_exec P K h (do_write bufs) w)"
proof -
  let ?call = "\<lambda>u. k_writev K u (native_handle h) bufs"
  let ?Q = "\<lambda>u n. n \<le> length (concat bufs) \<and> (n \<noteq> 0 \<or> concat bufs = [])
      \<and> view u = with_file (view w) (native_handle h) path (overwrite pos (take n (concat bufs)) d, pos + n)"
  have law: "write_law P K view intr" using assms(1) by (simp add: content_kernel_def file_kernel_def)
  have "case ?call u of (u', Inl e) \<Rightarrow> fails P view intr u u' e | (u', Inr n) \<Rightarrow> ?Q u' n"
    if "view u = view w" for u
    using law [unfolded write_law_def, rule_format, of u "native_handle h" path pos d bufs]
      that fd d by (auto simp: with_file_def split: prod.splits sum.splits)
  from retry_law [where call = ?call and Q = ?Q, OF this] obtain w' r where
    r: "retry P ?call w = Some (w', r)" and
    res: "case r of Inl e \<Rightarrow> e \<noteq> 0 \<and> view w' = view w | Inr n \<Rightarrow> ?Q w' n"
    by blast
  show ?thesis
  proof (cases r)
    case (Inl e)
    then show ?thesis
      using is_step_refused [of view w h path pos d e w' "do_write bufs"] fd d r res
      by (simp add: fh_write_some_def posix_writev_def set_error_def)
  next
    case (Inr n)
    have "fh_exec P K h (do_write bufs) w = Some (w', no_error, num n)"
      using r Inr by (simp add: fh_write_some_def posix_writev_def)
    then show ?thesis using step_write [of n bufs d pos] res Inr by (auto intro!: is_stepI)
  qed
qed

text \<open>Both ways to read at an offset, and both to write: with all the buffers or the first of them.\<close>

lemma read_at_call:
  assumes "reads_at P view intr call space" and fd: "fdtab (view w) fd = Some (path, pos)"
    and d: "files (view w) path = Some d" and off: "off < 2 ^ 64"
  shows "\<exists>w' r. retry P (\<lambda>u. call u fd (to_off off)) w = Some (w', r)
    \<and> (case r of Inl e \<Rightarrow> e \<noteq> 0 \<and> view w' = view w
       | Inr bs \<Rightarrow> off < 2 ^ 63 \<and> bs = take (length bs) (drop off d) \<and> length bs \<le> space
           \<and> (bs = [] \<longrightarrow> space = 0 \<or> length d \<le> off) \<and> view w' = view w)"
proof -
  let ?Q = "\<lambda>u bs. off < 2 ^ 63 \<and> bs = take (length bs) (drop off d) \<and> length bs \<le> space
      \<and> (bs = [] \<longrightarrow> space = 0 \<or> length d \<le> off) \<and> view u = view w"
  have "case call u fd (to_off off) of (u', Inl e) \<Rightarrow> fails P view intr u u' e | (u', Inr bs) \<Rightarrow> ?Q u' bs"
    if "view u = view w" for u
    using assms(1) [unfolded reads_at_def, rule_format, of u fd path pos d "to_off off"]
      that fd d to_off_cases [OF off] by (auto split: prod.splits sum.splits)
  from retry_law [where call = "\<lambda>u. call u fd (to_off off)" and Q = ?Q, OF this]
  show ?thesis by blast
qed

lemma write_at_call:
  assumes "writes_at P view intr call bs" and fd: "fdtab (view w) fd = Some (path, pos)"
    and d: "files (view w) path = Some d" and off: "off < 2 ^ 64"
  shows "\<exists>w' r. retry P (\<lambda>u. call u fd (to_off off)) w = Some (w', r)
    \<and> (case r of Inl e \<Rightarrow> e \<noteq> 0 \<and> view w' = view w
       | Inr n \<Rightarrow> off < 2 ^ 63 \<and> n \<le> length bs \<and> (n \<noteq> 0 \<or> bs = [])
           \<and> view w' = with_file (view w) fd path (overwrite off (take n bs) d, pos))"
proof -
  let ?Q = "\<lambda>u n. off < 2 ^ 63 \<and> n \<le> length bs \<and> (n \<noteq> 0 \<or> bs = [])
      \<and> view u = with_file (view w) fd path (overwrite off (take n bs) d, pos)"
  have "case call u fd (to_off off) of (u', Inl e) \<Rightarrow> fails P view intr u u' e | (u', Inr n) \<Rightarrow> ?Q u' n"
    if "view u = view w" for u
    using assms(1) [unfolded writes_at_def, rule_format, of u fd path pos d "to_off off"]
      that fd d to_off_cases [OF off]
    by (auto simp: with_file_changes(3) [OF fd d] split: prod.splits sum.splits)
  from retry_law [where call = "\<lambda>u. call u fd (to_off off)" and Q = ?Q, OF this]
  show ?thesis by blast
qed

lemma read_at_step:
  assumes K: "content_kernel P K view intr" and fd: "fdtab (view w) (native_handle h) = Some (path, pos)"
    and d: "files (view w) path = Some d" and off: "off < 2 ^ 64"
  shows "is_step view h path (do_read_at off sizes) (d, pos) w (fh_exec P K h (do_read_at off sizes) w)"
proof -
  define space where "space = (if has_pvec_io P then sum_list sizes else first_mutable_buffer sizes)"
  define call where "call = (\<lambda>u fd. if has_pvec_io P then k_preadv K u fd sizes
      else k_pread K u fd (first_mutable_buffer sizes))"
  have "reads_at P view intr call space"
    using K by (cases "has_pvec_io P") (simp_all add: content_kernel_def call_def space_def)
  from read_at_call [OF this fd d off] obtain w' r where
    r: "retry P (\<lambda>u. call u (native_handle h) (to_off off)) w = Some (w', r)"
    and res: "case r of Inl e \<Rightarrow> e \<noteq> 0 \<and> view w' = view w
       | Inr bs \<Rightarrow> off < 2 ^ 63 \<and> bs = take (length bs) (drop off d) \<and> length bs \<le> space
           \<and> (bs = [] \<longrightarrow> space = 0 \<or> length d \<le> off) \<and> view w' = view w"
    by blast
  have space: "space \<le> sum_list sizes" "space = 0 \<longleftrightarrow> sum_list sizes = 0"
    using first_buffers [of sizes] by (simp_all add: space_def)
  have exec: "fh_exec P K h (do_read_at off sizes) w =
      (case r of Inl e \<Rightarrow> Some (w', set_error e, got [])
       | Inr bs \<Rightarrow> Some (w', read_code bs (sum_list sizes), got bs))"
    using r space(2) first_buffers(2) [of sizes]
    by (auto simp: call_def fh_read_some_at_def posix_preadv_def posix_pread_def read_code_def
        eof_unless_empty_iff split: sum.split)
  show ?thesis
  proof (cases r)
    case (Inl e)
    then show ?thesis
      using is_step_refused [of view w h path pos d e w' "do_read_at off sizes"] fd d r res exec
      by (simp add: set_error_def)
  next
    case (Inr bs)
    have "file_step (do_read_at off sizes) (d, pos) (read_code bs (sum_list sizes)) (got bs) (d, pos)"
      by (rule step_read_at_answer) (use res Inr space in auto)
    then show ?thesis
      using exec Inr res with_file_changes(1) [OF fd d] by (auto intro!: is_stepI)
  qed
qed

lemma take_first_const_buffer:
  assumes "n \<le> length (first_const_buffer bufs)"
  shows "take n (first_const_buffer bufs) = take n (concat bufs)" and "n \<le> length (concat bufs)"
  using first_const_prefix(1) [of bufs] assms by auto

lemma write_at_step:
  assumes K: "content_kernel P K view intr" and fd: "fdtab (view w) (native_handle h) = Some (path, pos)"
    and d: "files (view w) path = Some d" and off: "off < 2 ^ 64"
  shows "is_step view h path (do_write_at off bufs) (d, pos) w (fh_exec P K h (do_write_at off bufs) w)"
proof -
  define bs where "bs = (if has_pvec_io P then concat bufs else first_const_buffer bufs)"
  define call where "call = (\<lambda>u fd. if has_pvec_io P then k_pwritev K u fd bufs
      else k_pwrite K u fd (first_const_buffer bufs))"
  have "writes_at P view intr call bs"
    using K by (cases "has_pvec_io P") (simp_all add: content_kernel_def call_def bs_def)
  from write_at_call [OF this fd d off] obtain w' r where
    r: "retry P (\<lambda>u. call u (native_handle h) (to_off off)) w = Some (w', r)"
    and res: "case r of Inl e \<Rightarrow> e \<noteq> 0 \<and> view w' = view w
       | Inr n \<Rightarrow> off < 2 ^ 63 \<and> n \<le> length bs \<and> (n \<noteq> 0 \<or> bs = [])
           \<and> view w' = with_file (view w) (native_handle h) path (overwrite off (take n bs) d, pos)"
    by blast
  have exec: "fh_exec P K h (do_write_at off bufs) w =
      (case r of Inl e \<Rightarrow> Some (w', set_error e, num 0) | Inr n \<Rightarrow> Some (w', no_error, num n))"
    using r by (auto simp: call_def fh_write_some_at_def posix_pwritev_def posix_pwrite_def
        split: sum.split)
  show ?thesis
  proof (cases r)
    case (Inl e)
    then show ?thesis
      using is_step_refused [of view w h path pos d e w' "do_write_at off bufs"] fd d res exec
      by (simp add: set_error_def)
  next
    case (Inr n)
    have n: "take n bs = take n (concat bufs)" "n \<le> length (concat bufs)" "n \<noteq> 0 \<or> concat bufs = []"
      using res Inr take_first_const_buffer [of n bufs] first_const_prefix(2) [of bufs]
      by (auto simp: bs_def split: if_splits)
    have "off < 2 ^ 63" using res Inr by simp
    then show ?thesis
      using step_write_at [OF n(2,3), of off d pos] exec Inr res n(1) by (auto intro!: is_stepI)
  qed
qed

lemma seek_step:
  assumes K: "content_kernel P K view intr" and fd: "fdtab (view w) (native_handle h) = Some (path, pos)"
    and d: "files (view w) path = Some d" and s: "fh_seek K h origin off w = (w', ec, n)"
  shows "ec = no_error \<and> int n = int (seek_base origin pos d) + off
        \<and> view w' = with_file (view w) (native_handle h) path (d, n)
      \<or> (\<exists>e. ec = ec_system e \<and> e \<noteq> 0) \<and> n = 0 \<and> view w' = view w"
proof -
  obtain w1 r where c: "k_lseek K w (native_handle h) off (whence origin) = (w1, r)" by fastforce
  have "seek_law P K view intr" using K by (simp add: content_kernel_def)
  from this [unfolded seek_law_def, rule_format, of w "native_handle h" path pos d origin off]
  have "case r of Inl e \<Rightarrow> fails P view intr w w1 e
      | Inr res \<Rightarrow> int res = int (seek_base origin pos d) + off
          \<and> view w1 = with_file (view w) (native_handle h) path (d, res)"
    using fd d c by (simp add: with_file_changes(2) [OF fd d] split: sum.splits)
  then show ?thesis using s c
    by (auto simp: fh_seek_def posix_seek_def set_error_def fails_def split: sum.splits)
qed

lemma seek_steps:
  assumes "content_kernel P K view intr" and fd: "fdtab (view w) (native_handle h) = Some (path, pos)"
    and d: "files (view w) path = Some d"
  shows "is_step view h path (do_seek origin off) (d, pos) w (fh_exec P K h (do_seek origin off) w)"
    and "is_step view h path do_position (d, pos) w (fh_exec P K h do_position w)"
proof -
  have sought: "is_step view h path c (d, pos) w (Some (w', ec, num n))"
    if s: "fh_seek K h o' off' w = (w', ec, n)" and "empty_reply c = num 0"
      and step: "int n = int (seek_base o' pos d) + off' \<Longrightarrow> file_step c (d, pos) no_error (num n) (d, n)"
    for c o' off' w' ec n
    using seek_step [OF assms s]
  proof (elim disjE conjE exE)
    assume "ec = no_error" and "int n = int (seek_base o' pos d) + off'"
      and "view w' = with_file (view w) (native_handle h) path (d, n)"
    then show ?thesis using step by (intro is_stepI) simp_all
  next
    fix e assume "ec = ec_system e" and "e \<noteq> 0" and "n = 0" and "view w' = view w"
    then show ?thesis using is_step_refused [of view w h path pos d e w' c] fd d that(2) by simp
  qed
  show "is_step view h path (do_seek origin off) (d, pos) w (fh_exec P K h (do_seek origin off) w)"
    by (auto intro: sought step_seek split: prod.split)
  show "is_step view h path do_position (d, pos) w (fh_exec P K h do_position w)"
    by (auto simp: fh_position_def intro!: sought step_position split: prod.split)
qed

lemma truncate_step:
  assumes K: "content_kernel P K view intr" and fd: "fdtab (view w) (native_handle h) = Some (path, pos)"
    and d: "files (view w) path = Some d" and n: "n < 2 ^ 64"
  shows "is_step view h path (do_truncate n) (d, pos) w (fh_exec P K h (do_truncate n) w)"
proof -
  obtain w' r where c: "k_ftruncate K w (native_handle h) (to_off n) = (w', r)" by fastforce
  have "truncate_law P K view intr" using K by (simp add: content_kernel_def)
  from this [unfolded truncate_law_def, rule_format, of w "native_handle h" path pos d "to_off n"]
  have res: "case r of Inl e \<Rightarrow> fails P view intr w w' e
      | Inr _ \<Rightarrow> n < 2 ^ 63 \<and> view w' = with_file (view w) (native_handle h) path (cut_or_fill n d, pos)"
    using fd d c to_off_cases [OF n] by (auto simp: with_file_changes(3) [OF fd d] split: sum.splits)
  have exec: "fh_exec P K h (do_truncate n) w = Some (w', ec_of r, nothing)"
    using c by (simp add: fh_truncate_def posix_set_size_def)
  show ?thesis
  proof (cases r)
    case (Inl e)
    then show ?thesis
      using exec res is_step_refused [of view w h path pos d e w' "do_truncate n"] fd d
      by (simp add: ec_of_def set_error_def fails_def)
  next
    case (Inr u)
    then show ?thesis using exec res step_truncate [of n d pos] by (auto simp: ec_of_def intro!: is_stepI)
  qed
qed

lemma size_step:
  assumes K: "content_kernel P K view intr" and fd: "fdtab (view w) (native_handle h) = Some (path, pos)"
    and d: "files (view w) path = Some d"
  shows "is_step view h path do_size (d, pos) w (fh_exec P K h do_size w)"
proof -
  obtain w' r where c: "k_fstat K w (native_handle h) = (w', r)" by fastforce
  have "stat_law P K view intr" using K by (simp add: content_kernel_def file_kernel_def)
  from this [unfolded stat_law_def, rule_format, of w "native_handle h" path pos d]
  have res: "case r of Inl e \<Rightarrow> fails P view intr w w' e
      | Inr st \<Rightarrow> view w' = view w \<and> st_size st = int (length d) \<and> length d < 2 ^ 63"
    using fd d c by (simp split: sum.split_asm)
  show ?thesis
  proof (cases r)
    case (Inl e)
    then show ?thesis
      using c res is_step_refused [of view w h path pos d e w' do_size] fd d
      by (simp add: fh_size_def posix_size_def set_error_def fails_def)
  next
    case (Inr st)
    then have "fh_exec P K h do_size w = Some (w', no_error, num (length d))"
      using c res by (simp add: fh_size_def posix_size_def unat_of_nat)
    then show ?thesis using res Inr step_size [of d pos] with_file_changes(1) [OF fd d]
      by (auto intro!: is_stepI)
  qed
qed

lemma fh_exec_is_step:
  assumes "content_kernel P K view intr" and "fdtab (view w) (native_handle h) = Some (path, pos)"
    and "files (view w) path = Some d" and "cmd_ok c"
  shows "is_step view h path c (d, pos) w (fh_exec P K h c w)"
  using assms(4)
    read_some_step [OF assms(1-3)] write_some_step [OF assms(1-3)] read_at_step [OF assms(1-3)]
    write_at_step [OF assms(1-3)] seek_steps [OF assms(1-3)] truncate_step [OF assms(1-3)]
    size_step [OF assms(1-3)]
  by (cases c) (simp_all only: cmd_ok.simps)

section \<open>Programs are runs\<close>

definition opened :: "fs_view \<Rightarrow> file_handle \<Rightarrow> bool" where
  "opened v h \<longleftrightarrow> (\<exists>path pos. fdtab v (native_handle h) = Some (path, pos) \<and> files v path \<noteq> None)"

lemma opened_with_file:
  "opened v g \<Longrightarrow> opened (with_file v fd path s) g"
  unfolding opened_def with_file_def by (auto split: if_splits)

text \<open>
  The contract of one operation, for the locale \<open>simulation\<close>: the context is the system and a set of
  handles that are open, and stay so.
\<close>

type_synonym 'w content_ctx =
  "platform \<times> 'w kernel \<times> ('w \<Rightarrow> fs_view) \<times> ('w \<Rightarrow> nat) \<times> file_handle set"

fun content_exec :: "'w content_ctx \<Rightarrow> file_handle \<times> file_cmd \<Rightarrow> 'w \<Rightarrow> ('w \<times> error_code \<times> reply) option" where
  "content_exec (P, K, view, intr, H) (h, c) w = fh_exec P K h c w"

fun content_rel :: "'w content_ctx \<Rightarrow> fs_view \<Rightarrow> 'w \<Rightarrow> bool" where
  "content_rel (P, K, view, intr, H) v w \<longleftrightarrow>
     content_kernel P K view intr \<and> v = view w \<and> (\<forall>h \<in> H. opened v h)"

fun content_ok :: "'w content_ctx \<Rightarrow> file_handle \<times> file_cmd \<Rightarrow> bool" where
  "content_ok (P, K, view, intr, H) (h, c) \<longleftrightarrow> h \<in> H \<and> cmd_ok c"

lemma content_step:
  assumes "content_rel x v w" and "content_ok x hc"
  shows "\<exists>w' r v'. content_exec x hc w = Some (w', r) \<and> files_step hc v r v' \<and> content_rel x v' w'"
proof -
  obtain P K view intr H h c where x: "x = (P, K, view, intr, H)" "hc = (h, c)"
    by (cases x, cases hc) auto
  then have K: "content_kernel P K view intr" and v: "v = view w" and H: "\<forall>h \<in> H. opened v h"
    and h: "h \<in> H" and c: "cmd_ok c"
    using assms unfolding x content_rel.simps content_ok.simps by blast+
  obtain path pos d where fd: "fdtab (view w) (native_handle h) = Some (path, pos)"
    and d: "files (view w) path = Some d"
    using H h v by (auto simp: opened_def)
  from fh_exec_is_step [OF K fd d c] obtain w1 ec r s' where
    e: "fh_exec P K h c w = Some (w1, ec, r)" "file_step c (d, pos) ec r s'"
    "view w1 = with_file (view w) (native_handle h) path s'"
    unfolding is_step_def by blast
  have "files_step (h, c) v (ec, r) (view w1)"
    using go [OF fd d, of c ec r "fst s'" "snd s'"] e(2) by (simp add: v e(3) with_file_def)
  moreover have "content_rel x (view w1) w1"
    using K H by (simp add: x v e(3) opened_with_file)
  ultimately show ?thesis using e(1) x by auto
qed

interpretation file_programs: simulation content_exec "\<lambda>_. files_step" content_rel "\<lambda>x _. content_ok x"
  by unfold_locales (rule content_step)

text \<open>
  C14. Whatever a program does with open handles, several handles of one file included, every operation
  returns, and the program is a run of abstract files: reading gives the bytes that are there from
  the position or the offset and moves the position past them only in the first case, the end of
  file is reported exactly where a read finds nothing although it has space, writing puts the bytes
  down there, seeking and truncating have their effect on the one position and the one file they are
  about, and a failed operation has none. Interruptions are not seen.
\<close>

theorem file_handles_are_files:
  assumes "content_kernel P K view intr"
    and "\<forall>(h, c) \<in> set prog. opened (view w) h \<and> cmd_ok c"
  shows "\<exists>w' rs. fh_run P K prog w = Some (w', rs) \<and> files_run (view w) prog rs (view w')"
proof -
  let ?x = "(P, K, view, intr, {h. opened (view w) h})"
  have exec: "content_exec ?x = (\<lambda>(h, c). fh_exec P K h c)" by (auto simp: fun_eq_iff)
  have "content_rel ?x (view w) w" using assms(1) by simp
  moreover have "all_ok (\<lambda>_. content_ok ?x) files_step prog (view w)"
    using assms(2) by (intro all_ok_static) auto
  ultimately show ?thesis
    using file_programs.run [of ?x "view w" w prog] unfolding exec fh_run_def files_run_def by auto
qed

section \<open>What is written is read\<close>

lemma drop_overwrite:
  assumes "bs \<noteq> []"
  shows "drop off (overwrite off bs d) = bs @ drop (off + length bs) d"
  using assms by (simp add: overwrite_def)

lemma step_write_at_read_at:
  assumes "file_step (do_write_at off bufs) (d, p) no_error (num n) s"
    and "file_step (do_read_at off sizes) (fst s, q) ec r t"
  shows "0 < n \<Longrightarrow> ec \<noteq> ec_asio eof"
    and "r = got bs \<Longrightarrow> take n bs = take (length bs) (take n (concat bufs))"
proof -
  obtain s: "s = (overwrite off (take n (concat bufs)) d, p)" and n: "n \<le> length (concat bufs)"
    using assms(1) by (cases rule: write_at_cases) auto
  have at: "0 < n \<Longrightarrow> drop off (fst s) = take n (concat bufs) @ drop (off + n) d"
  proof -
    assume "0 < n"
    have "length (take n (concat bufs)) = n" using n by simp
    moreover from this \<open>0 < n\<close> have "take n (concat bufs) \<noteq> []" by (metis length_0_conv less_irrefl)
    ultimately show ?thesis using drop_overwrite [of "take n (concat bufs)" off d] s by simp
  qed
  have "length (fst s) > off" if "0 < n"
  proof -
    have "0 < length (drop off (fst s))" unfolding at [OF that] using that n by (simp add: min_absorb2)
    then show ?thesis by simp
  qed
  then show "0 < n \<Longrightarrow> ec \<noteq> ec_asio eof"
    using assms(2) by (cases rule: read_at_cases) auto
  assume r: "r = got bs"
  have "bs = take (length bs) (drop off (fst s))"
    using assms(2) r by (cases rule: read_at_cases) auto
  then have "0 < n \<Longrightarrow> take n bs = take n (take (length bs) (take n (concat bufs) @ drop (off + n) d))"
    using at by simp
  then show "take n bs = take (length bs) (take n (concat bufs))"
    using n by (cases "n = 0"; cases "length bs \<le> n") (simp_all add: take_append min_absorb1 min_absorb2)
qed

text \<open>
  C15. Bytes written at an offset are read back there, by any handle that is open on the file: what the
  read gives of them is what was written, and it does not report the end of file.
\<close>

theorem written_bytes_read_back:
  assumes "content_kernel P K view intr" and "off < 2 ^ 64" and "files (view w) path = Some d"
    and "fdtab (view w) (native_handle h) = Some (path, p)"
    and "fdtab (view w) (native_handle g) = Some (path, q)"
  shows "\<exists>w1 ec n w2 ec2 bs. fh_write_some_at P K h off bufs w = Some (w1, ec, n)
    \<and> fh_read_some_at P K g off sizes w1 = Some (w2, ec2, bs)
    \<and> (ec = no_error \<longrightarrow> take n bs = take (length bs) (take n (concat bufs))
        \<and> (0 < n \<longrightarrow> ec2 \<noteq> ec_asio eof))"
proof -
  have "cmd_ok (do_write_at off bufs)" and "cmd_ok (do_read_at off sizes)" using assms(2) by simp_all
  from fh_exec_is_step [OF assms(1,4,3) this(1)] obtain w1 ec n s where
    wr: "fh_write_some_at P K h off bufs w = Some (w1, ec, n)"
    "file_step (do_write_at off bufs) (d, p) ec (num n) s"
    "view w1 = with_file (view w) (native_handle h) path s"
    unfolding is_step_def by auto
  have snd_s: "snd s = p" using wr(2) by (cases rule: write_at_cases) auto
  have "fdtab (view w1) (native_handle g) = Some (path, q)" and "files (view w1) path = Some (fst s)"
    using assms(4,5) by (auto simp: wr(3) with_file_def snd_s)
  from fh_exec_is_step [OF assms(1) this \<open>cmd_ok (do_read_at off sizes)\<close>] obtain w2 ec2 bs t where
    rd: "fh_read_some_at P K g off sizes w1 = Some (w2, ec2, bs)"
    "file_step (do_read_at off sizes) (fst s, q) ec2 (got bs) t"
    unfolding is_step_def by auto
  have "take n bs = take (length bs) (take n (concat bufs)) \<and> (0 < n \<longrightarrow> ec2 \<noteq> ec_asio eof)"
    if "ec = no_error"
    using step_write_at_read_at [OF wr(2) [unfolded that] rd(2)] by simp
  then show ?thesis using wr(1) rd(1) by blast
qed

section \<open>A system that keeps the promises\<close>

text \<open>
  The sample system with the calls it lacks. At an offset it reads two bytes at a time and writes one.
\<close>

definition sample_read_at :: "sample \<Rightarrow> int \<Rightarrow> int \<Rightarrow> nat \<Rightarrow> sample \<times> (nat + bytes)" where
  "sample_read_at s fd off n = sample_call s fd (\<lambda>path pos d.
     if off < 0 then (s, Inl 22) else (s, Inr (take (min 2 n) (drop (nat off) d))))"

definition sample_write_at :: "sample \<Rightarrow> int \<Rightarrow> int \<Rightarrow> bytes \<Rightarrow> sample \<times> (nat + nat)" where
  "sample_write_at s fd off bs = sample_call s fd (\<lambda>path pos d.
     if off < 0 then (s, Inl 22)
     else (s\<lparr>s_files := (s_files s)(path \<mapsto> overwrite (nat off) (take 1 bs) d)\<rparr>, Inr (length (take 1 bs))))"

definition sample_seek :: "sample \<Rightarrow> int \<Rightarrow> int \<Rightarrow> nat \<Rightarrow> sample \<times> (nat + nat)" where
  "sample_seek s fd off origin = sample_call s fd (\<lambda>path pos d.
     (let target = (if origin = 0 then 0 else if origin = 1 then int pos else int (length d)) + off in
      if target < 0 then (s, Inl 22)
      else (s\<lparr>s_fds := (fd, path, nat target) # s_fds s\<rparr>, Inr (nat target))))"

definition sample_truncate :: "sample \<Rightarrow> int \<Rightarrow> int \<Rightarrow> sample \<times> (nat + unit)" where
  "sample_truncate s fd n = sample_call s fd (\<lambda>path pos d.
     if n < 0 then (s, Inl 22)
     else (s\<lparr>s_files := (s_files s)(path \<mapsto> cut_or_fill (nat n) d)\<rparr>, Inr ()))"

definition sample_content :: "sample kernel" where
  "sample_content = sample_kernel
     \<lparr>k_lseek := sample_seek, k_ftruncate := sample_truncate,
      k_pread := (\<lambda>s fd n off. sample_read_at s fd off n),
      k_preadv := (\<lambda>s fd sizes off. sample_read_at s fd off (sum_list sizes)),
      k_pwrite := (\<lambda>s fd bs off. sample_write_at s fd off bs),
      k_pwritev := (\<lambda>s fd bufs off. sample_write_at s fd off (concat bufs))\<rparr>"

lemma sample_reads_at: "reads_at linux sample_view s_intr (\<lambda>s fd off. sample_read_at s fd off n) n"
  unfolding reads_at_def
proof (intro allI impI, elim conjE)
  fix w fd off path pos d
  assume e: "fdtab (sample_view w) fd = Some (path, pos)" and d: "files (sample_view w) path = Some d"
  show "case sample_read_at w fd off n of
      (w', Inl e) \<Rightarrow> fails linux sample_view s_intr w w' e
    | (w', Inr bs) \<Rightarrow>
        0 \<le> off \<and> bs = take (length bs) (drop (nat off) d) \<and> length bs \<le> n
        \<and> (bs = [] \<longrightarrow> n = 0 \<or> length d \<le> nat off) \<and> sample_view w' = sample_view w"
    unfolding sample_read_at_def
    by (rule sample_call_law [OF e d]) (auto simp: sample_fails(2) min_def)
qed

lemma sample_set_file:
  "sample_view (s\<lparr>s_files := m\<rparr>) = (sample_view s)\<lparr>files := m\<rparr>" "s_files s = files (sample_view s)"
  by (simp_all add: sample_view_def fun_eq_iff)

lemma sample_writes_at: "writes_at linux sample_view s_intr (\<lambda>s fd off. sample_write_at s fd off bs) bs"
  unfolding writes_at_def
proof (intro allI impI, elim conjE)
  fix w fd off path pos d
  assume e: "fdtab (sample_view w) fd = Some (path, pos)" and d: "files (sample_view w) path = Some d"
  show "case sample_write_at w fd off bs of
      (w', Inl e) \<Rightarrow> fails linux sample_view s_intr w w' e
    | (w', Inr n) \<Rightarrow>
        0 \<le> off \<and> n \<le> length bs \<and> (n = 0 \<longrightarrow> bs = [])
        \<and> sample_view w' = (sample_view w)\<lparr>files :=
            (files (sample_view w))(path \<mapsto> overwrite (nat off) (take n bs) d)\<rparr>"
    unfolding sample_write_at_def
    by (rule sample_call_law [OF e d]) (auto simp: sample_fails(2) sample_set_file min_def)
qed

lemma sample_seek_law: "seek_law linux sample_content sample_view s_intr"
  unfolding seek_law_def
proof (intro allI impI, elim conjE)
  fix w fd origin off path pos d
  assume e: "fdtab (sample_view w) fd = Some (path, pos)" and d: "files (sample_view w) path = Some d"
  have "case sample_seek w fd off (whence origin) of
      (w', Inl e) \<Rightarrow> fails linux sample_view s_intr w w' e
    | (w', Inr res) \<Rightarrow>
        int res = int (seek_base origin pos d) + off
        \<and> sample_view w' = (sample_view w)\<lparr>fdtab := (fdtab (sample_view w))(fd \<mapsto> (path, res))\<rparr>"
    unfolding sample_seek_def
    by (rule sample_call_law [OF e d], cases origin)
      (auto simp: sample_fails(2) sample_set_pos [OF e] Let_def)
  then show "case k_lseek sample_content w fd off (whence origin) of
      (w', Inl e) \<Rightarrow> fails linux sample_view s_intr w w' e
    | (w', Inr res) \<Rightarrow>
        int res = int (seek_base origin pos d) + off
        \<and> sample_view w' = (sample_view w)\<lparr>fdtab := (fdtab (sample_view w))(fd \<mapsto> (path, res))\<rparr>"
    by (simp add: sample_content_def)
qed

lemma sample_truncate_law: "truncate_law linux sample_content sample_view s_intr"
  unfolding truncate_law_def
proof (intro allI impI, elim conjE)
  fix w fd n path pos d
  assume e: "fdtab (sample_view w) fd = Some (path, pos)" and d: "files (sample_view w) path = Some d"
  have "case sample_truncate w fd n of
      (w', Inl e) \<Rightarrow> fails linux sample_view s_intr w w' e
    | (w', Inr _) \<Rightarrow>
        0 \<le> n \<and> sample_view w' = (sample_view w)\<lparr>files :=
          (files (sample_view w))(path \<mapsto> cut_or_fill (nat n) d)\<rparr>"
    unfolding sample_truncate_def
    by (rule sample_call_law [OF e d]) (auto simp: sample_fails(2) sample_set_file)
  then show "case k_ftruncate sample_content w fd n of
      (w', Inl e) \<Rightarrow> fails linux sample_view s_intr w w' e
    | (w', Inr _) \<Rightarrow>
        0 \<le> n \<and> sample_view w' = (sample_view w)\<lparr>files :=
          (files (sample_view w))(path \<mapsto> cut_or_fill (nat n) d)\<rparr>"
    by (simp add: sample_content_def)
qed

lemma sample_content_ok: "content_kernel linux sample_content sample_view s_intr"
proof -
  have fields: "k_open sample_content = k_open sample_kernel" "k_close sample_content = k_close sample_kernel"
    "k_fstat sample_content = k_fstat sample_kernel" "k_readv sample_content = k_readv sample_kernel"
    "k_writev sample_content = k_writev sample_kernel"
    by (simp_all add: sample_content_def)
  have "file_kernel linux sample_content sample_view s_intr"
    using sample_kernel_ok
    unfolding file_kernel_def open_law_def close_law_def stat_law_def read_law_def write_law_def fields .
  then show ?thesis
    using sample_reads_at sample_writes_at sample_seek_law sample_truncate_law
    by (simp add: content_kernel_def sample_content_def)
qed

theorem file_handles_are_files_witness:
  "\<exists>w' rs. fh_run linux sample_content
       [(fh_new 0, do_seek from_end (- 1)), (fh_new 1, do_write_at 1 [[], [9, 8]]), (fh_new 0, do_read [0, 5]),
        (fh_new 1, do_truncate 5), (fh_new 0, do_position), (fh_new 1, do_read_at (2 ^ 63) [4])]
       \<lparr>s_files = [''a'' \<mapsto> [1, 2, 3]], s_fds = [(0, ''a'', 0), (1, ''a'', 0)], s_intr = 2\<rparr> = Some (w', rs)
     \<and> length rs = 6"
proof -
  define w where "w = \<lparr>s_files = [''a'' \<mapsto> [1, 2, 3]], s_fds = [(0, ''a'', 0), (1, ''a'', 0)], s_intr = 2\<rparr>"
  define prog where "prog = [(fh_new 0, do_seek from_end (- 1)), (fh_new 1, do_write_at 1 [[], [9, 8]]),
    (fh_new 0, do_read [0, 5]), (fh_new 1, do_truncate 5), (fh_new 0, do_position),
    (fh_new 1, do_read_at (2 ^ 63) [4])]"
  have "opened (sample_view w) (fh_new 0)" "opened (sample_view w) (fh_new 1)"
    by (simp_all add: opened_def sample_view_def fh_new_def w_def)
  then have "\<forall>(h, c) \<in> set prog. opened (sample_view w) h \<and> cmd_ok c" by (simp add: prog_def)
  from file_handles_are_files [OF sample_content_ok this] obtain w' rs where
    r: "fh_run linux sample_content prog w = Some (w', rs)"
    "files_run (sample_view w) prog rs (sample_view w')"
    by blast
  have "length rs = 6" using spec_all_length [OF r(2) [unfolded files_run_def]] by (simp add: prog_def)
  then show ?thesis using r(1) unfolding w_def prog_def by blast
qed

theorem written_bytes_read_back_witness:
  "\<exists>w1 ec n w2 ec2 bs. fh_write_some_at linux sample_content (fh_new 0) 5 [[9, 8]]
         \<lparr>s_files = [''a'' \<mapsto> [1, 2, 3]], s_fds = [(0, ''a'', 0), (1, ''a'', 2)], s_intr = 2\<rparr> = Some (w1, ec, n)
    \<and> fh_read_some_at linux sample_content (fh_new 1) 5 [2] w1 = Some (w2, ec2, bs)
    \<and> (ec = no_error \<longrightarrow> take n bs = take (length bs) (take n [9, 8]) \<and> (0 < n \<longrightarrow> ec2 \<noteq> ec_asio eof))"
proof -
  define w where "w = \<lparr>s_files = [''a'' \<mapsto> [1, 2, 3]], s_fds = [(0, ''a'', 0), (1, ''a'', 2)], s_intr = 2\<rparr>"
  have "files (sample_view w) ''a'' = Some [1, 2, 3]"
    "fdtab (sample_view w) (native_handle (fh_new 0)) = Some (''a'', 0)"
    "fdtab (sample_view w) (native_handle (fh_new 1)) = Some (''a'', 2)"
    by (simp_all add: sample_view_def fh_new_def w_def)
  from written_bytes_read_back [OF sample_content_ok _ this, of 5 "[[9, 8]]" "[2]"]
  show ?thesis unfolding w_def by simp
qed

end
