(* ===== verification/AsyncFiles.thy ===== *)
theory AsyncFiles
  imports FileServiceCorrect FileContent
begin

text \<open>
  What an asynchronous operation does to the bytes of a file: the service with its tokens and its queue
  (\<open>FileServiceCorrect\<close>) together with the abstract files (\<open>FileContent\<close>). The function object has
  copied the handle, so it matters what becomes of the file until a thread calls it.
\<close>

section \<open>Function objects as operations on handles\<close>

fun op_handle :: "fs_impl \<Rightarrow> file_handle" where
  "op_handle (Fs_read h bufs) = h"
| "op_handle (Fs_write h cbufs) = h"
| "op_handle (Fs_read_at h offset bufs) = h"
| "op_handle (Fs_write_at h offset cbufs) = h"

fun op_cmd :: "fs_impl \<Rightarrow> file_cmd" where
  "op_cmd (Fs_read h bufs) = do_read bufs"
| "op_cmd (Fs_write h cbufs) = do_write cbufs"
| "op_cmd (Fs_read_at h offset bufs) = do_read_at offset bufs"
| "op_cmd (Fs_write_at h offset cbufs) = do_write_at offset cbufs"

text \<open>The number of bytes and the bytes that the handler is called with.\<close>

fun answer :: "reply \<Rightarrow> nat \<times> bytes" where
  "answer (got bs) = (length bs, bs)"
| "answer (num n) = (n, [])"
| "answer nothing = (0, [])"

lemma fs_impl_call_exec:
  "fs_impl_call P K f w =
     map_option (\<lambda>(w, ec, r). (w, ec, answer r)) (fh_exec P K (op_handle f) (op_cmd f) w)"
  by (cases f) (simp_all add: option.map_comp comp_def split_def)

section \<open>Programs that keep their files\<close>

text \<open>
  A file gives its handle up when it is destroyed, or hands it and its operations to the one that is
  constructed from it; it is not closed, and no file is assigned to another one.
\<close>

definition keeps_files :: "file_op \<Rightarrow> 'w files \<Rightarrow> 'w files \<Rightarrow> bool" where
  "keeps_files op st st' \<longleftrightarrow>
     (\<forall>i j. op = F_move_assign i j \<longrightarrow> i = j) \<and>
     (op = F_other \<longrightarrow> (\<forall>i \<in> built st. svc_is_open i st \<longrightarrow> handles st' i = handles st i))"

inductive keeping_run :: "platform \<Rightarrow> 'w kernel \<Rightarrow> 'w files \<Rightarrow> token_spec \<Rightarrow> bool" for P K where
  keeping_start: "files_start st \<Longrightarrow> keeping_run P K st spec_start"
| keeping_step: "keeping_run P K st A \<Longrightarrow> FileServiceCorrect.file_step P K op st st' \<Longrightarrow>
    keeps_files op st st' \<Longrightarrow> keeping_run P K st' (fold spec_step (token_ops op st) A)"

lemma keeping_run_is_run: "keeping_run P K st A \<Longrightarrow> FileServiceCorrect.file_run P K st A"
  by (induction rule: keeping_run.induct) (blast intro: file_run.intros)+

lemma run_exists:
  assumes "FileServiceCorrect.file_run P K st A"
  shows "exists A = built st"
  using file_run_ok [OF assms] in_step_facts(2) unfolding tokens_ok_def
  by (fastforce simp: token_view_def)

text \<open>
  The invariant: an operation that can still be cancelled by a file has the handle of that file, or was
  started when there was none.
\<close>

definition ops_at_home :: "'w files \<Rightarrow> token_spec \<Rightarrow> bool" where
  "ops_at_home st A \<longleftrightarrow>
     (\<forall>n op i. queued st n = Some op \<longrightarrow> owner A n = Some i \<longrightarrow> i \<in> built st
        \<and> (fh_is_open (op_handle (op_impl op)) \<longrightarrow> op_handle (op_impl op) = handles st i))"

lemma ops_at_homeD:
  assumes "ops_at_home st A" and "queued st n = Some op" and "owner A n = Some i"
  shows "i \<in> built st"
    and "fh_is_open (op_handle (op_impl op)) \<Longrightarrow> op_handle (op_impl op) = handles st i"
  using assms unfolding ops_at_home_def by blast+

text \<open>Steps that start nothing and leave the handles of the owners alone.\<close>

lemma ops_at_home_step:
  assumes "ops_at_home st A"
    and "\<And>n op. queued st' n = Some op \<Longrightarrow> queued st n = Some op"
    and "\<And>n i. owner A' n = Some i \<Longrightarrow> owner A n = Some i"
    and "\<And>n i. owner A' n = Some i \<Longrightarrow> i \<in> built st \<Longrightarrow>
      i \<in> built st' \<and> (svc_is_open i st \<longrightarrow> handles st' i = handles st i)"
  shows "ops_at_home st' A'"
  unfolding ops_at_home_def
proof (intro allI impI)
  fix n op i assume q: "queued st' n = Some op" and o: "owner A' n = Some i"
  note home = ops_at_homeD [OF assms(1) assms(2) [OF q] assms(3) [OF o]]
  show "i \<in> built st' \<and> (fh_is_open (op_handle (op_impl op)) \<longrightarrow> op_handle (op_impl op) = handles st' i)"
    using assms(4) [OF o home(1)] home(2) by (auto simp: svc_is_open_def)
qed

text \<open>Who owns what after the operations of the tokens that a step makes.\<close>

lemma drop_owner_Some [simp]: "drop_owner i f t = Some k \<longleftrightarrow> f t = Some k \<and> k \<noteq> i"
  by (auto simp: drop_owner_def)

lemma owner_after:
  "owner (fold spec_step [Op_new i, Op_reset i] A) n = Some k \<Longrightarrow> owner A n = Some k"
  "i \<in> exists A \<Longrightarrow> owner (fold spec_step (token_ops (F_destroy i) st) A) n = Some k
    \<Longrightarrow> owner A n = Some k \<and> k \<noteq> i"
  "owner (fold spec_step (token_ops (F_cancel i) st) A) n = Some k \<Longrightarrow> owner A n = Some k"
  "i \<notin> exists A \<Longrightarrow> j \<in> exists A \<Longrightarrow>
    owner (fold spec_step (token_ops (F_move_new i j) st) A) n = Some k
    \<Longrightarrow> (k = i \<and> owner A n = Some j) \<or> (k \<noteq> i \<and> k \<noteq> j \<and> owner A n = Some k)"
  by (auto split: if_splits)

section \<open>The invariant holds\<close>

inductive_cases new_step: "FileServiceCorrect.file_step P K (F_new i s) st st'"
inductive_cases move_new_step: "FileServiceCorrect.file_step P K (F_move_new i j) st st'"
inductive_cases move_assign_step: "FileServiceCorrect.file_step P K (F_move_assign i j) st st'"
inductive_cases destroy_step: "FileServiceCorrect.file_step P K (F_destroy i) st st'"
inductive_cases cancel_step: "FileServiceCorrect.file_step P K (F_cancel i) st st'"

lemma new_handles:
  "handles (holder_new i s st) k = (if k = i then fh_default else handles st k)"
  "queued (holder_new i s st) = queued st" "built (holder_new i s st) = insert i (built st)"
  by (auto simp: holder_new_def Let_def svc_construct_def on_token_def impl_new_def fun_eq_iff
      push_impl_def split: prod.split option.split)

lemma move_new_handles:
  assumes "i \<noteq> j"
  shows "handles (holder_move_new i j st) k =
      (if k = j then fh_clear (handles st j) else if k = i then handles st j else handles st k)"
    and "queued (holder_move_new i j st) = queued st"
    and "built (holder_move_new i j st) = insert i (built st)"
  using assms
  by (auto simp: holder_move_new_def Let_def svc_move_construct_def impl_new_def fun_eq_iff
      split: prod.split)

lemma destroy_handles:
  assumes "holder_destroy K i st = Some st'"
  shows "k \<noteq> i \<Longrightarrow> handles st' k = handles st k"
    and "queued st' = queued st" and "built st' = built st - {i}"
proof -
  obtain st1 q where c: "close_for_destruction K i st = (st1, q)" by fastforce
  have "handles st' k = handles st1 k" "queued st' = queued st1" "built st' = built st1 - {i}" for k
    using assms c by (auto simp: holder_destroy_def svc_destroy_def split: sum.splits)
  then show "k \<noteq> i \<Longrightarrow> handles st' k = handles st k"
    and "queued st' = queued st" and "built st' = built st - {i}"
    using close_for_destruction_handles(2) [OF c, of k] close_for_destruction_keeps(4,6) [OF c] by auto
qed

lemma cancel_handles:
  assumes "svc_cancel i ec st = (st', ec')"
  shows "handles st' k = handles st k" and "queued st' = queued st" and "built st' = built st"
  using assms by (auto simp: svc_cancel_def on_token_def fun_eq_iff split: if_splits prod.splits)

lemma ops_at_home_move_new:
  assumes ok: "ops_at_home st A" and ij: "i \<notin> built st" "j \<in> built st" and ex: "exists A = built st"
  shows "ops_at_home (holder_move_new i j st) (fold spec_step (token_ops (F_move_new i j) st) A)"
  unfolding ops_at_home_def
proof (intro allI impI)
  let ?A = "fold spec_step (token_ops (F_move_new i j) st) A"
  fix n op k
  assume q: "queued (holder_move_new i j st) n = Some op" and o: "owner ?A n = Some k"
  have "i \<noteq> j" using ij by blast
  note m = move_new_handles [OF this, where st = st]
  have q: "queued st n = Some op" using q m(2) by simp
  have "i \<notin> exists A" and "j \<in> exists A" using ij ex by simp_all
  note cases = owner_after(4) [OF this o]
  show "k \<in> built (holder_move_new i j st) \<and>
      (fh_is_open (op_handle (op_impl op)) \<longrightarrow> op_handle (op_impl op) = handles (holder_move_new i j st) k)"
    using cases ops_at_homeD [OF ok q] \<open>i \<noteq> j\<close> by (auto simp: m(1,3))
qed

lemma ops_at_home_start:
  assumes ok: "ops_at_home st A" and step: "FileServiceCorrect.file_step P K (F_start n i) st st'"
    and ex: "exists A = built st"
  shows "ops_at_home st' (fold spec_step (token_ops (F_start n i) st) A)"
proof -
  obtain f where st': "st' = fs_init n f (sources st i) (service_of st i) st"
    and f: "op_handle f = handles st i" and i: "i \<in> built st"
    using step
    by (auto elim!: FileServiceCorrect.file_step.cases simp: svc_async_read_some_def svc_async_write_some_def
        svc_async_read_some_at_def svc_async_write_some_at_def)
  show ?thesis
    unfolding ops_at_home_def
  proof (intro allI impI)
    fix m op k
    assume q: "queued st' m = Some op"
      and o: "owner (fold spec_step (token_ops (F_start n i) st) A) m = Some k"
    show "k \<in> built st' \<and> (fh_is_open (op_handle (op_impl op)) \<longrightarrow> op_handle (op_impl op) = handles st' k)"
    proof (cases "m = n")
      case False
      then show ?thesis
        using ops_at_homeD [OF ok, of m op k] q o by (auto simp: st' fs_init_def split: if_splits)
    next
      case True
      then have op: "op_handle (op_impl op) = handles st i" using q f by (auto simp: st' fs_init_def)
      have "k = i" using o i ex True by (auto split: if_splits)
      then show ?thesis using op i by (simp add: st' fs_init_def)
    qed
  qed
qed

lemma ops_at_home_keeping_step:
  assumes ok: "ops_at_home st A" and ex: "exists A = built st"
    and step: "FileServiceCorrect.file_step P K op st st'" and keeps: "keeps_files op st st'"
  shows "ops_at_home st' (fold spec_step (token_ops op st) A)"
proof (cases op)
  case (F_new i s)
  have "i \<notin> built st" and st': "st' = holder_new i s st"
    using step [unfolded F_new] by (auto elim: new_step)
  then show ?thesis
    unfolding F_new using owner_after(1) [of i A]
    by (intro ops_at_home_step [OF ok]) (auto simp: st' new_handles simp del: fold_simps)
next
  case (F_move_new i j)
  have "i \<notin> built st" and "j \<in> built st" and st': "st' = holder_move_new i j st"
    using step [unfolded F_move_new] by (auto elim: move_new_step)
  then show ?thesis unfolding F_move_new st' using ops_at_home_move_new [OF ok _ _ ex] by blast
next
  case (F_move_assign i j)
  then have "i = j" using keeps by (simp add: keeps_files_def)
  then have "st' = st"
    using step [unfolded F_move_assign] by (auto elim!: move_assign_step simp: holder_move_assign_def)
  then show ?thesis using ok F_move_assign \<open>i = j\<close> by simp
next
  case (F_destroy i)
  have i: "i \<in> exists A" and d: "holder_destroy K i st = Some st'"
    using step [unfolded F_destroy] ex by (auto elim: destroy_step)
  note o = owner_after(2) [OF i, of st] and h = destroy_handles [OF d]
  show ?thesis
    unfolding F_destroy
    by (rule ops_at_home_step [OF ok]) (simp add: h(2), drule o, blast, drule o, simp add: h(1,3))
next
  case (F_cancel i)
  obtain ec ec' where "svc_cancel i ec st = (st', ec')"
    using step [unfolded F_cancel] by (auto elim: cancel_step)
  note c = cancel_handles [OF this]
  show ?thesis
    unfolding F_cancel
    by (rule ops_at_home_step [OF ok]) (simp add: c(2), erule owner_after(3), simp add: c(1,3))
next
  case (F_start n i)
  then show ?thesis using ops_at_home_start [OF ok _ ex] step by simp
next
  case F_other
  have "built st' = built st" using plain_step_keeps(4) [OF step] F_other by simp
  then show ?thesis
    using plain_step_tokens(2) [OF step] keeps F_other
    by (intro ops_at_home_step [OF ok]) (auto simp: keeps_files_def)
qed

lemma keeping_run_at_home:
  assumes "keeping_run P K st A"
  shows "ops_at_home st A"
  using assms
proof (induction rule: keeping_run.induct)
  case (keeping_start st)
  then show ?case by (simp add: files_start_def ops_at_home_def)
next
  case (keeping_step st A op st')
  show ?case
    using ops_at_home_keeping_step [OF keeping_step.IH _ keeping_step.hyps(2,3)]
      run_exists [OF keeping_run_is_run [OF keeping_step.hyps(1)]] by simp
qed

section \<open>A queued operation on its file\<close>

lemma exec_opened:
  assumes "content_kernel P K view intr" and "opened (view w) h" and "cmd_ok c"
  shows "\<exists>w' ec r. fh_exec P K h c w = Some (w', ec, r) \<and> files_step (h, c) (view w) (ec, r) (view w')"
proof -
  have "content_rel (P, K, view, intr, {h}) (view w) w" using assms by simp
  from content_step [OF this, of "(h, c)"] show ?thesis using assms(3) by auto
qed

text \<open>
  C4. In a program that keeps its files an asynchronous operation never touches a descriptor that its
  file has given up. When a thread of the pool calls it, it returns, and it aborts without a change if
  no file can cancel it any more; else it is, whatever has happened since it was started, the read
  or write it was started as, on the abstract file that the file which can cancel it has open now,
  and the handler gets the bytes or the number that this step gives.
\<close>

theorem async_operation_acts_on_its_file:
  assumes "keeping_run P K st A" and "content_kernel P K view intr"
    and "queued st n = Some op" and "op_service op \<notin> stopped st"
    and "fh_is_open (op_handle (op_impl op))" and "cmd_ok (op_cmd (op_impl op))"
    and "\<forall>i \<in> built st. svc_is_open i st \<longrightarrow> opened (view (system st)) (handles st i)"
  shows "\<exists>w ec r. run_queued P K n st =
        Some (st\<lparr>queued := (queued st)(n := None), system := w\<rparr>, ec, answer r)
    \<and> (case owner A n of
         None \<Rightarrow> ec = ec_asio operation_aborted \<and> r = num 0 \<and> w = system st
       | Some i \<Rightarrow> i \<in> built st
           \<and> files_step (handles st i, op_cmd (op_impl op)) (view (system st)) (ec, r) (view w))"
proof -
  note c = op_cancelled_iff [OF keeping_run_is_run [OF assms(1)] assms(3)]
  note run = run_queued_def assms(3,4) fs_op_call_def with_system_def c
  show ?thesis
  proof (cases "owner A n")
    case None
    then show ?thesis by (intro exI [of _ "system st"] exI [of _ "num 0"]) (simp add: run)
  next
    case (Some i)
    note home = ops_at_homeD [OF keeping_run_at_home [OF assms(1)] assms(3) Some]
    have h: "op_handle (op_impl op) = handles st i" by (rule home(2) [OF assms(5)])
    then have "opened (view (system st)) (handles st i)"
      using assms(5,7) home(1) by (simp add: svc_is_open_def)
    from exec_opened [OF assms(2) this assms(6)] obtain w ec r where
      e: "fh_exec P K (handles st i) (op_cmd (op_impl op)) (system st) = Some (w, ec, r)"
      "files_step (handles st i, op_cmd (op_impl op)) (view (system st)) (ec, r) (view w)" by blast
    show ?thesis
      using e Some home(1)
      by (intro exI [of _ w] exI [of _ ec] exI [of _ r]) (simp add: run fs_impl_call_exec h)
  qed
qed

text \<open>
  For example: a file is given the descriptor 0, starts to read four bytes, and another one is constructed
  from it before a thread of the pool takes the operation.
\<close>

definition start_files :: "sample files" where
  "start_files =
     \<lparr>built = {}, service_of = \<lambda>_. 0,
      impls = \<lambda>_. \<lparr>impl_handle = fh_default, impl_token = \<lparr>ts_ptr = sp_empty\<rparr>,
                   impl_next = None, impl_prev = None\<rparr>,
      impl_list = \<lambda>_. None, control = blks token_start, queued = \<lambda>_. None, stopped = {},
      system = \<lparr>s_files = [''a'' \<mapsto> [1, 2, 3]], s_fds = [(0, ''a'', 1)], s_intr = 2\<rparr>\<rparr>"

definition given_file :: "sample files" where
  "given_file = fst (svc_assign 3 0 (holder_new 3 0 start_files))"

definition reading_file :: "sample files" where
  "reading_file = svc_async_read_some 0 3 [4] 5 given_file"

definition moved_file :: "sample files" where
  "moved_file = holder_move_new 4 3 reading_file"

lemmas moved_defs = start_files_def given_file_def reading_file_def sample_defs new_handles svc_is_open_def
  keeps_files_def

lemma new_file_stopped:
  "stopped (holder_new i s st) = stopped st" "system (holder_new i s st) = system st"
  "stopped (holder_move_new i j st) = stopped st" "system (holder_move_new i j st) = system st"
  by (simp_all add: holder_new_def holder_move_new_def Let_def svc_construct_def svc_move_construct_def
      on_token_def impl_new_def split: prod.split)

lemma reading_file_facts:
  "built reading_file = {3}" "handles reading_file 3 = fh_new 0" "stopped reading_file = {}"
  "system reading_file = \<lparr>s_files = [''a'' \<mapsto> [1, 2, 3]], s_fds = [(0, ''a'', 1)], s_intr = 2\<rparr>"
  "\<exists>t. queued reading_file 5 = Some \<lparr>op_token = t, op_impl = Fs_read (fh_new 0) [4], op_service = 0\<rparr>"
  by (auto simp: moved_defs)

lemma reading_file_run:
  "keeping_run linux sample_content reading_file
     (fold spec_step [Op_new 3, Op_reset 3, Op_token 5 3] spec_start)"
proof -
  let ?new = "holder_new 3 0 start_files"
  have "keeping_run linux sample_content start_files spec_start"
    by (rule keeping_start) (simp add: files_start_def start_files_def)
  moreover have "FileServiceCorrect.file_step linux sample_content (F_new 3 0) start_files ?new"
    by (rule FileServiceCorrect.file_step.new) (simp add: start_files_def)
  ultimately have new: "keeping_run linux sample_content ?new
      (fold spec_step (token_ops (F_new 3 0) start_files) spec_start)"
    by (rule keeping_step) (simp add: keeps_files_def)
  have "FileServiceCorrect.file_step linux sample_content F_other ?new given_file"
    by (rule FileServiceCorrect.file_step.assign [of 3 _ 0 _ no_error])
      (simp_all add: moved_defs)
  moreover have "keeps_files F_other ?new given_file" by (simp add: moved_defs)
  ultimately have given: "keeping_run linux sample_content given_file
      (fold spec_step (token_ops F_other ?new) (fold spec_step (token_ops (F_new 3 0) start_files) spec_start))"
    by (rule keeping_step [OF new])
  have "service_of given_file 3 = 0" "3 \<in> built given_file" "queued given_file 5 = None"
    by (simp_all add: moved_defs)
  then have "FileServiceCorrect.file_step linux sample_content (F_start 5 3) given_file reading_file"
    using FileServiceCorrect.file_step.start_read [of 3 given_file 5 linux sample_content "[4]"]
    by (simp add: reading_file_def)
  from keeping_step [OF given this] show ?thesis by (simp add: keeps_files_def)
qed

lemma moved_file_run:
  "keeping_run linux sample_content moved_file
     (fold spec_step [Op_new 3, Op_reset 3, Op_token 5 3, Op_new 4, Op_move_assign 4 3] spec_start)"
proof -
  have "FileServiceCorrect.file_step linux sample_content (F_move_new 4 3) reading_file moved_file"
    unfolding moved_file_def
    by (rule FileServiceCorrect.file_step.move_new) (simp_all add: reading_file_facts)
  from keeping_step [OF reading_file_run this] show ?thesis by (simp add: keeps_files_def)
qed

theorem async_operation_acts_on_its_file_witness:
  "\<exists>w ec r. run_queued linux sample_content 5 moved_file =
       Some (moved_file\<lparr>queued := (queued moved_file)(5 := None), system := w\<rparr>, ec, answer r)
     \<and> files_step (fh_new 0, do_read [4]) (sample_view (system reading_file)) (ec, r) (sample_view w)"
proof -
  have "(4::nat) \<noteq> 3" by simp
  note m = move_new_handles [OF this, of reading_file, folded moved_file_def]
    new_file_stopped [of 4 3 reading_file, folded moved_file_def]
  obtain t where q: "queued moved_file 5 = Some \<lparr>op_token = t, op_impl = Fs_read (fh_new 0) [4], op_service = 0\<rparr>"
    using reading_file_facts(5) by (auto simp: m(2))
  have b: "built moved_file = {4, 3}" using reading_file_facts(1) by (auto simp: m(3))
  have h: "handles moved_file 4 = fh_new 0" "\<not> svc_is_open 3 moved_file"
    using reading_file_facts(2) by (simp_all add: m(1) svc_is_open_def fh_is_open_def fh_clear_def)
  have "opened (sample_view (system reading_file)) (fh_new 0)"
    by (simp add: opened_def sample_view_def reading_file_facts(4) fh_new_def)
  then have "\<forall>i \<in> built moved_file. svc_is_open i moved_file \<longrightarrow>
      opened (sample_view (system moved_file)) (handles moved_file i)"
    using h by (auto simp: b m)
  from async_operation_acts_on_its_file [OF moved_file_run sample_content_ok q _ _ _ this]
  show ?thesis
    using reading_file_facts(3) h(1) by (simp add: m spec_start_def cancel_all_def hand_over_def fh_is_open_def fh_new_def)
qed

section \<open>Closing a file\<close>

text \<open>
  Closing a file that is open does not cancel what is queued, unlike destroying it. When a thread of the
  pool calls such an operation, it acts on whatever file has got the number of the descriptor by then.
\<close>

theorem close_lets_operations_go_on:
  assumes "FileServiceCorrect.file_run P K st A" and "content_kernel P K view intr"
    and "queued st n = Some op" and "op_service op \<notin> stopped st" and "owner A n = Some i"
    and "svc_close K i st = (st', e)" and "opened (view w) (op_handle (op_impl op))"
    and "cmd_ok (op_cmd (op_impl op))"
  shows "\<exists>w' ec r. run_queued P K n (st'\<lparr>system := w\<rparr>) =
        Some (st'\<lparr>queued := (queued st)(n := None), system := w'\<rparr>, ec, answer r)
    \<and> files_step (op_handle (op_impl op), op_cmd (op_impl op)) (view w) (ec, r) (view w')"
proof -
  from exec_opened [OF assms(2,7,8)] obtain w' ec r where
    e: "fh_exec P K (op_handle (op_impl op)) (op_cmd (op_impl op)) w = Some (w', ec, r)"
    "files_step (op_handle (op_impl op), op_cmd (op_impl op)) (view w) (ec, r) (view w')" by blast
  have "queued st' = queued st" "stopped st' = stopped st" "control st' = control st"
    using assms(6) by (auto simp: svc_close_def split: prod.splits)
  then show ?thesis
    using e op_cancelled_iff [OF assms(1,3)] assms(3-5)
    by (intro exI [of _ w'] exI [of _ ec] exI [of _ r])
      (simp add: run_queued_def fs_op_call_def with_system_def fs_impl_call_exec)
qed

theorem close_lets_operations_go_on_witness:
  "\<exists>w' ec r. run_queued linux sample_content 5
         ((fst (svc_close sample_content 3 reading_file))\<lparr>system :=
            \<lparr>s_files = [''b'' \<mapsto> [7, 8]], s_fds = [(0, ''b'', 0)], s_intr = 0\<rparr>\<rparr>) =
       Some ((fst (svc_close sample_content 3 reading_file))\<lparr>queued := (queued reading_file)(5 := None),
               system := w'\<rparr>, ec, answer r)
     \<and> files_step (fh_new 0, do_read [4])
         (sample_view \<lparr>s_files = [''b'' \<mapsto> [7, 8]], s_fds = [(0, ''b'', 0)], s_intr = 0\<rparr>) (ec, r) (sample_view w')"
proof -
  let ?w = "\<lparr>s_files = [''b'' \<mapsto> [7, 8]], s_fds = [(0, ''b'', 0)], s_intr = 0\<rparr>"
  obtain t where q: "queued reading_file 5 = Some \<lparr>op_token = t, op_impl = Fs_read (fh_new 0) [4], op_service = 0\<rparr>"
    using reading_file_facts(5) by blast
  obtain st' e where c: "svc_close sample_content 3 reading_file = (st', e)" by fastforce
  have "opened (sample_view ?w) (fh_new 0)" by (simp add: opened_def sample_view_def fh_new_def)
  then show ?thesis
    using close_lets_operations_go_on
      [OF keeping_run_is_run [OF reading_file_run] sample_content_ok q _ _ c, of ?w] reading_file_facts(3)
    by (simp add: c spec_start_def cancel_all_def)
qed

end
