(* ===== verification/BasicFile.thy ===== *)
theory BasicFile
  imports FileServiceCorrect
begin

text \<open>
  \<^verbatim>\<open>basic_file\<close> (\<^verbatim>\<open>basic_file.hpp\<close>) over \<^verbatim>\<open>thread_pool_file_service\<close>: the file \<open>i\<close> is the object
  with the holder \<open>i\<close>. The functions with a code pass on to the service; those without raise it. A
  constructor makes the holder and then its file, and destroys the holder when it raises. The
  executor of a file only says where its handlers run, so it does not occur here: a constructor is
  given the service of the context.
\<close>

section \<open>Constructors\<close>

definition bf_new :: "nat \<Rightarrow> nat \<Rightarrow> 'w files \<Rightarrow> 'w files" where
  "bf_new i s st = holder_new i s st"

text \<open>The end of a constructor that raises \<open>ec\<close>, if it is set.\<close>

definition bf_constructed ::
    "'w kernel \<Rightarrow> nat \<Rightarrow> 'w files \<times> error_code \<Rightarrow> ('w files \<times> (cxx_exception + unit)) option" where
  "bf_constructed K i r =
     (case r of (st, ec) \<Rightarrow>
        (case throw_error ec ''basic_file construct'' () of
           Inl e \<Rightarrow> map_option (\<lambda>st. (st, Inl e)) (holder_destroy K i st)
         | Inr _ \<Rightarrow> Some (st, Inr ())))"

definition bf_new_handle ::
    "'w kernel \<Rightarrow> nat \<Rightarrow> nat \<Rightarrow> file_handle \<Rightarrow> 'w files \<Rightarrow> ('w files \<times> (cxx_exception + unit)) option" where
  "bf_new_handle K i s h st =
     bf_constructed K i (svc_assign i (native_handle h) (holder_new i s st))"

definition bf_new_open_throwing ::
    "platform \<Rightarrow> 'w kernel \<Rightarrow> nat \<Rightarrow> nat \<Rightarrow> string \<Rightarrow> open_args \<Rightarrow> 'w files
      \<Rightarrow> ('w files \<times> (cxx_exception + unit)) option" where
  "bf_new_open_throwing P K i s filename args st =
     Option.bind (svc_open P K i filename args (holder_new i s st)) (bf_constructed K i)"

definition bf_new_open ::
    "platform \<Rightarrow> 'w kernel \<Rightarrow> nat \<Rightarrow> nat \<Rightarrow> string \<Rightarrow> open_args \<Rightarrow> 'w files \<Rightarrow> ('w files \<times> error_code) option" where
  "bf_new_open P K i s filename args st = svc_open P K i filename args (holder_new i s st)"

section \<open>Handle, cancelling, opening and closing\<close>

definition bf_native_handle where "bf_native_handle i st = svc_native_handle i st"
definition bf_is_open where "bf_is_open i st = svc_is_open i st"
definition bf_cancel where "bf_cancel i ec st = svc_cancel i ec st"
definition bf_cancel_throwing where
  "bf_cancel_throwing i st = throwing_unit ''cancel'' (svc_cancel i no_error st)"
definition bf_open where "bf_open P K i filename args st = svc_open P K i filename args st"
definition bf_open_throwing where
  "bf_open_throwing P K i filename args st =
     map_option (throwing_unit ''open'') (svc_open P K i filename args st)"
definition bf_close where "bf_close K i st = svc_close K i st"
definition bf_close_throwing where
  "bf_close_throwing K i st = throwing_unit ''close'' (svc_close K i st)"

section \<open>Position and meta data\<close>

definition bf_position where "bf_position K i st = svc_position K i st"
definition bf_position_throwing where
  "bf_position_throwing K i st = throwing ''position'' (svc_position K i st)"
definition bf_seek where "bf_seek K i origin offset st = svc_seek K i origin offset st"
definition bf_seek_throwing where
  "bf_seek_throwing K i origin offset st = throwing ''seek'' (svc_seek K i origin offset st)"
definition bf_size where "bf_size K i st = svc_size K i st"
definition bf_size_throwing where "bf_size_throwing K i st = throwing ''size'' (svc_size K i st)"
definition bf_truncate where "bf_truncate K i new_size st = svc_truncate K i new_size st"
definition bf_truncate_throwing where
  "bf_truncate_throwing K i new_size st = throwing_unit ''truncate'' (svc_truncate K i new_size st)"
definition bf_permissions where "bf_permissions K i st = svc_permissions K i st"
definition bf_permissions_throwing where
  "bf_permissions_throwing K i st = throwing ''get_permissions'' (svc_permissions K i st)"
definition bf_set_permissions where
  "bf_set_permissions K i perms opts st = svc_set_permissions K i perms opts st"
definition bf_set_permissions_throwing where
  "bf_set_permissions_throwing K i perms opts st =
     throwing_unit ''set_permissions'' (svc_set_permissions K i perms opts st)"
definition bf_replace_permissions where
  "bf_replace_permissions K i perms st = svc_replace_permissions K i perms st"
definition bf_attributes where "bf_attributes P K i st = svc_attributes P K i st"
definition bf_attributes_throwing where
  "bf_attributes_throwing P K i st = throwing ''get_attributes'' (svc_attributes P K i st)"
definition bf_set_attributes where
  "bf_set_attributes P K i attrs opts st = svc_set_attributes P K i attrs opts st"
definition bf_set_attributes_throwing where
  "bf_set_attributes_throwing P K i attrs opts st =
     throwing_unit ''set_attributes'' (svc_set_attributes P K i attrs opts st)"
definition bf_replace_attributes where
  "bf_replace_attributes P K i attrs st = svc_replace_attributes P K i attrs st"
definition bf_times where "bf_times P K i st = svc_times P K i st"
definition bf_times_throwing where
  "bf_times_throwing P K i st = map_option (throwing ''get_times'') (svc_times P K i st)"
definition bf_set_times where "bf_set_times P K i new_times st = svc_set_times P K i new_times st"
definition bf_set_times_throwing where
  "bf_set_times_throwing P K i new_times st =
     map_option (throwing_unit ''set_times'') (svc_set_times P K i new_times st)"

section \<open>Reading and writing\<close>

definition bf_read_some where "bf_read_some P K i bufs st = svc_read_some P K i bufs st"
definition bf_read_some_throwing where
  "bf_read_some_throwing P K i bufs st =
     map_option (throwing ''read_some'') (svc_read_some P K i bufs st)"
definition bf_write_some where "bf_write_some P K i bufs st = svc_write_some P K i bufs st"
definition bf_write_some_throwing where
  "bf_write_some_throwing P K i bufs st =
     map_option (throwing ''write_some'') (svc_write_some P K i bufs st)"
definition bf_read_some_at where
  "bf_read_some_at P K i offset bufs st = svc_read_some_at P K i offset bufs st"
definition bf_read_some_at_throwing where
  "bf_read_some_at_throwing P K i offset bufs st =
     map_option (throwing ''read_some_at'') (svc_read_some_at P K i offset bufs st)"
definition bf_write_some_at where
  "bf_write_some_at P K i offset bufs st = svc_write_some_at P K i offset bufs st"
definition bf_write_some_at_throwing where
  "bf_write_some_at_throwing P K i offset bufs st =
     map_option (throwing ''write_some_at'') (svc_write_some_at P K i offset bufs st)"

text \<open>The asynchronous ones, on the service of the holder; \<open>n\<close> names the operation.\<close>

definition bf_async_read_some where
  "bf_async_read_some i bufs n st = svc_async_read_some (service_of st i) i bufs n st"
definition bf_async_write_some where
  "bf_async_write_some i bufs n st = svc_async_write_some (service_of st i) i bufs n st"
definition bf_async_read_some_at where
  "bf_async_read_some_at i offset bufs n st = svc_async_read_some_at (service_of st i) i offset bufs n st"
definition bf_async_write_some_at where
  "bf_async_write_some_at i offset bufs n st = svc_async_write_some_at (service_of st i) i offset bufs n st"

section \<open>A constructor opens a file or leaves nothing behind\<close>

lemma svc_open_value:
  assumes "\<not> svc_is_open i st"
  shows "svc_open P K i path args st =
    map_option (\<lambda>(w, ec, h). ((set_handle i (fh_new h) st)\<lparr>system := w\<rparr>, ec))
      (posix_open P K path args (system st))"
  using assms
  by (auto simp: svc_open_def svc_is_open_def open_file_def ufh_release_def ufh_of_native_def
      ufh_destroy_def ufh_close_def fh_close_def fh_clear_def split: option.split)

lemma holder_destroy_closed:
  assumes "\<not> svc_is_open i st"
  shows "\<exists>st'. holder_destroy K i st = Some st' \<and> system st' = system st \<and> built st' = built st - {i}"
  using assms
  by (simp add: holder_destroy_def svc_destroy_def close_for_destruction_def svc_is_open_def)

lemma holder_new_facts:
  "\<not> svc_is_open i (holder_new i s st)" "system (holder_new i s st) = system st"
  "built (holder_new i s st) = insert i (built st)"
  by (simp_all add: holder_new_def Let_def svc_construct_def on_token_def impl_new_def svc_is_open_def
      fh_default_def fh_is_open_def split: prod.split)

text \<open>A call that fails sets \<^verbatim>\<open>errno\<close>, and never to 0.\<close>

definition errno_set :: "'w kernel \<Rightarrow> bool" where
  "errno_set K \<longleftrightarrow>
     (\<forall>w path flags mode. snd (k_open K w path flags mode) \<noteq> Inl 0)
     \<and> (\<forall>w fd flags. snd (k_fchflags K w fd flags) \<noteq> Inl 0)"

lemma answers_errno:
  assumes "errno_set K" and "answers P (\<lambda>w. k_open K w path flags mode) w w' r"
  shows "r \<noteq> Inl 0"
  using assms(2)
proof (induction rule: answers.induct)
  case (now w w' r)
  then show ?case using assms(1) unfolding errno_set_def by (metis snd_conv)
qed simp

lemma posix_open_code:
  assumes K: "fd_kernel K fds" "errno_set K" and o: "posix_open P K path args w = Some (w', ec, h)"
  shows "ec_failed ec \<longleftrightarrow> h = - 1"
proof -
  let ?call = "\<lambda>w. k_open K w path (O_CLOEXEC P OR native_flags args) (oa_mode args)"
  obtain w1 r where r: "retry P ?call w = Some (w1, r)"
    using o by (auto simp: posix_open_def split: option.splits)
  then have a: "answers P ?call w w1 r" by (simp add: retry_iff)
  show ?thesis
  proof (cases r)
    case (Inl e)
    then show ?thesis using r o answers_errno [OF K(2) a] by (auto simp: posix_open_def set_error_def)
  next
    case (Inr fd)
    then have "fds w1 = insert fd (fds w)" using answers_open [OF K(1) a] by simp
    then have fd: "fd \<noteq> - 1" using fd_kernel_rules(1) [OF K(1), of w1] by auto
    obtain w2 q where q: "k_fchflags K w1 fd (oa_attrs args) = (w2, q)" by fastforce
    then have "q \<noteq> Inl 0" using K(2) unfolding errno_set_def by (metis snd_conv)
    then show ?thesis using r Inr q fd o
      by (auto simp: posix_open_def set_error_def split: if_splits sum.splits)
  qed
qed

text \<open>
  C19. The constructor that opens a file returns whenever \<^verbatim>\<open>open()\<close> does. If that failed, the
  constructor raises its error, and the program has the files and the open descriptors that it had
  before. Otherwise the object exists, is open, and owns the one descriptor that is new.
\<close>

theorem file_constructor_all_or_nothing:
  assumes "fd_kernel K fds" and "errno_set K" and "i \<notin> built st"
    and "posix_open P K path args (system st) = Some (w, ec, h)"
  shows "\<exists>st' r. bf_new_open_throwing P K i s path args st = Some (st', r)
    \<and> (if ec_failed ec
       then r = Inl (system_error ec ''basic_file construct'') \<and> built st' = built st
            \<and> fds (system st') = fds (system st)
       else r = Inr () \<and> built st' = insert i (built st)
            \<and> bf_is_open i st' \<and> bf_native_handle i st' = h
            \<and> h \<notin> fds (system st) \<and> fds (system st') = insert h (fds (system st)))"
proof -
  let ?st = "holder_new i s st"
  let ?st1 = "(set_handle i (fh_new h) ?st)\<lparr>system := w\<rparr>"
  have o: "svc_open P K i path args ?st = Some (?st1, ec)"
    using svc_open_value [of i ?st P K path args] assms(4) by (simp add: holder_new_facts)
  note f = posix_open_fds [OF assms(1,4)] and code = posix_open_code [OF assms(1,2,4)]
  show ?thesis
  proof (cases "ec_failed ec")
    case True
    then have "h = - 1" using code by simp
    then have "\<not> svc_is_open i ?st1" by (simp add: svc_is_open_def fh_new_def fh_is_open_def)
    then obtain st' where "holder_destroy K i ?st1 = Some st'" "system st' = w"
        "built st' = built ?st - {i}"
      using holder_destroy_closed [of i ?st1 K] by auto
    then show ?thesis
      using True o f \<open>h = - 1\<close> assms(3)
      by (auto simp: bf_new_open_throwing_def bf_constructed_def throw_error_def holder_new_facts)
  next
    case False
    then have "h \<noteq> - 1" using code by simp
    then show ?thesis
      using False o f
      by (auto simp: bf_new_open_throwing_def bf_constructed_def throw_error_def holder_new_facts
          bf_native_handle_def svc_native_handle_def fh_new_def bf_is_open_def svc_is_open_def fh_is_open_def)
  qed
qed

theorem file_constructor_all_or_nothing_witness:
  "\<exists>st'. bf_new_open_throwing linux list_kernel 7 0 ''a'' open_args_default two_files = Some (st', Inr ())
    \<and> bf_is_open 7 st' \<and> bf_native_handle 7 st' = 1 \<and> list_fds (system st') = {0, 1}"
proof -
  have sys: "system two_files = [0]" and b: "7 \<notin> built two_files" by (simp_all add: two_files_facts)
  have "new_fd [0] = 1" by (simp add: new_fd_def)
  then have "retry linux (\<lambda>w. k_open list_kernel w ''a'' (O_CLOEXEC linux OR native_flags open_args_default)
      (oa_mode open_args_default)) [0] = Some ([1, 0], Inr 1)"
    by (subst retry.simps) (simp add: list_kernel_def)
  then have o: "posix_open linux list_kernel ''a'' open_args_default (system two_files) =
      Some ([1, 0], no_error, 1)"
    by (simp add: sys posix_open_def linux_def)
  have e: "errno_set list_kernel" by (simp add: errno_set_def list_kernel_def)
  have "list_fds (system two_files) = {0}" by (auto simp: sys list_fds_def)
  then show ?thesis
    using file_constructor_all_or_nothing [OF list_kernel_ok e b o, of 0] by auto
qed

end
