(* ===== verification/PathOverloads.thy ===== *)
theory PathOverloads
  imports BasicFile WholeFile
begin

text \<open>
  The overloads for \<^verbatim>\<open>boost::filesystem::path\<close> on a POSIX system (\<^verbatim>\<open>impl/open.cpp\<close>,
  \<^verbatim>\<open>impl/read_file.hpp\<close>, \<^verbatim>\<open>impl/write_file.hpp\<close>, \<^verbatim>\<open>impl/thread_pool_file_service.cpp\<close>,
  \<^verbatim>\<open>basic_file.hpp\<close>). The class of the path is not part of the library; \<open>c_str\<close> is its member
  function. The bodies are written out as the sources repeat them; the bundle \<open>path_overloads\<close> says
  that each does what the overload for a narrow name does.
\<close>

section \<open>open\<close>

definition open_path where
  "open_path P K c_str filename args w =
     (case posix_open P K (c_str filename) args w of
        None \<Rightarrow> None
      | Some (w, ec, h) \<Rightarrow> Some (w, ec, ufh_of_native h))"

definition open_path_throwing where
  "open_path_throwing P K c_str filename args w =
     (case open_path P K c_str filename args w of
        None \<Rightarrow> None
      | Some (w, ec, h) \<Rightarrow>
          (case throw_error ec ''open'' h of
             Inl e \<Rightarrow> Some (ufh_destroy K h w, Inl e)
           | Inr h \<Rightarrow> Some (w, Inr h)))"

section \<open>Whole files\<close>

definition read_file_path where
  "read_file_path P K ar size_type_max max_size c_str filename c w =
     (case open_path P K c_str filename (read_args P) w of
        None \<Rightarrow> None
      | Some (w, ec, file) \<Rightarrow>
          if \<not> ec_failed ec then
            (case read_file_handle P K ar size_type_max max_size (ufh_get file) c w of
               None \<Rightarrow> None
             | Some (w, ec, c) \<Rightarrow> Some (ufh_destroy K file w, ec, c))
          else Some (ufh_destroy K file w, ec, c))"

definition read_file_path_throwing where
  "read_file_path_throwing P K ar size_type_max max_size c_str filename c w =
     map_option (throwing ''read_file'') (read_file_path P K ar size_type_max max_size c_str filename c w)"

definition read_file_buffers_path where
  "read_file_buffers_path P K ar c_str filename n w =
     (case open_path P K c_str filename (read_args P) w of
        None \<Rightarrow> None
      | Some (w, ec, file) \<Rightarrow>
          if \<not> ec_failed ec then
            (case read_file_handle_buffers P K ar (ufh_get file) n w of
               None \<Rightarrow> None
             | Some (w, ec, bs) \<Rightarrow> Some (ufh_destroy K file w, ec, bs))
          else Some (ufh_destroy K file w, ec, []))"

definition read_file_buffers_path_throwing where
  "read_file_buffers_path_throwing P K ar c_str filename n w =
     map_option (throwing ''read_file'') (read_file_buffers_path P K ar c_str filename n w)"

definition write_file_path where
  "write_file_path P K aw c_str filename bs w =
     (case open_path P K c_str filename (write_args P) w of
        None \<Rightarrow> None
      | Some (w, ec, file) \<Rightarrow>
          if \<not> ec_failed ec then
            (case aw (\<lambda>cs. ufh_write_some P K file [cs]) bs w of
               None \<Rightarrow> None
             | Some (w, ec, n) \<Rightarrow> Some (ufh_destroy K file w, ec))
          else Some (ufh_destroy K file w, ec))"

definition write_file_path_throwing where
  "write_file_path_throwing P K aw c_str filename bs w =
     map_option (throwing_unit ''write_file'') (write_file_path P K aw c_str filename bs w)"

section \<open>Files of the service\<close>

definition svc_open_path where
  "svc_open_path P K i c_str filename args st =
     (if fh_is_open (impl_handle (impls st i)) then Some (st, ec_asio already_open)
      else (case open_path P K c_str filename args (system st) of
              None \<Rightarrow> None
            | Some (w, ec, u) \<Rightarrow>
                (case ufh_release u of
                   (u, h) \<Rightarrow> Some ((set_handle i h st)\<lparr>system := ufh_destroy K u w\<rparr>, ec))))"

definition bf_new_open_path_throwing where
  "bf_new_open_path_throwing P K i s c_str filename args st =
     Option.bind (svc_open_path P K i c_str filename args (holder_new i s st)) (bf_constructed K i)"

definition bf_new_open_path where
  "bf_new_open_path P K i s c_str filename args st = svc_open_path P K i c_str filename args (holder_new i s st)"

definition bf_open_path where
  "bf_open_path P K i c_str filename args st = svc_open_path P K i c_str filename args st"

definition bf_open_path_throwing where
  "bf_open_path_throwing P K i c_str filename args st =
     map_option (throwing_unit ''open'') (svc_open_path P K i c_str filename args st)"

section \<open>Agreement\<close>

lemma open_path_agrees:
  "open_path P K c_str filename args w = open_file P K (c_str filename) args w"
  "open_path_throwing P K c_str filename args w = open_file_throwing P K (c_str filename) args w"
  by (simp_all add: open_path_def open_path_throwing_def open_file_def open_file_throwing_def split: option.split)

lemma file_path_agrees:
  "read_file_path P K ar sm ms c_str filename c w = read_file P K ar sm ms (c_str filename) c w"
  "read_file_path_throwing P K ar sm ms c_str filename c w = read_file_throwing P K ar sm ms (c_str filename) c w"
  "read_file_buffers_path P K ar c_str filename n w = read_file_buffers P K ar (c_str filename) n w"
  "read_file_buffers_path_throwing P K ar c_str filename n w =
     read_file_buffers_throwing P K ar (c_str filename) n w"
  "write_file_path P K aw c_str filename bs w = write_file P K aw (c_str filename) bs w"
  "write_file_path_throwing P K aw c_str filename bs w = write_file_throwing P K aw (c_str filename) bs w"
  by (simp_all add: open_path_agrees read_file_path_def read_file_def read_file_path_throwing_def
      read_file_throwing_def read_file_buffers_path_def read_file_buffers_def
      read_file_buffers_path_throwing_def read_file_buffers_throwing_def write_file_path_def write_file_def
      write_file_path_throwing_def write_file_throwing_def)

lemma service_path_agrees:
  "svc_open_path P K i c_str filename args st = svc_open P K i (c_str filename) args st"
  "bf_new_open_path_throwing P K i s c_str filename args st = bf_new_open_throwing P K i s (c_str filename) args st"
  "bf_new_open_path P K i s c_str filename args st = bf_new_open P K i s (c_str filename) args st"
  "bf_open_path P K i c_str filename args st = bf_open P K i (c_str filename) args st"
  "bf_open_path_throwing P K i c_str filename args st = bf_open_throwing P K i (c_str filename) args st"
  by (simp_all add: open_path_agrees svc_open_path_def svc_open_def bf_new_open_path_throwing_def
      bf_new_open_throwing_def bf_new_open_path_def bf_new_open_def bf_open_path_def bf_open_def
      bf_open_path_throwing_def bf_open_throwing_def)

lemmas path_overloads = open_path_agrees file_path_agrees service_path_agrees

end
