(* ===== verification/WinFileOps.thy ===== *)
theory WinFileOps
  imports FileHandle
begin

unbundle bit_operations_syntax

text \<open>
  The Windows build of the file operations (\<^verbatim>\<open>detail/impl/win_file_ops.cpp\<close>,
  \<^verbatim>\<open>detail/impl/win_path.cpp\<close>, \<^verbatim>\<open>impl/file_handle_win.*\<close>, the Windows branches of
  \<^verbatim>\<open>open_args\<close>). The functions of \<^verbatim>\<open>windows.h\<close> and its numbers are not part of the library: they
  are two records, which the definitions take. A handle is a number, -1 for
  \<^verbatim>\<open>INVALID_HANDLE_VALUE\<close>.
\<close>

section \<open>The system\<close>

text \<open>
  The numbers, and the variants of the build: \<open>vista\<close> is \<^verbatim>\<open>_WIN32_WINNT >= 0x0600\<close>, \<open>app\<close> is
  \<^verbatim>\<open>ASIOEXT_WINDOWS_APP\<close>, \<open>utf8_names\<close> is \<^verbatim>\<open>ASIOEXT_WINDOWS_USE_UTF8_FILENAMES\<close>.
\<close>

record windows_h =
  CREATE_NEW :: u32
  CREATE_ALWAYS :: u32
  OPEN_EXISTING :: u32
  OPEN_ALWAYS :: u32
  TRUNCATE_EXISTING :: u32
  GENERIC_READ :: u32
  GENERIC_WRITE :: u32
  FILE_SHARE_READ :: u32
  FILE_SHARE_WRITE :: u32
  FILE_FLAG_OVERLAPPED :: u32
  FILE_ATTRIBUTE_READONLY :: u32
  FILE_ATTRIBUTE_HIDDEN :: u32
  FILE_ATTRIBUTE_SYSTEM :: u32
  FILE_ATTRIBUTE_NORMAL :: u32
  FILE_ATTRIBUTE_NOT_CONTENT_INDEXED :: u32
  vista :: bool
  app :: bool
  utf8_names :: bool

text \<open>\<^verbatim>\<open>FILE_BASIC_INFO\<close> and \<^verbatim>\<open>FILETIME\<close>, low part first.\<close>

record basic_info =
  CreationTime :: int
  LastAccessTime :: int
  LastWriteTime :: int
  ChangeTime :: int
  FileAttributes :: u32

type_synonym filetime = "u32 \<times> u32"

text \<open>
  The calls give the new state of the system and what they return; a call that fails gives None (or
  \<open>False\<close>, or -1 for a handle), and its reason is what \<^verbatim>\<open>GetLastError()\<close> reads from the state. The
  standard handles are numbered 0, 1 and 2 here.
\<close>

record 'w winapi =
  GetLastError :: "'w \<Rightarrow> nat"
  CreateFileA :: "'w \<Rightarrow> bytes \<Rightarrow> u32 \<Rightarrow> u32 \<Rightarrow> u32 \<Rightarrow> u32 \<Rightarrow> 'w \<times> int"
  CreateFileW :: "'w \<Rightarrow> u16 list \<Rightarrow> u32 \<Rightarrow> u32 \<Rightarrow> u32 \<Rightarrow> u32 \<Rightarrow> 'w \<times> int"
  CreateFile2 :: "'w \<Rightarrow> u16 list \<Rightarrow> u32 \<Rightarrow> u32 \<Rightarrow> u32 \<Rightarrow> u32 \<Rightarrow> u32 \<Rightarrow> 'w \<times> int"
  MultiByteToWideChar :: "'w \<Rightarrow> bytes \<Rightarrow> nat \<Rightarrow> 'w \<times> nat \<times> u16 list"
  CloseHandle :: "'w \<Rightarrow> int \<Rightarrow> 'w \<times> bool"
  DuplicateHandle :: "'w \<Rightarrow> int \<Rightarrow> 'w \<times> int option"
  GetStdHandle :: "'w \<Rightarrow> nat \<Rightarrow> 'w \<times> int"
  GetFileSizeEx :: "'w \<Rightarrow> int \<Rightarrow> 'w \<times> int option"
  SetEndOfFileInfo :: "'w \<Rightarrow> int \<Rightarrow> int \<Rightarrow> 'w \<times> bool"
  SetAllocationInfo :: "'w \<Rightarrow> int \<Rightarrow> int \<Rightarrow> 'w \<times> bool"
  SetEndOfFile :: "'w \<Rightarrow> int \<Rightarrow> 'w \<times> bool"
  SetFilePointerEx :: "'w \<Rightarrow> int \<Rightarrow> int \<Rightarrow> nat \<Rightarrow> 'w \<times> int option"
  GetBasicInfo :: "'w \<Rightarrow> int \<Rightarrow> 'w \<times> basic_info option"
  SetBasicInfo :: "'w \<Rightarrow> int \<Rightarrow> basic_info \<Rightarrow> 'w \<times> bool"
  GetFileTime :: "'w \<Rightarrow> int \<Rightarrow> 'w \<times> (filetime \<times> filetime \<times> filetime) option"
  SetFileTime :: "'w \<Rightarrow> int \<Rightarrow> filetime \<times> filetime \<times> filetime \<Rightarrow> 'w \<times> bool"
  ReadFile :: "'w \<Rightarrow> int \<Rightarrow> u32 \<Rightarrow> (u32 \<times> u32) option \<Rightarrow> 'w \<times> bytes option"
  WriteFile :: "'w \<Rightarrow> int \<Rightarrow> bytes \<Rightarrow> (u32 \<times> u32) option \<Rightarrow> 'w \<times> u32 option"

section \<open>Conversions\<close>

definition filetime_to_chrono :: "filetime \<Rightarrow> int" where
  "filetime_to_chrono ft = sint (word_cat (snd ft) (fst ft) :: 64 word)"

definition chrono_to_filetime :: "int \<Rightarrow> filetime" where
  "chrono_to_filetime t =
     (let q = of_int t :: 64 word in (ucast q, ucast (drop_bit 32 q)))"

definition win_set_error :: "'w winapi \<Rightarrow> 'w \<Rightarrow> error_code" where
  "win_set_error W w = ec_system (GetLastError W w)"

definition win_attrs_to_native :: "windows_h \<Rightarrow> u32 \<Rightarrow> u32" where
  "win_attrs_to_native H attrs =
     (let native = 0;
          native = (if attrs AND attr_hidden \<noteq> 0 then native OR FILE_ATTRIBUTE_HIDDEN H else native);
          native = (if attrs AND attr_system \<noteq> 0 then native OR FILE_ATTRIBUTE_SYSTEM H else native);
          native = (if attrs AND attr_not_indexed \<noteq> 0
                    then native OR FILE_ATTRIBUTE_NOT_CONTENT_INDEXED H else native) in
      native)"

definition win_native_to_attrs :: "windows_h \<Rightarrow> u32 \<Rightarrow> u32" where
  "win_native_to_attrs H native =
     (let attrs = 0;
          attrs = (if native AND FILE_ATTRIBUTE_HIDDEN H \<noteq> 0 then attrs OR attr_hidden else attrs);
          attrs = (if native AND FILE_ATTRIBUTE_SYSTEM H \<noteq> 0 then attrs OR attr_system else attrs);
          attrs = (if native AND FILE_ATTRIBUTE_NOT_CONTENT_INDEXED H \<noteq> 0
                   then attrs OR attr_not_indexed else attrs) in
      attrs)"

definition write_perms :: u32 where
  "write_perms = owner_write OR group_write OR others_write"

section \<open>Arguments of open\<close>

record win_open_args =
  creation_disposition :: u32
  desired_access :: u32
  share_mode :: u32
  wa_attrs :: u32
  wa_flags :: u32

definition win_open_args_default :: win_open_args where
  "win_open_args_default =
     \<lparr>creation_disposition = 0xffffffff, desired_access = 0, share_mode = 0, wa_attrs = 0, wa_flags = 0\<rparr>"

definition win_open_args_valid :: "win_open_args \<Rightarrow> bool" where
  "win_open_args_valid args = (creation_disposition args \<noteq> 0xffffffff)"

definition win_parse_open_flags ::
    "windows_h \<Rightarrow> u32 \<Rightarrow> u32 \<Rightarrow> u32 \<Rightarrow> win_open_args \<Rightarrow> win_open_args" where
  "win_parse_open_flags H flags perms attrs args =
     (let creation =
            (if flags AND create_new \<noteq> 0 then CREATE_NEW H
             else if flags AND create_always \<noteq> 0 then CREATE_ALWAYS H
             else if flags AND open_existing \<noteq> 0 then OPEN_EXISTING H
             else if flags AND open_always \<noteq> 0 then OPEN_ALWAYS H
             else if flags AND truncate_existing \<noteq> 0 then TRUNCATE_EXISTING H
             else 0);
          access = 0;
          access = (if flags AND access_read \<noteq> 0 then access OR GENERIC_READ H else access);
          access = (if flags AND access_write \<noteq> 0 then access OR GENERIC_WRITE H else access);
          native_attrs = win_attrs_to_native H attrs;
          native_attrs = (if perms AND write_perms \<noteq> 0
                          then native_attrs AND NOT (FILE_ATTRIBUTE_READONLY H)
                          else native_attrs OR FILE_ATTRIBUTE_READONLY H);
          native_flags = 0;
          native_flags = (if flags AND internal_async \<noteq> 0
                          then native_flags OR FILE_FLAG_OVERLAPPED H else native_flags);
          share = FILE_SHARE_READ H OR FILE_SHARE_WRITE H;
          share = (if flags AND exclusive_read \<noteq> 0 then share AND NOT (FILE_SHARE_READ H) else share);
          share = (if flags AND exclusive_write \<noteq> 0 then share AND NOT (FILE_SHARE_WRITE H) else share) in
      args\<lparr>creation_disposition := creation, desired_access := access, wa_attrs := native_attrs,
          wa_flags := native_flags, share_mode := share\<rparr>)"

text \<open>\<open>raw\<close> are the members before the constructor sets them.\<close>

definition win_open_args_new ::
    "windows_h \<Rightarrow> win_open_args \<Rightarrow> u32 \<Rightarrow> u32 \<Rightarrow> u32 \<Rightarrow> win_open_args" where
  "win_open_args_new H raw flags perms attrs =
     (if flags_valid flags then win_parse_open_flags H flags perms attrs raw
      else raw\<lparr>creation_disposition := 0xffffffff\<rparr>)"

section \<open>Paths\<close>

text \<open>
  The memory a path object writes to: its own buffer or one on the heap, with \<open>capacity\<close> units, and
  its text.
\<close>

record win_path =
  on_heap :: bool
  capacity :: nat
  path_text :: "u16 list"

definition kMaxPath :: nat where "kMaxPath = 260"

text \<open>
  The constructor; \<open>alloc\<close> tells whether \<^verbatim>\<open>new\<close> finds memory. None is a write outside of the memory:
  the text and the terminating zero at the place the second call has returned must fit.
\<close>

definition write_path :: "bool \<Rightarrow> nat \<Rightarrow> nat \<Rightarrow> u16 list \<Rightarrow> win_path option" where
  "write_path heap cap n text =
     (if length text \<le> cap \<and> n < cap
      then Some \<lparr>on_heap = heap, capacity = cap, path_text = take n text\<rparr> else None)"

definition win_path_new ::
    "'w winapi \<Rightarrow> bool \<Rightarrow> bytes \<Rightarrow> 'w \<Rightarrow> 'w \<times> error_code \<times> win_path option" where
  "win_path_new W alloc s w =
     (let ending = (\<lambda>w n p. (w, if n \<noteq> 0 then no_error else ec_system (GetLastError W w), p)) in
      if length s \<ge> kMaxPath then
        (case MultiByteToWideChar W w s 0 of
           (w, new_length, _) \<Rightarrow>
             if \<not> alloc then
               (w, ec_asio no_memory, Some \<lparr>on_heap = False, capacity = kMaxPath + 1, path_text = []\<rparr>)
             else
               (case MultiByteToWideChar W w s new_length of
                  (w, n, text) \<Rightarrow> ending w n (write_path True (new_length + 1) n text)))
      else
        (case MultiByteToWideChar W w s kMaxPath of
           (w, n, text) \<Rightarrow> ending w n (write_path False (kMaxPath + 1) n text)))"

section \<open>Opening and closing\<close>

text \<open>The call for a wide name, and the end of both functions.\<close>

definition win_create ::
    "windows_h \<Rightarrow> 'w winapi \<Rightarrow> u16 list \<Rightarrow> win_open_args \<Rightarrow> 'w \<Rightarrow> 'w \<times> int" where
  "win_create H W name args w =
     (if \<not> app H then
        CreateFileW W w name (desired_access args) (share_mode args) (creation_disposition args)
          (wa_attrs args OR wa_flags args)
      else
        CreateFile2 W w name (desired_access args) (share_mode args) (creation_disposition args)
          (wa_attrs args) (wa_flags args))"

definition win_opened :: "'w winapi \<Rightarrow> 'w \<times> int \<Rightarrow> 'w \<times> error_code \<times> int" where
  "win_opened W r =
     (case r of (w, h) \<Rightarrow> (w, if h = - 1 then win_set_error W w else no_error, h))"

text \<open>None is a write outside of the memory of the path.\<close>

definition win_open ::
    "windows_h \<Rightarrow> 'w winapi \<Rightarrow> bool \<Rightarrow> bytes \<Rightarrow> win_open_args \<Rightarrow> 'w \<Rightarrow> ('w \<times> error_code \<times> int) option" where
  "win_open H W alloc filename args w =
     (if utf8_names H \<or> app H then
        (case win_path_new W alloc filename w of
           (w, ec, None) \<Rightarrow> None
         | (w, ec, Some p) \<Rightarrow>
             if ec_failed ec then Some (w, ec, - 1)
             else Some (win_opened W (win_create H W (path_text p) args w)))
      else
        Some (win_opened W
          (CreateFileA W w filename (desired_access args) (share_mode args)
             (creation_disposition args) (wa_attrs args OR wa_flags args))))"

definition win_open_wide ::
    "windows_h \<Rightarrow> 'w winapi \<Rightarrow> u16 list \<Rightarrow> win_open_args \<Rightarrow> 'w \<Rightarrow> 'w \<times> error_code \<times> int" where
  "win_open_wide H W filename args w =
     (case win_create H W filename args w of
        (w, h) \<Rightarrow> (w, if h \<noteq> - 1 then no_error else win_set_error W w, h))"

definition win_close :: "'w winapi \<Rightarrow> int \<Rightarrow> 'w \<Rightarrow> 'w \<times> error_code" where
  "win_close W fd w =
     (case CloseHandle W w fd of (w, ok) \<Rightarrow> (w, if ok then no_error else win_set_error W w))"

definition win_duplicate :: "'w winapi \<Rightarrow> int \<Rightarrow> 'w \<Rightarrow> 'w \<times> error_code \<times> int" where
  "win_duplicate W fd w =
     (case DuplicateHandle W w fd of
        (w, Some new_fd) \<Rightarrow> (w, no_error, new_fd)
      | (w, None) \<Rightarrow> (w, win_set_error W w, - 1))"

definition win_get_std :: "windows_h \<Rightarrow> 'w winapi \<Rightarrow> nat \<Rightarrow> 'w \<Rightarrow> 'w \<times> error_code \<times> int" where
  "win_get_std H W n w =
     (if \<not> app H then
        (case GetStdHandle W w n of
           (w, h) \<Rightarrow> (w, if h \<noteq> - 1 then no_error else win_set_error W w, h))
      else (w, ec_asio operation_not_supported, - 1))"

definition win_get_stdin where "win_get_stdin H W w = win_get_std H W 0 w"
definition win_get_stdout where "win_get_stdout H W w = win_get_std H W 1 w"
definition win_get_stderr where "win_get_stderr H W w = win_get_std H W 2 w"

section \<open>Size and position\<close>

text \<open>The unsigned reading of a \<^verbatim>\<open>LARGE_INTEGER\<close>.\<close>

definition to_u64 :: "int \<Rightarrow> nat" where
  "to_u64 n = unat (of_int n :: 64 word)"

definition win_size :: "'w winapi \<Rightarrow> int \<Rightarrow> 'w \<Rightarrow> 'w \<times> error_code \<times> nat" where
  "win_size W fd w =
     (case GetFileSizeEx W w fd of
        (w, Some n) \<Rightarrow> (w, no_error, to_u64 n)
      | (w, None) \<Rightarrow> (w, win_set_error W w, 0))"

text \<open>Before Vista: move the file pointer, set the end there, move it back.\<close>

definition win_set_size_at_pointer :: "'w winapi \<Rightarrow> int \<Rightarrow> nat \<Rightarrow> 'w \<Rightarrow> 'w \<times> error_code" where
  "win_set_size_at_pointer W fd new_size w =
     (case SetFilePointerEx W w fd 0 1 of
        (w, None) \<Rightarrow> (w, win_set_error W w)
      | (w, Some old_pointer) \<Rightarrow>
          (case SetFilePointerEx W w fd (to_off new_size) 0 of
             (w, None) \<Rightarrow> (w, win_set_error W w)
           | (w, Some _) \<Rightarrow>
               (case SetEndOfFile W w fd of
                  (w, True) \<Rightarrow>
                    (case SetFilePointerEx W w fd old_pointer 0 of
                       (w, Some _) \<Rightarrow> (w, no_error)
                     | (w, None) \<Rightarrow> (w, win_set_error W w))
                | (w, False) \<Rightarrow>
                    (case SetFilePointerEx W w fd old_pointer 0 of
                       (w, _) \<Rightarrow> (w, win_set_error W w)))))"

definition win_set_size :: "windows_h \<Rightarrow> 'w winapi \<Rightarrow> int \<Rightarrow> nat \<Rightarrow> 'w \<Rightarrow> 'w \<times> error_code" where
  "win_set_size H W fd new_size w =
     (if vista H then
        (case SetEndOfFileInfo W w fd (to_off new_size) of
           (w, False) \<Rightarrow> (w, win_set_error W w)
         | (w, True) \<Rightarrow>
             (case SetAllocationInfo W w fd (to_off new_size) of
                (w, ok) \<Rightarrow> (w, if ok then no_error else win_set_error W w)))
      else win_set_size_at_pointer W fd new_size w)"

text \<open>\<open>ec\<close> is the code of the caller, here and below, where a function may leave it alone.\<close>

definition win_seek ::
    "'w winapi \<Rightarrow> int \<Rightarrow> seek_origin \<Rightarrow> int \<Rightarrow> error_code \<Rightarrow> 'w \<Rightarrow> 'w \<times> error_code \<times> nat" where
  "win_seek W fd origin offset ec w =
     (case SetFilePointerEx W w fd offset (whence origin) of
        (w, Some res) \<Rightarrow> (w, ec, to_u64 res)
      | (w, None) \<Rightarrow> (w, win_set_error W w, 0))"

section \<open>Permissions and attributes\<close>

definition win_permissions :: "windows_h \<Rightarrow> 'w winapi \<Rightarrow> int \<Rightarrow> 'w \<Rightarrow> 'w \<times> error_code \<times> u32" where
  "win_permissions H W fd w =
     (if vista H then
        (case GetBasicInfo W w fd of
           (w, Some info) \<Rightarrow>
             (w, no_error,
              if FileAttributes info AND FILE_ATTRIBUTE_READONLY H \<noteq> 0
              then perms_all AND NOT write_perms else perms_all)
         | (w, None) \<Rightarrow> (w, win_set_error W w, 0))
      else (w, ec_asio operation_not_supported, 0))"

text \<open>The write of changed attributes, with all times zero.\<close>

definition win_write_info ::
    "'w winapi \<Rightarrow> int \<Rightarrow> basic_info \<Rightarrow> error_code \<Rightarrow> 'w \<Rightarrow> 'w \<times> error_code" where
  "win_write_info W fd info ec w =
     (let info = info\<lparr>CreationTime := 0, LastAccessTime := 0, LastWriteTime := 0, ChangeTime := 0\<rparr> in
      case SetBasicInfo W w fd info of
        (w, ok) \<Rightarrow> (w, if ok then ec else win_set_error W w))"

definition win_set_permissions ::
    "windows_h \<Rightarrow> 'w winapi \<Rightarrow> int \<Rightarrow> u32 \<Rightarrow> u32 \<Rightarrow> error_code \<Rightarrow> 'w \<Rightarrow> 'w \<times> error_code" where
  "win_set_permissions H W fd perms opts ec w =
     (if vista H then
        (if opts AND (opt_add OR opt_remove) \<noteq> 0 \<and> perms AND write_perms = 0 then (w, no_error)
         else
           (case GetBasicInfo W w fd of
              (w, None) \<Rightarrow> (w, win_set_error W w)
            | (w, Some info) \<Rightarrow>
                (let native = FileAttributes info;
                     native =
                       (if opts AND opt_add \<noteq> 0 then native AND NOT (FILE_ATTRIBUTE_READONLY H)
                        else if opts AND opt_remove \<noteq> 0 then native OR FILE_ATTRIBUTE_READONLY H
                        else if perms AND write_perms \<noteq> 0 then native AND NOT (FILE_ATTRIBUTE_READONLY H)
                        else native OR FILE_ATTRIBUTE_READONLY H) in
                 win_write_info W fd (info\<lparr>FileAttributes := native\<rparr>) ec w)))
      else (w, ec_asio operation_not_supported))"

definition win_attributes :: "windows_h \<Rightarrow> 'w winapi \<Rightarrow> int \<Rightarrow> 'w \<Rightarrow> 'w \<times> error_code \<times> u32" where
  "win_attributes H W fd w =
     (if vista H then
        (case GetBasicInfo W w fd of
           (w, Some info) \<Rightarrow> (w, no_error, win_native_to_attrs H (FileAttributes info))
         | (w, None) \<Rightarrow> (w, win_set_error W w, 0))
      else (w, ec_asio operation_not_supported, 0))"

definition win_set_attributes ::
    "windows_h \<Rightarrow> 'w winapi \<Rightarrow> int \<Rightarrow> u32 \<Rightarrow> u32 \<Rightarrow> error_code \<Rightarrow> 'w \<Rightarrow> 'w \<times> error_code" where
  "win_set_attributes H W fd attrs opts ec w =
     (if vista H then
        (case GetBasicInfo W w fd of
           (w, None) \<Rightarrow> (w, win_set_error W w)
         | (w, Some info) \<Rightarrow>
             (let new_attrs = win_attrs_to_native H attrs;
                  native =
                    (if opts AND (opt_add OR opt_remove) \<noteq> 0 then
                       (if opts AND opt_add \<noteq> 0 then FileAttributes info OR new_attrs
                        else FileAttributes info AND NOT new_attrs)
                     else new_attrs);
                  native = (if native = 0 then FILE_ATTRIBUTE_NORMAL H else native) in
              win_write_info W fd (info\<lparr>FileAttributes := native\<rparr>) ec w))
      else (w, ec_asio operation_not_supported))"

section \<open>Times\<close>

text \<open>\<open>old\<close> are the values of the caller's objects.\<close>

definition win_get_times ::
    "'w winapi \<Rightarrow> int \<Rightarrow> int \<times> int \<times> int \<Rightarrow> 'w \<Rightarrow> 'w \<times> error_code \<times> int \<times> int \<times> int" where
  "win_get_times W fd old w =
     (case GetFileTime W w fd of
        (w, Some (cft, aft, mft)) \<Rightarrow>
          (w, no_error, filetime_to_chrono cft, filetime_to_chrono aft, filetime_to_chrono mft)
      | (w, None) \<Rightarrow> (w, win_set_error W w, old))"

definition win_set_times ::
    "'w winapi \<Rightarrow> int \<Rightarrow> int \<times> int \<times> int \<Rightarrow> 'w \<Rightarrow> 'w \<times> error_code" where
  "win_set_times W fd ts w =
     (case ts of (c, a, m) \<Rightarrow>
        (case SetFileTime W w fd (chrono_to_filetime c, chrono_to_filetime a, chrono_to_filetime m) of
           (w, ok) \<Rightarrow> (w, if ok then no_error else win_set_error W w)))"

section \<open>Reading and writing\<close>

text \<open>The two halves of an offset in an \<^verbatim>\<open>OVERLAPPED\<close>.\<close>

definition overlapped :: "nat \<Rightarrow> u32 \<times> u32" where
  "overlapped offset = (let q = of_nat offset :: 64 word in (ucast q, ucast (drop_bit 32 q)))"

definition win_read_result ::
    "'w winapi \<Rightarrow> u32 \<Rightarrow> error_code \<Rightarrow> 'w \<times> bytes option \<Rightarrow> 'w \<times> error_code \<times> bytes" where
  "win_read_result W n ec r =
     (case r of
        (w, None) \<Rightarrow> (w, win_set_error W w, [])
      | (w, Some data) \<Rightarrow> (w, if length data = 0 \<and> n \<noteq> 0 then ec_asio eof else ec, data))"

definition win_read :: "'w winapi \<Rightarrow> int \<Rightarrow> u32 \<Rightarrow> error_code \<Rightarrow> 'w \<Rightarrow> 'w \<times> error_code \<times> bytes" where
  "win_read W fd n ec w = win_read_result W n ec (ReadFile W w fd n None)"

definition win_pread ::
    "'w winapi \<Rightarrow> int \<Rightarrow> u32 \<Rightarrow> nat \<Rightarrow> error_code \<Rightarrow> 'w \<Rightarrow> 'w \<times> error_code \<times> bytes" where
  "win_pread W fd n offset ec w =
     win_read_result W n ec (ReadFile W w fd n (Some (overlapped offset)))"

definition win_write_result ::
    "'w winapi \<Rightarrow> error_code \<Rightarrow> 'w \<times> u32 option \<Rightarrow> 'w \<times> error_code \<times> nat" where
  "win_write_result W ec r =
     (case r of (w, None) \<Rightarrow> (w, win_set_error W w, 0) | (w, Some n) \<Rightarrow> (w, ec, unat n))"

text \<open>\<open>data\<close> are the first \<^verbatim>\<open>size\<close> bytes of the buffer.\<close>

definition win_write :: "'w winapi \<Rightarrow> int \<Rightarrow> bytes \<Rightarrow> error_code \<Rightarrow> 'w \<Rightarrow> 'w \<times> error_code \<times> nat" where
  "win_write W fd data ec w = win_write_result W ec (WriteFile W w fd data None)"

definition win_pwrite ::
    "'w winapi \<Rightarrow> int \<Rightarrow> bytes \<Rightarrow> nat \<Rightarrow> error_code \<Rightarrow> 'w \<Rightarrow> 'w \<times> error_code \<times> nat" where
  "win_pwrite W fd data offset ec w =
     win_write_result W ec (WriteFile W w fd data (Some (overlapped offset)))"

section \<open>The file handle\<close>

text \<open>
  The default constructor, \<^verbatim>\<open>is_open\<close> and \<^verbatim>\<open>clear\<close> are those of the POSIX build, for
  \<^verbatim>\<open>INVALID_HANDLE_VALUE\<close> is -1.
\<close>

definition fhw_close :: "'w winapi \<Rightarrow> file_handle \<Rightarrow> 'w \<Rightarrow> file_handle \<times> 'w \<times> error_code" where
  "fhw_close W h w =
     (if native_handle h = - 1 then (h, w, no_error)
      else (case win_close W (native_handle h) w of (w, ec) \<Rightarrow> (h\<lparr>native_handle := - 1\<rparr>, w, ec)))"

definition fhw_seek where
  "fhw_seek W h origin offset ec w = win_seek W (native_handle h) origin offset ec w"
definition fhw_position where "fhw_position W h ec w = fhw_seek W h from_current 0 ec w"
definition fhw_size where "fhw_size W h w = win_size W (native_handle h) w"
definition fhw_truncate where "fhw_truncate H W h new_size w = win_set_size H W (native_handle h) new_size w"
definition fhw_permissions where "fhw_permissions H W h w = win_permissions H W (native_handle h) w"
definition fhw_set_permissions where
  "fhw_set_permissions H W h perms opts ec w = win_set_permissions H W (native_handle h) perms opts ec w"
definition fhw_attributes where "fhw_attributes H W h w = win_attributes H W (native_handle h) w"
definition fhw_set_attributes where
  "fhw_set_attributes H W h attrs opts ec w = win_set_attributes H W (native_handle h) attrs opts ec w"

definition fhw_times :: "'w winapi \<Rightarrow> file_handle \<Rightarrow> 'w \<Rightarrow> 'w \<times> error_code \<times> file_times" where
  "fhw_times W h w =
     (case win_get_times W (native_handle h) (0, 0, 0) w of
        (w, ec, c, a, m) \<Rightarrow> (w, ec, \<lparr>ctime = c, atime = a, mtime = m\<rparr>))"

definition fhw_set_times :: "'w winapi \<Rightarrow> file_handle \<Rightarrow> file_times \<Rightarrow> 'w \<Rightarrow> 'w \<times> error_code" where
  "fhw_set_times W h ts w = win_set_times W (native_handle h) (ctime ts, atime ts, mtime ts) w"

text \<open>\<^verbatim>\<open>static_cast<uint32_t>(buf.size())\<close>, and the bytes of a buffer of that size.\<close>

definition size32 :: "nat \<Rightarrow> u32" where "size32 n = of_nat n"

definition fhw_read_some where
  "fhw_read_some W h bufs ec w = win_read W (native_handle h) (size32 (first_mutable_buffer bufs)) ec w"
definition fhw_read_some_at where
  "fhw_read_some_at W h offset bufs ec w =
     win_pread W (native_handle h) (size32 (first_mutable_buffer bufs)) offset ec w"
definition fhw_write_some where
  "fhw_write_some W h bufs ec w =
     (let buf = first_const_buffer bufs in
      win_write W (native_handle h) (take (unat (size32 (length buf))) buf) ec w)"
definition fhw_write_some_at where
  "fhw_write_some_at W h offset bufs ec w =
     (let buf = first_const_buffer bufs in
      win_pwrite W (native_handle h) (take (unat (size32 (length buf))) buf) offset ec w)"

end
