(* ===== verification/WinFileCorrect.thy ===== *)
theory WinFileCorrect
  imports WinFileOps
begin

text \<open>
  What the Windows build of the file operations does: the arguments of open, permissions and
  attributes over a file that keeps them, the codes the operations leave, the sizes they pass on, and
  the memory of a path.
\<close>

section \<open>Flags\<close>

text \<open>What \<^verbatim>\<open>windows.h\<close> promises of its numbers.\<close>

definition windows_h_ok :: "windows_h \<Rightarrow> bool" where
  "windows_h_ok H \<longleftrightarrow>
     disjoint_flags [Some (FILE_ATTRIBUTE_READONLY H), Some (FILE_ATTRIBUTE_HIDDEN H),
       Some (FILE_ATTRIBUTE_SYSTEM H), Some (FILE_ATTRIBUTE_NORMAL H),
       Some (FILE_ATTRIBUTE_NOT_CONTENT_INDEXED H)]
     \<and> disjoint_flags [Some (FILE_SHARE_READ H), Some (FILE_SHARE_WRITE H)]
     \<and> disjoint_flags [Some (GENERIC_READ H), Some (GENERIC_WRITE H)]
     \<and> 0xffffffff \<notin> {CREATE_NEW H, CREATE_ALWAYS H, OPEN_EXISTING H, OPEN_ALWAYS H, TRUNCATE_EXISTING H}"

definition win10 :: windows_h where
  "win10 =
     \<lparr>CREATE_NEW = 1, CREATE_ALWAYS = 2, OPEN_EXISTING = 3, OPEN_ALWAYS = 4, TRUNCATE_EXISTING = 5,
      GENERIC_READ = 0x80000000, GENERIC_WRITE = 0x40000000, FILE_SHARE_READ = 1, FILE_SHARE_WRITE = 2,
      FILE_FLAG_OVERLAPPED = 0x40000000, FILE_ATTRIBUTE_READONLY = 1, FILE_ATTRIBUTE_HIDDEN = 2,
      FILE_ATTRIBUTE_SYSTEM = 4, FILE_ATTRIBUTE_NORMAL = 0x80,
      FILE_ATTRIBUTE_NOT_CONTENT_INDEXED = 0x2000, vista = True, app = False, utf8_names = False\<rparr>"

lemma win10_ok: "windows_h_ok win10"
  by (simp add: windows_h_ok_def win10_def)

lemma windows_h_bits:
  assumes "windows_h_ok H"
  shows "FILE_ATTRIBUTE_READONLY H \<noteq> 0" "FILE_ATTRIBUTE_HIDDEN H \<noteq> 0" "FILE_ATTRIBUTE_SYSTEM H \<noteq> 0"
    "FILE_ATTRIBUTE_NORMAL H \<noteq> 0" "FILE_ATTRIBUTE_NOT_CONTENT_INDEXED H \<noteq> 0"
    "FILE_ATTRIBUTE_READONLY H AND FILE_ATTRIBUTE_HIDDEN H = 0"
    "FILE_ATTRIBUTE_READONLY H AND FILE_ATTRIBUTE_SYSTEM H = 0"
    "FILE_ATTRIBUTE_READONLY H AND FILE_ATTRIBUTE_NORMAL H = 0"
    "FILE_ATTRIBUTE_READONLY H AND FILE_ATTRIBUTE_NOT_CONTENT_INDEXED H = 0"
    "FILE_ATTRIBUTE_HIDDEN H AND FILE_ATTRIBUTE_READONLY H = 0"
    "FILE_ATTRIBUTE_HIDDEN H AND FILE_ATTRIBUTE_SYSTEM H = 0"
    "FILE_ATTRIBUTE_HIDDEN H AND FILE_ATTRIBUTE_NOT_CONTENT_INDEXED H = 0"
    "FILE_ATTRIBUTE_SYSTEM H AND FILE_ATTRIBUTE_READONLY H = 0"
    "FILE_ATTRIBUTE_SYSTEM H AND FILE_ATTRIBUTE_HIDDEN H = 0"
    "FILE_ATTRIBUTE_SYSTEM H AND FILE_ATTRIBUTE_NOT_CONTENT_INDEXED H = 0"
    "FILE_ATTRIBUTE_NOT_CONTENT_INDEXED H AND FILE_ATTRIBUTE_READONLY H = 0"
    "FILE_ATTRIBUTE_NOT_CONTENT_INDEXED H AND FILE_ATTRIBUTE_HIDDEN H = 0"
    "FILE_ATTRIBUTE_NOT_CONTENT_INDEXED H AND FILE_ATTRIBUTE_SYSTEM H = 0"
    "FILE_ATTRIBUTE_NORMAL H AND FILE_ATTRIBUTE_READONLY H = 0"
    "FILE_ATTRIBUTE_NORMAL H AND FILE_ATTRIBUTE_HIDDEN H = 0"
    "FILE_ATTRIBUTE_NORMAL H AND FILE_ATTRIBUTE_SYSTEM H = 0"
    "FILE_ATTRIBUTE_NORMAL H AND FILE_ATTRIBUTE_NOT_CONTENT_INDEXED H = 0"
    "FILE_SHARE_READ H \<noteq> 0" "FILE_SHARE_WRITE H \<noteq> 0" "FILE_SHARE_READ H AND FILE_SHARE_WRITE H = 0"
    "FILE_SHARE_WRITE H AND FILE_SHARE_READ H = 0" "GENERIC_READ H \<noteq> 0" "GENERIC_WRITE H \<noteq> 0"
    "GENERIC_READ H AND GENERIC_WRITE H = 0" "GENERIC_WRITE H AND GENERIC_READ H = 0"
  using assms by (simp_all add: windows_h_ok_def and.commute)

lemma and_not_other: "(y :: u32) AND z = 0 \<Longrightarrow> (x AND NOT y) AND z = x AND z"
  by (metis (no_types) and.assoc and.commute and_or_nonzero bit.conj_cancel_right bit.conj_disj_distrib
      bit.conj_one_right bit.disj_cancel_right or.right_neutral)

lemma and_or_zero: "(x OR y) AND (z :: u32) = 0 \<longleftrightarrow> x AND z = 0 \<and> y AND z = 0"
  using and_or_nonzero [of x y z] by blast

lemma and_not_self: "((x :: u32) AND NOT y) AND y = 0"
  by (simp add: and.assoc)

text \<open>The three attributes both sides know, from the bits that tell whether they are there.\<close>

definition attrs_of :: "bool \<Rightarrow> bool \<Rightarrow> bool \<Rightarrow> u32" where
  "attrs_of p q r =
     (if p then attr_hidden else 0) OR (if q then attr_system else 0) OR (if r then attr_not_indexed else 0)"

definition win_supported :: u32 where
  "win_supported = attr_hidden OR attr_system OR attr_not_indexed"

lemma win_native_to_attrs_of:
  "win_native_to_attrs H n =
     attrs_of (n AND FILE_ATTRIBUTE_HIDDEN H \<noteq> 0) (n AND FILE_ATTRIBUTE_SYSTEM H \<noteq> 0)
       (n AND FILE_ATTRIBUTE_NOT_CONTENT_INDEXED H \<noteq> 0)"
  by (simp add: win_native_to_attrs_def attrs_of_def Let_def or.assoc)

lemma supported_attrs_of:
  "x AND win_supported =
     attrs_of (x AND attr_hidden \<noteq> 0) (x AND attr_system \<noteq> 0) (x AND attr_not_indexed \<noteq> 0)"
proof -
  have "x AND attr_hidden = 0 \<or> x AND attr_hidden = attr_hidden"
    "x AND attr_system = 0 \<or> x AND attr_system = attr_system"
    "x AND attr_not_indexed = 0 \<or> x AND attr_not_indexed = attr_not_indexed"
    unfolding attr_hidden_def attr_system_def attr_not_indexed_def by (rule single_bit)+
  moreover have "x AND win_supported =
      (x AND attr_hidden) OR (x AND attr_system) OR (x AND attr_not_indexed)"
    by (simp add: win_supported_def bit.conj_disj_distrib)
  ultimately show ?thesis unfolding attrs_of_def by auto
qed

lemma win_attrs_to_native_bits:
  assumes "windows_h_ok H"
  shows "win_attrs_to_native H attrs AND FILE_ATTRIBUTE_HIDDEN H \<noteq> 0 \<longleftrightarrow> attrs AND attr_hidden \<noteq> 0"
    and "win_attrs_to_native H attrs AND FILE_ATTRIBUTE_SYSTEM H \<noteq> 0 \<longleftrightarrow> attrs AND attr_system \<noteq> 0"
    and "win_attrs_to_native H attrs AND FILE_ATTRIBUTE_NOT_CONTENT_INDEXED H \<noteq> 0 \<longleftrightarrow>
      attrs AND attr_not_indexed \<noteq> 0"
    and "win_attrs_to_native H attrs AND FILE_ATTRIBUTE_READONLY H = 0"
proof -
  note b = windows_h_bits [OF assms]
  let ?n = "win_attrs_to_native H attrs"
  show "?n AND FILE_ATTRIBUTE_HIDDEN H \<noteq> 0 \<longleftrightarrow> attrs AND attr_hidden \<noteq> 0"
    "?n AND FILE_ATTRIBUTE_SYSTEM H \<noteq> 0 \<longleftrightarrow> attrs AND attr_system \<noteq> 0"
    "?n AND FILE_ATTRIBUTE_NOT_CONTENT_INDEXED H \<noteq> 0 \<longleftrightarrow> attrs AND attr_not_indexed \<noteq> 0"
    using b by (auto simp: win_attrs_to_native_def Let_def and_or_zero)
  have "\<not> ?n AND FILE_ATTRIBUTE_READONLY H \<noteq> 0"
    using b by (auto simp: win_attrs_to_native_def Let_def and_or_zero)
  then show "?n AND FILE_ATTRIBUTE_READONLY H = 0" by simp
qed

lemma win_attrs_to_native_and:
  assumes "windows_h_ok H"
  shows "win_attrs_to_native H attrs AND FILE_ATTRIBUTE_HIDDEN H =
      (if attrs AND attr_hidden \<noteq> 0 then FILE_ATTRIBUTE_HIDDEN H else 0)"
    and "win_attrs_to_native H attrs AND FILE_ATTRIBUTE_SYSTEM H =
      (if attrs AND attr_system \<noteq> 0 then FILE_ATTRIBUTE_SYSTEM H else 0)"
    and "win_attrs_to_native H attrs AND FILE_ATTRIBUTE_NOT_CONTENT_INDEXED H =
      (if attrs AND attr_not_indexed \<noteq> 0 then FILE_ATTRIBUTE_NOT_CONTENT_INDEXED H else 0)"
  using windows_h_bits [OF assms]
  by (simp_all add: win_attrs_to_native_def Let_def bit.conj_disj_distrib2)

lemma and_not_removes: "(y :: u32) AND z = z \<Longrightarrow> (x AND NOT y) AND z = 0"
proof -
  assume z: "y AND z = z"
  have "(x AND NOT y) AND (y AND z) = ((x AND NOT y) AND y) AND z" by (simp only: and.assoc)
  then show ?thesis unfolding z and_not_self by simp
qed

lemma attrs_of_or: "attrs_of p q r OR attrs_of p' q' r' = attrs_of (p \<or> p') (q \<or> q') (r \<or> r')"
  by (auto simp: attrs_of_def intro!: bit_eqI simp: bit_simps)

lemma attrs_of_and_not:
  "attrs_of p q r AND NOT x =
     attrs_of (p \<and> x AND attr_hidden = 0) (q \<and> x AND attr_system = 0) (r \<and> x AND attr_not_indexed = 0)"
proof -
  have one: "push_bit n (1 :: u32) AND NOT x = (if x AND push_bit n 1 = 0 then push_bit n 1 else 0)"
    if "n < 32" for n
  proof (cases "bit x n")
    case True
    then have "x AND push_bit n 1 \<noteq> 0"
      using that bit_and_iff [of x "push_bit n 1" n] by (auto simp: bit_exp_iff)
    moreover have "push_bit n (1 :: u32) AND NOT x = 0"
      using True by (intro bit_eqI) (auto simp: bit_simps)
    ultimately show ?thesis by simp
  next
    case False
    then have "x AND push_bit n 1 = 0" and "push_bit n (1 :: u32) AND NOT x = push_bit n 1"
      by (intro bit_eqI; auto simp: bit_simps)+
    then show ?thesis by simp
  qed
  note ones = one [of 0] one [of 1] one [of 4]
  show ?thesis
    unfolding attrs_of_def bit.conj_disj_distrib2 attr_hidden_def attr_system_def attr_not_indexed_def
    using ones by simp
qed

section \<open>Arguments of open\<close>

lemma win_parse_open_flags_fields:
  fixes raw flags perms attrs
  assumes ok: "windows_h_ok H"
  defines "args \<equiv> win_parse_open_flags H flags perms attrs raw"
  shows "(desired_access args AND GENERIC_READ H \<noteq> 0 \<longleftrightarrow> flags AND access_read \<noteq> 0)"
    and "(desired_access args AND GENERIC_WRITE H \<noteq> 0 \<longleftrightarrow> flags AND access_write \<noteq> 0)"
    and "(share_mode args AND FILE_SHARE_READ H \<noteq> 0 \<longleftrightarrow> flags AND exclusive_read = 0)"
    and "(share_mode args AND FILE_SHARE_WRITE H \<noteq> 0 \<longleftrightarrow> flags AND exclusive_write = 0)"
    and "(wa_attrs args AND FILE_ATTRIBUTE_READONLY H \<noteq> 0 \<longleftrightarrow> perms AND write_perms = 0)"
    and "win_native_to_attrs H (wa_attrs args) = attrs AND win_supported"
proof -
  note b = windows_h_bits [OF ok] and n = win_attrs_to_native_bits [OF ok, of attrs]
  show "(desired_access args AND GENERIC_READ H \<noteq> 0 \<longleftrightarrow> flags AND access_read \<noteq> 0)"
    "(desired_access args AND GENERIC_WRITE H \<noteq> 0 \<longleftrightarrow> flags AND access_write \<noteq> 0)"
    "(share_mode args AND FILE_SHARE_READ H \<noteq> 0 \<longleftrightarrow> flags AND exclusive_read = 0)"
    "(share_mode args AND FILE_SHARE_WRITE H \<noteq> 0 \<longleftrightarrow> flags AND exclusive_write = 0)"
    using b by (simp_all add: args_def win_parse_open_flags_def Let_def and_or_zero and_not_other and_not_self)
  show "(wa_attrs args AND FILE_ATTRIBUTE_READONLY H \<noteq> 0 \<longleftrightarrow> perms AND write_perms = 0)"
    using b n by (simp add: args_def win_parse_open_flags_def Let_def and_or_zero and_not_self)
  show "win_native_to_attrs H (wa_attrs args) = attrs AND win_supported"
    using b n
    by (simp add: args_def win_parse_open_flags_def Let_def and_or_zero and_not_other
        win_native_to_attrs_of supported_attrs_of)
qed

lemma win_parse_open_flags_creation:
  fixes raw perms attrs H
  assumes "flags_valid flags"
  defines "args \<equiv> win_parse_open_flags H flags perms attrs raw"
  shows "flags AND create_new \<noteq> 0 \<Longrightarrow> creation_disposition args = CREATE_NEW H"
    and "flags AND create_always \<noteq> 0 \<Longrightarrow> creation_disposition args = CREATE_ALWAYS H"
    and "flags AND open_existing \<noteq> 0 \<Longrightarrow> creation_disposition args = OPEN_EXISTING H"
    and "flags AND open_always \<noteq> 0 \<Longrightarrow> creation_disposition args = OPEN_ALWAYS H"
    and "flags AND truncate_existing \<noteq> 0 \<Longrightarrow> creation_disposition args = TRUNCATE_EXISTING H"
proof -
  have one: "f = g" if "f \<in> set creation_modes" "g \<in> set creation_modes"
      "flags AND f \<noteq> 0" "flags AND g \<noteq> 0" for f g
    using flags_valid_unique [OF assms(1)] that by blast
  have d: "create_always \<noteq> create_new" "open_existing \<noteq> create_new" "open_existing \<noteq> create_always"
    "open_always \<noteq> create_new" "open_always \<noteq> create_always" "open_always \<noteq> open_existing"
    "truncate_existing \<noteq> create_new" "truncate_existing \<noteq> create_always"
    "truncate_existing \<noteq> open_existing" "truncate_existing \<noteq> open_always"
    by (simp_all add: open_flag_defs)
  have only: "flags AND g = 0"
    if "flags AND f \<noteq> 0" "f \<in> set creation_modes" "g \<in> set creation_modes" "f \<noteq> g" for f g
    using one that by blast
  note mem = creation_modes_def
  show "flags AND create_new \<noteq> 0 \<Longrightarrow> creation_disposition args = CREATE_NEW H"
    by (simp add: args_def win_parse_open_flags_def Let_def)
  show "flags AND create_always \<noteq> 0 \<Longrightarrow> creation_disposition args = CREATE_ALWAYS H"
    using only [of create_always create_new] d
    by (simp add: args_def win_parse_open_flags_def Let_def mem)
  show "flags AND open_existing \<noteq> 0 \<Longrightarrow> creation_disposition args = OPEN_EXISTING H"
    using only [of open_existing create_new] only [of open_existing create_always] d
    by (simp add: args_def win_parse_open_flags_def Let_def mem)
  show "flags AND open_always \<noteq> 0 \<Longrightarrow> creation_disposition args = OPEN_ALWAYS H"
    using only [of open_always create_new] only [of open_always create_always]
      only [of open_always open_existing] d
    by (simp add: args_def win_parse_open_flags_def Let_def mem)
  show "flags AND truncate_existing \<noteq> 0 \<Longrightarrow> creation_disposition args = TRUNCATE_EXISTING H"
    using only [of truncate_existing create_new] only [of truncate_existing create_always]
      only [of truncate_existing open_existing] only [of truncate_existing open_always] d
    by (simp add: args_def win_parse_open_flags_def Let_def mem)
qed

lemma win_open_args_new_valid:
  assumes "windows_h_ok H"
  shows "win_open_args_valid (win_open_args_new H raw flags perms attrs) \<longleftrightarrow> flags_valid flags"
  using assms
  by (auto simp: win_open_args_valid_def win_open_args_new_def win_parse_open_flags_def Let_def
      windows_h_ok_def)

text \<open>
  C33. The arguments of \<^verbatim>\<open>CreateFile\<close> that \<open>open_args\<close> makes on Windows are valid exactly if the flags
  name at most one creation mode. Then they carry this mode, the access that is asked for, a share
  mode without what is exclusive, the read-only attribute if nobody may write, and just the given
  attributes that Windows knows.
\<close>

theorem win_open_args_new_spec:
  assumes "windows_h_ok H"
  shows "(win_open_args_valid (win_open_args_new H raw flags perms attrs) \<longleftrightarrow>
       length (filter (\<lambda>f. flags AND f \<noteq> 0) creation_modes) \<le> 1)
    \<and> (flags_valid flags \<longrightarrow>
        (let args = win_open_args_new H raw flags perms attrs in
          (flags AND create_new \<noteq> 0 \<longrightarrow> creation_disposition args = CREATE_NEW H)
        \<and> (flags AND create_always \<noteq> 0 \<longrightarrow> creation_disposition args = CREATE_ALWAYS H)
        \<and> (flags AND open_existing \<noteq> 0 \<longrightarrow> creation_disposition args = OPEN_EXISTING H)
        \<and> (flags AND open_always \<noteq> 0 \<longrightarrow> creation_disposition args = OPEN_ALWAYS H)
        \<and> (flags AND truncate_existing \<noteq> 0 \<longrightarrow> creation_disposition args = TRUNCATE_EXISTING H)
        \<and> (desired_access args AND GENERIC_READ H \<noteq> 0 \<longleftrightarrow> flags AND access_read \<noteq> 0)
        \<and> (desired_access args AND GENERIC_WRITE H \<noteq> 0 \<longleftrightarrow> flags AND access_write \<noteq> 0)
        \<and> (share_mode args AND FILE_SHARE_READ H \<noteq> 0 \<longleftrightarrow> flags AND exclusive_read = 0)
        \<and> (share_mode args AND FILE_SHARE_WRITE H \<noteq> 0 \<longleftrightarrow> flags AND exclusive_write = 0)
        \<and> (wa_attrs args AND FILE_ATTRIBUTE_READONLY H \<noteq> 0 \<longleftrightarrow> perms AND write_perms = 0)
        \<and> win_native_to_attrs H (wa_attrs args) = attrs AND win_supported))"
    (is "?valid \<and> (_ \<longrightarrow> ?fields)")
proof (intro conjI impI)
  show ?valid
    using win_open_args_new_valid [OF assms] flags_valid_count by blast
next
  assume v: "flags_valid flags"
  show ?fields
    unfolding Let_def win_open_args_new_def if_P [OF v]
    by (intro conjI impI win_parse_open_flags_creation [OF v] win_parse_open_flags_fields [OF assms])
qed

theorem win_open_args_new_spec_witness:
  "win_open_args_valid (win_open_args_new win10 win_open_args_default (access_read OR open_always) create_default attr_hidden)
    \<and> creation_disposition (win_open_args_new win10 win_open_args_default (access_read OR open_always) create_default attr_hidden) = 4"
proof -
  have "length (filter (\<lambda>f. (access_read OR open_always) AND f \<noteq> 0) creation_modes) \<le> 1"
    and v: "flags_valid (access_read OR open_always)"
    and "(access_read OR open_always) AND open_always \<noteq> 0"
    by (simp_all add: creation_modes_def open_flag_defs flags_valid_def)
  then show ?thesis
    using win_open_args_new_spec [OF win10_ok, of win_open_args_default "access_read OR open_always" create_default attr_hidden]
    by (simp add: Let_def) (simp add: win10_def)
qed

section \<open>Attributes and permissions\<close>

text \<open>
  What the system promises of the basic information of a file: \<open>attr\<close> are the attributes it has,
  \<open>stamps\<close> its times. A field that is zero is not changed.
\<close>

definition info_file :: "'w winapi \<Rightarrow> int \<Rightarrow> ('w \<Rightarrow> u32) \<Rightarrow> ('w \<Rightarrow> 't) \<Rightarrow> bool" where
  "info_file W fd attr stamps \<longleftrightarrow>
     (\<forall>w w' r. GetBasicInfo W w fd = (w', r) \<longrightarrow>
        attr w' = attr w \<and> stamps w' = stamps w \<and> (\<forall>i. r = Some i \<longrightarrow> FileAttributes i = attr w))
     \<and> (\<forall>w i w' done. SetBasicInfo W w fd i = (w', done) \<longrightarrow>
        attr w' = (if done \<and> FileAttributes i \<noteq> 0 then FileAttributes i else attr w)
        \<and> (CreationTime i = 0 \<and> LastAccessTime i = 0 \<and> LastWriteTime i = 0 \<and> ChangeTime i = 0
             \<longrightarrow> stamps w' = stamps w))"

lemma win_write_info_effect:
  assumes "info_file W fd attr stamps" and "win_write_info W fd info no_error w = (w', no_error)"
  shows "attr w' = (if FileAttributes info = 0 then attr w else FileAttributes info)"
    and "stamps w' = stamps w"
proof -
  let ?i = "info\<lparr>CreationTime := 0, LastAccessTime := 0, LastWriteTime := 0, ChangeTime := 0\<rparr>"
  obtain ok where s: "SetBasicInfo W w fd ?i = (w', ok)" and "ok"
    using assms(2) by (auto simp: win_write_info_def Let_def win_set_error_def split: prod.splits if_splits)
  then show "attr w' = (if FileAttributes info = 0 then attr w else FileAttributes info)"
    and "stamps w' = stamps w"
    using assms(1) unfolding info_file_def by (auto dest!: conjunct2 elim!: allE [of _ w] allE [of _ ?i])
qed

lemma get_info_effect:
  assumes "info_file W fd attr stamps" and "GetBasicInfo W w fd = (w', r)"
  shows "attr w' = attr w" and "stamps w' = stamps w" and "r = Some i \<Longrightarrow> FileAttributes i = attr w"
  using assms unfolding info_file_def by blast+

text \<open>
  C34. Setting attributes does what the options say to the attributes that Windows knows, leaves the
  times alone, and when it adds or removes, also the read-only attribute; replacing clears that one.
\<close>

theorem win_set_attributes_effect:
  assumes "windows_h_ok H" and "vista H" and "info_file W fd attr stamps"
    and "win_set_attributes H W fd attrs opts no_error w = (w', no_error)"
  shows "stamps w' = stamps w
    \<and> win_native_to_attrs H (attr w') =
        (if opts AND opt_add \<noteq> 0 then win_native_to_attrs H (attr w) OR (attrs AND win_supported)
         else if opts AND opt_remove \<noteq> 0 then win_native_to_attrs H (attr w) AND NOT attrs
         else attrs AND win_supported)
    \<and> (attr w' AND FILE_ATTRIBUTE_READONLY H \<noteq> 0 \<longleftrightarrow>
        opts AND (opt_add OR opt_remove) \<noteq> 0 \<and> attr w AND FILE_ATTRIBUTE_READONLY H \<noteq> 0)"
proof -
  note b = windows_h_bits [OF assms(1)] and n = win_attrs_to_native_bits [OF assms(1), of attrs]
  let ?new = "win_attrs_to_native H attrs"
  define native where "native =
      (if opts AND (opt_add OR opt_remove) \<noteq> 0
       then (if opts AND opt_add \<noteq> 0 then attr w OR ?new else attr w AND NOT ?new) else ?new)"
  define written where "written = (if native = 0 then FILE_ATTRIBUTE_NORMAL H else native)"
  obtain w1 info where g: "GetBasicInfo W w fd = (w1, Some info)"
    using assms(2,4) by (auto simp: win_set_attributes_def win_set_error_def split: prod.splits option.splits)
  note ge = get_info_effect [OF assms(3) g]
  have "win_write_info W fd (info\<lparr>FileAttributes := written\<rparr>) no_error w1 = (w', no_error)"
    unfolding written_def native_def ge(3) [OF refl, symmetric]
    using assms(2,4) g by (simp add: win_set_attributes_def Let_def split del: if_split)
  from win_write_info_effect [OF assms(3) this] ge
  have stamps: "stamps w' = stamps w" and "attr w' = (if written = 0 then attr w else written)"
    by simp_all
  moreover have "written \<noteq> 0" using b(4) by (simp add: written_def)
  ultimately have attr: "attr w' = written" by simp
  have same: "written AND x = native AND x"
    if "FILE_ATTRIBUTE_NORMAL H AND x = 0" for x
    using that by (simp add: written_def)
  note bits = same [OF b(19)] same [OF b(20)] same [OF b(21)] same [OF b(22)]
  have opts: "opts AND (opt_add OR opt_remove) \<noteq> 0 \<longleftrightarrow> opts AND opt_add \<noteq> 0 \<or> opts AND opt_remove \<noteq> 0"
    using and_or_nonzero [of opt_add opt_remove opts] by (simp add: and.commute)
  show ?thesis
    using stamps b n win_attrs_to_native_and [OF assms(1), of attrs]
    unfolding attr opts win_native_to_attrs_of supported_attrs_of bits
    by (auto simp: native_def opts attrs_of_or attrs_of_and_not and_or_zero and_not_other and_not_removes)
qed

text \<open>A system with one file, whose state is the attributes of the file; reads are of zero bytes.\<close>

definition attr_api :: "u32 winapi" where
  "attr_api =
     \<lparr>GetLastError = (\<lambda>_. 87),
      CreateFileA = (\<lambda>w _ _ _ _ _. (w, - 1)), CreateFileW = (\<lambda>w _ _ _ _ _. (w, - 1)),
      CreateFile2 = (\<lambda>w _ _ _ _ _ _. (w, - 1)),
      MultiByteToWideChar =
        (\<lambda>w s n. (w, if n = 0 then length s else min n (length s), map ucast (take n s))),
      CloseHandle = (\<lambda>w _. (w, True)), DuplicateHandle = (\<lambda>w h. (w, Some h)),
      GetStdHandle = (\<lambda>w n. (w, int n)), GetFileSizeEx = (\<lambda>w _. (w, Some 0)),
      SetEndOfFileInfo = (\<lambda>w _ _. (w, True)), SetAllocationInfo = (\<lambda>w _ _. (w, True)),
      SetEndOfFile = (\<lambda>w _. (w, True)), SetFilePointerEx = (\<lambda>w _ n _. (w, Some n)),
      GetBasicInfo = (\<lambda>w _. (w, Some \<lparr>CreationTime = 1, LastAccessTime = 1, LastWriteTime = 1,
                                   ChangeTime = 1, FileAttributes = w\<rparr>)),
      SetBasicInfo = (\<lambda>w _ i. (if FileAttributes i \<noteq> 0 then FileAttributes i else w, True)),
      GetFileTime = (\<lambda>w _. (w, None)), SetFileTime = (\<lambda>w _ _. (w, False)),
      ReadFile = (\<lambda>w _ n _. (w, Some (replicate (unat n) 0))),
      WriteFile = (\<lambda>w _ d _. (w, Some (of_nat (length d))))\<rparr>"

lemma attr_api_ok: "info_file attr_api fd (\<lambda>w. w) (\<lambda>_. ())"
  by (auto simp: info_file_def attr_api_def)

theorem win_set_attributes_effect_witness:
  "win_native_to_attrs win10 (fst (win_set_attributes win10 attr_api 3 attr_hidden opt_add no_error 4)) =
     attr_system OR attr_hidden"
proof -
  have "vista win10" by (simp add: win10_def)
  moreover have "win_set_attributes win10 attr_api 3 attr_hidden opt_add no_error 4 = (6, no_error)"
    by (simp add: win_set_attributes_def win_write_info_def attr_api_def win10_def Let_def
        win_attrs_to_native_def attr_hidden_def attr_system_def attr_not_indexed_def opt_add_def
        opt_remove_def)
  moreover have "win_native_to_attrs win10 4 OR attr_hidden AND win_supported = attr_system OR attr_hidden"
    and "opt_add AND opt_add \<noteq> 0"
    by (simp_all add: win_native_to_attrs_def win10_def Let_def win_supported_def attr_defs opt_add_def)
  ultimately show ?thesis
    using win_set_attributes_effect [OF win10_ok _ attr_api_ok, of 3 attr_hidden opt_add 4 6] by simp
qed

text \<open>
  Setting permissions leaves the times and the other attributes alone and makes the file
  read-only or writable as asked, with one exception: a file with no attribute but read-only stays
  read-only although the call succeeds, for the value 0 that is written then means no change.
\<close>

theorem win_set_permissions_effect:
  assumes "windows_h_ok H" and "vista H" and "info_file W fd attr stamps"
    and "win_set_permissions H W fd perms opts no_error w = (w', no_error)"
  shows "stamps w' = stamps w
    \<and> win_native_to_attrs H (attr w') = win_native_to_attrs H (attr w)
    \<and> (attr w' AND FILE_ATTRIBUTE_READONLY H \<noteq> 0 \<longleftrightarrow>
        (if opts AND (opt_add OR opt_remove) \<noteq> 0 \<and> perms AND write_perms = 0
         then attr w AND FILE_ATTRIBUTE_READONLY H \<noteq> 0
         else if opts AND opt_add = 0 \<and> (opts AND opt_remove \<noteq> 0 \<or> perms AND write_perms = 0) then True
         else attr w \<noteq> 0 \<and> attr w AND NOT (FILE_ATTRIBUTE_READONLY H) = 0))"
proof (cases "opts AND (opt_add OR opt_remove) \<noteq> 0 \<and> perms AND write_perms = 0")
  case True
  then have "w' = w" using assms(2,4) by (simp add: win_set_permissions_def)
  then show ?thesis using True by simp
next
  case False
  note b = windows_h_bits [OF assms(1)]
  let ?R = "FILE_ATTRIBUTE_READONLY H"
  define lock where "lock \<longleftrightarrow> opts AND opt_add = 0 \<and> (opts AND opt_remove \<noteq> 0 \<or> perms AND write_perms = 0)"
  define native where "native = (if lock then attr w OR ?R else attr w AND NOT ?R)"
  obtain w1 info where g: "GetBasicInfo W w fd = (w1, Some info)"
    using assms(2,4) False
    by (auto simp: win_set_permissions_def win_set_error_def split: prod.splits option.splits if_splits)
  note ge = get_info_effect [OF assms(3) g]
  have "win_write_info W fd (info\<lparr>FileAttributes := native\<rparr>) no_error w1 = (w', no_error)"
    unfolding native_def lock_def ge(3) [OF refl, symmetric]
    using assms(2,4) g False by (auto simp: win_set_permissions_def Let_def split: if_splits)
  from win_write_info_effect [OF assms(3) this] ge
  have stamps: "stamps w' = stamps w" and attr: "attr w' = (if native = 0 then attr w else native)"
    by simp_all
  have none: "lock \<Longrightarrow> native \<noteq> 0" using b(1) by (simp add: native_def or_eq_0_iff)
  have sub: "attr w AND NOT ?R = 0 \<Longrightarrow> attr w AND ?R = attr w"
    by (metis and.right_neutral bit.conj_disj_distrib bit.disj_cancel_right or.right_neutral)
  have zero: "attr w AND x = 0" if "attr w AND NOT ?R = 0" and "?R AND x = 0" for x
  proof -
    have "attr w AND x = (attr w AND ?R) AND x" using sub [OF that(1)] by simp
    also have "\<dots> = attr w AND (?R AND x)" by (rule and.assoc)
    finally show ?thesis using that(2) by simp
  qed
  have keep: "attr w' AND x = attr w AND x" if "?R AND x = 0" for x
    using that zero [OF _ that] none
    by (auto simp: attr native_def and_not_other bit.conj_disj_distrib2)
  have "win_native_to_attrs H (attr w') = win_native_to_attrs H (attr w)"
    unfolding win_native_to_attrs_of keep [OF b(6)] keep [OF b(7)] keep [OF b(9)] ..
  moreover have "attr w' AND ?R \<noteq> 0 \<longleftrightarrow> (if lock then True else attr w \<noteq> 0 \<and> attr w AND NOT ?R = 0)"
    using none b(1) sub by (auto simp: attr native_def and_or_zero and_not_self)
  ultimately show ?thesis
    unfolding if_not_P [OF False] lock_def using stamps by blast
qed

theorem win_set_permissions_effect_witness:
  "win_set_permissions win10 attr_api 3 perms_all opt_replace no_error 1 = (1, no_error)
    \<and> (1::u32) AND FILE_ATTRIBUTE_READONLY win10 \<noteq> 0
    \<and> fst (win_set_permissions win10 attr_api 3 perms_all opt_replace no_error 33)
        AND FILE_ATTRIBUTE_READONLY win10 = 0"
proof -
  have v: "vista win10" by (simp add: win10_def)
  have a: "win_set_permissions win10 attr_api 3 perms_all opt_replace no_error 1 = (1, no_error)"
    and b: "win_set_permissions win10 attr_api 3 perms_all opt_replace no_error 33 = (32, no_error)"
    by (simp_all add: win_set_permissions_def win_write_info_def attr_api_def win10_def Let_def
        opt_replace_def opt_add_def opt_remove_def perms_all_def write_perms_def owner_write_def
        group_write_def others_write_def)
  have "opt_replace AND (opt_add OR opt_remove) = 0" "opt_replace AND opt_remove = 0"
    "perms_all AND write_perms \<noteq> 0"
    by (simp_all add: opt_replace_def opt_add_def opt_remove_def perms_all_def write_perms_def
        owner_write_def group_write_def others_write_def)
  then show ?thesis
    using a b win_set_permissions_effect [OF win10_ok v attr_api_ok a]
      win_set_permissions_effect [OF win10_ok v attr_api_ok b]
    by (simp add: win10_def)
qed

section \<open>Sizes\<close>

text \<open>What the system promises of a read: no more bytes than were asked for.\<close>

definition read_api :: "'w winapi \<Rightarrow> bool" where
  "read_api W \<longleftrightarrow>
     (\<forall>w fd n ov w' data. ReadFile W w fd n ov = (w', Some data) \<longrightarrow> length data \<le> unat n)"

text \<open>
  C39. A read with a buffer of \<open>n\<close> bytes never gives more than \<open>n mod 2^32\<close> bytes, for the size is
  cut to 32 bits: with a buffer of 4 GiB, or a multiple of it, a read that succeeds gives nothing and
  does not report the end of the file.
\<close>

theorem win_read_size_cut:
  assumes "read_api W" and "fhw_read_some W h bufs no_error w = (w', ec, data)"
    and "fhw_read_some_at W h offset bufs no_error w = (w2, ec2, data2)"
  shows "length data \<le> first_mutable_buffer bufs mod 2 ^ 32
    \<and> length data2 \<le> first_mutable_buffer bufs mod 2 ^ 32
    \<and> (2 ^ 32 dvd first_mutable_buffer bufs \<longrightarrow> data = [] \<and> data2 = [] \<and> ec \<noteq> ec_asio eof \<and> ec2 \<noteq> ec_asio eof)"
proof -
  have cut: "unat (size32 n) = n mod 2 ^ 32" for n
    by (simp add: size32_def unat_of_nat)
  have none: "2 ^ 32 dvd n \<Longrightarrow> size32 n = 0" for n
    using cut [of n] by (simp add: dvd_imp_mod_0 unat_eq_zero)
  have result: "length data \<le> unat k \<and> (k = 0 \<longrightarrow> data = [] \<and> ec \<noteq> ec_asio eof)"
    if r: "win_read_result W k no_error (ReadFile W w fd k ov) = (w', ec, data)"
    for k ov w fd w' ec data
  proof -
    obtain w1 q where c: "ReadFile W w fd k ov = (w1, q)" by fastforce
    then have "q = Some d \<Longrightarrow> length d \<le> unat k" for d
      using assms(1) unfolding read_api_def by blast
    then show ?thesis
      using r c by (auto simp: win_read_result_def win_set_error_def split: option.splits if_splits)
  qed
  note r1 = result [OF assms(2) [unfolded fhw_read_some_def win_read_def]]
    and r2 = result [OF assms(3) [unfolded fhw_read_some_at_def win_pread_def]]
  show ?thesis using r1 r2 cut none by auto
qed

theorem win_read_size_cut_witness:
  "fhw_read_some attr_api (fh_new 3) [0, 2 ^ 32] no_error 5 = (5, no_error, [])
    \<and> fhw_read_some_at attr_api (fh_new 3) 9 [0, 2 ^ 32] no_error 5 = (5, no_error, [])"
proof -
  have ok: "read_api attr_api" by (simp add: read_api_def attr_api_def)
  have reads: "win_read_result attr_api k no_error (ReadFile attr_api 5 3 k ov) =
      (5, if k = 0 then no_error else no_error, replicate (unat k) 0)" for k ov
    by (simp add: win_read_result_def attr_api_def unat_eq_zero)
  then obtain d where a: "fhw_read_some attr_api (fh_new 3) [0, 2 ^ 32] no_error 5 = (5, no_error, d)"
    by (simp add: fhw_read_some_def win_read_def fh_new_def)
  moreover obtain d2 where b: "fhw_read_some_at attr_api (fh_new 3) 9 [0, 2 ^ 32] no_error 5 = (5, no_error, d2)"
    using reads by (simp add: fhw_read_some_at_def win_pread_def fh_new_def)
  ultimately show ?thesis
    using win_read_size_cut [OF ok a b] by simp
qed

section \<open>The memory of a path\<close>

text \<open>
  What the system promises of the conversion: with room for \<open>n\<close> units it writes at most \<open>n\<close> and
  returns how many, 0 if they do not fit; with no room it writes nothing and returns how many it
  takes.
\<close>

definition wide_api :: "'w winapi \<Rightarrow> bool" where
  "wide_api W \<longleftrightarrow>
     (\<forall>w s n w' k us. MultiByteToWideChar W w s n = (w', k, us) \<longrightarrow>
        (n \<noteq> 0 \<longrightarrow> length us \<le> n \<and> k \<le> n) \<and> (n = 0 \<longrightarrow> us = []))
     \<and> (\<forall>w s w' us w2 k2 us2. MultiByteToWideChar W w s 0 = (w', 0, us) \<longrightarrow>
          MultiByteToWideChar W w' s 0 = (w2, k2, us2) \<longrightarrow> k2 = 0)"

text \<open>
  The constructor of a path writes only inside its own buffer or the memory it has allocated,
  whatever the length of the name and the outcome of the conversion.
\<close>

theorem win_path_in_bounds:
  assumes "wide_api W"
  shows "snd (snd (win_path_new W alloc s w)) \<noteq> None"
proof -
  have fits: "MultiByteToWideChar W w s n = (w', k, us) \<Longrightarrow>
      (n \<noteq> 0 \<longrightarrow> length us \<le> n \<and> k \<le> n) \<and> (n = 0 \<longrightarrow> us = [])" for w n w' k us
    using assms unfolding wide_api_def by blast
  have zero: "MultiByteToWideChar W w s 0 = (w', 0, us) \<Longrightarrow>
      MultiByteToWideChar W w' s 0 = (w2, k2, us2) \<Longrightarrow> k2 = 0" for w w' us w2 k2 us2
    using assms unfolding wide_api_def by blast
  show ?thesis
  proof (cases "kMaxPath \<le> length s")
    case False
    then show ?thesis
      using fits [of w kMaxPath]
      by (fastforce simp: win_path_new_def write_path_def kMaxPath_def Let_def split: prod.split)
  next
    case True
    obtain w1 n t where a: "MultiByteToWideChar W w s 0 = (w1, n, t)" by (metis prod_cases3)
    obtain w2 k t2 where b: "MultiByteToWideChar W w1 s n = (w2, k, t2)" by (metis prod_cases3)
    have "length t2 \<le> n \<and> k \<le> n"
      using fits [OF b] zero [of w w1 t w2 k t2] a b by (cases "n = 0") auto
    then show ?thesis
      using True a b by (simp add: win_path_new_def write_path_def Let_def)
  qed
qed

theorem win_path_in_bounds_witness:
  "snd (snd (win_path_new attr_api True (replicate 300 65) 0)) \<noteq> None"
proof -
  have "wide_api attr_api"
    by (auto simp: wide_api_def attr_api_def)
  then show ?thesis by (rule win_path_in_bounds)
qed

end
