(* ===== verification/UniqueHandler.thy ===== *)
theory UniqueHandler
  imports Prelude "HOL-Library.Monad_Syntax"
begin

text \<open>
  \<^verbatim>\<open>unique_handler\<close> (\<^verbatim>\<open>unique_handler.hpp\<close>, \<^verbatim>\<open>impl/unique_handler.cpp\<close>): a
  handler of any type in storage that comes from the allocator of the handler. The storages live in
  a small memory of their own; a result \<open>None\<close> is undefined behaviour, such as a second release of
  a storage, a release through another allocator or a use of a handler that was moved away.
  Allocation succeeds. The assignment of a handler object is not modelled, since the expression in
  it has no matching constructor (\<^verbatim>\<open>storage_impl\<close> takes an lvalue).
\<close>

section \<open>Storages\<close>

text \<open>
  What the memory of a storage holds: nothing yet, a handler, or a handler that has been moved out.
  A storage remembers the allocator it came from.
\<close>

datatype 'h storage =
    Raw
  | Holds 'h
  | Moved_out

text \<open>What can be observed of the storage \<open>i\<close>, in the order it happens.\<close>

datatype ('h, 'a) handler_event =
    Stored nat 'h
  | Released nat
  | Invoked nat 'h 'a
  | Dropped nat 'h
  | Bad_call nat

text \<open>
  The state: the storages, the objects (a \<^verbatim>\<open>storage_\<close> pointer each, as far as the object
  exists) and the events so far.
\<close>

record ('h, 'a) handlers =
  storages :: "nat \<Rightarrow> ('h storage \<times> nat) option"
  next_storage :: nat
  objects :: "nat \<Rightarrow> nat option option"
  events :: "('h, 'a) handler_event list"

definition no_handlers :: "('h, 'a) handlers" where
  "no_handlers = \<lparr>storages = \<lambda>_. None, next_storage = 0, objects = \<lambda>_. None, events = []\<rparr>"

definition emit :: "('h, 'a) handler_event \<Rightarrow> ('h, 'a) handlers \<Rightarrow> ('h, 'a) handlers" where
  "emit e w = w\<lparr>events := events w @ [e]\<rparr>"

text \<open>\<open>alloc\<close> gives the allocator that is associated with a handler.\<close>

definition allocate_operation ::
    "('h \<Rightarrow> nat) \<Rightarrow> 'h \<Rightarrow> ('h, 'a) handlers \<Rightarrow> nat \<times> ('h, 'a) handlers" where
  "allocate_operation alloc handler w =
     (next_storage w,
      w\<lparr>storages := (storages w)(next_storage w \<mapsto> (Raw, alloc handler)),
        next_storage := Suc (next_storage w)\<rparr>)"

definition deallocate_operation ::
    "('h \<Rightarrow> nat) \<Rightarrow> nat \<Rightarrow> 'h \<Rightarrow> ('h, 'a) handlers \<Rightarrow> ('h, 'a) handlers option" where
  "deallocate_operation alloc i handler w =
     (case storages w i of
        Some (Raw, a) \<Rightarrow>
          if a = alloc handler then Some (emit (Released i) (w\<lparr>storages := (storages w)(i := None)\<rparr>))
          else None
      | _ \<Rightarrow> None)"

text \<open>\<open>storage_impl_new\<close> is the constructor in the raw storage \<open>i\<close>.\<close>

definition storage_impl_new ::
    "nat \<Rightarrow> 'h \<Rightarrow> ('h, 'a) handlers \<Rightarrow> ('h, 'a) handlers option" where
  "storage_impl_new i handler w =
     (case storages w i of
        Some (Raw, a) \<Rightarrow> Some (emit (Stored i handler) (w\<lparr>storages := (storages w)(i \<mapsto> (Holds handler, a))\<rparr>))
      | _ \<Rightarrow> None)"

text \<open>Moving the handler out of the storage, and the destructor of \<^verbatim>\<open>storage_impl\<close>.\<close>

definition move_out :: "nat \<Rightarrow> ('h, 'a) handlers \<Rightarrow> ('h \<times> ('h, 'a) handlers) option" where
  "move_out i w =
     (case storages w i of
        Some (Holds h, a) \<Rightarrow> Some (h, w\<lparr>storages := (storages w)(i \<mapsto> (Moved_out, a))\<rparr>)
      | _ \<Rightarrow> None)"

definition storage_impl_destroy :: "nat \<Rightarrow> ('h, 'a) handlers \<Rightarrow> ('h, 'a) handlers option" where
  "storage_impl_destroy i w =
     (case storages w i of
        Some (Holds h, a) \<Rightarrow> Some (emit (Dropped i h) (w\<lparr>storages := (storages w)(i \<mapsto> (Raw, a))\<rparr>))
      | Some (Moved_out, a) \<Rightarrow> Some (w\<lparr>storages := (storages w)(i \<mapsto> (Raw, a))\<rparr>)
      | _ \<Rightarrow> None)"

definition do_abort :: "('h \<Rightarrow> nat) \<Rightarrow> nat \<Rightarrow> ('h, 'a) handlers \<Rightarrow> ('h, 'a) handlers option" where
  "do_abort alloc i w =
     do {
       (handler, w) \<leftarrow> move_out i w;
       w \<leftarrow> storage_impl_destroy i w;
       w \<leftarrow> deallocate_operation alloc i handler w;
       Some (emit (Dropped i handler) w)
     }"

text \<open>\<open>run\<close> is the code of the handler, which may use any object.\<close>

definition do_complete ::
    "('h \<Rightarrow> nat) \<Rightarrow> (('h, 'a) handlers \<Rightarrow> ('h, 'a) handlers option) \<Rightarrow> nat \<Rightarrow> 'a \<Rightarrow> ('h, 'a) handlers
      \<Rightarrow> ('h, 'a) handlers option" where
  "do_complete alloc run i args w =
     do {
       (handler, w) \<leftarrow> move_out i w;
       w \<leftarrow> storage_impl_destroy i w;
       w \<leftarrow> deallocate_operation alloc i handler w;
       run (emit (Invoked i handler args) w)
     }"

section \<open>The class\<close>

definition set_storage :: "nat \<Rightarrow> nat option \<Rightarrow> ('h, 'a) handlers \<Rightarrow> ('h, 'a) handlers" where
  "set_storage o1 s w = w\<lparr>objects := (objects w)(o1 \<mapsto> s)\<rparr>"

definition storage_of :: "('h, 'a) handlers \<Rightarrow> nat \<Rightarrow> nat option" where
  "storage_of w o1 = (case objects w o1 of Some s \<Rightarrow> s | None \<Rightarrow> None)"

definition uq_new :: "nat \<Rightarrow> ('h, 'a) handlers \<Rightarrow> ('h, 'a) handlers" where
  "uq_new o1 w = set_storage o1 None w"

definition uq_new_handler ::
    "('h \<Rightarrow> nat) \<Rightarrow> nat \<Rightarrow> 'h \<Rightarrow> ('h, 'a) handlers \<Rightarrow> ('h, 'a) handlers option" where
  "uq_new_handler alloc o1 handler w =
     (case allocate_operation alloc handler w of (i, w) \<Rightarrow>
        do { w \<leftarrow> storage_impl_new i handler w; Some (set_storage o1 (Some i) w) })"

definition abort_storage ::
    "('h \<Rightarrow> nat) \<Rightarrow> nat option \<Rightarrow> ('h, 'a) handlers \<Rightarrow> ('h, 'a) handlers option" where
  "abort_storage alloc s w = (case s of None \<Rightarrow> Some w | Some i \<Rightarrow> do_abort alloc i w)"

definition uq_destroy :: "('h \<Rightarrow> nat) \<Rightarrow> nat \<Rightarrow> ('h, 'a) handlers \<Rightarrow> ('h, 'a) handlers option" where
  "uq_destroy alloc o1 w =
     do {
       w \<leftarrow> abort_storage alloc (storage_of w o1) w;
       Some (w\<lparr>objects := (objects w)(o1 := None)\<rparr>)
     }"

definition uq_move_new :: "nat \<Rightarrow> nat \<Rightarrow> ('h, 'a) handlers \<Rightarrow> ('h, 'a) handlers" where
  "uq_move_new o1 other w =
     (let w = set_storage o1 (storage_of w other) w in set_storage other None w)"

definition uq_move_assign ::
    "('h \<Rightarrow> nat) \<Rightarrow> nat \<Rightarrow> nat \<Rightarrow> ('h, 'a) handlers \<Rightarrow> ('h, 'a) handlers option" where
  "uq_move_assign alloc o1 other w =
     do {
       w \<leftarrow> abort_storage alloc (storage_of w o1) w;
       (let w = set_storage o1 (storage_of w other) w in Some (set_storage other None w))
     }"

text \<open>\<open>throw_bad_function_call\<close> raises, which ends the call: the sum tells the caller.\<close>

definition throw_bad_function_call :: "cxx_exception" where
  "throw_bad_function_call = bad_function_call"

definition uq_complete ::
    "('h \<Rightarrow> nat) \<Rightarrow> (('h, 'a) handlers \<Rightarrow> ('h, 'a) handlers option) \<Rightarrow> nat \<Rightarrow> 'a \<Rightarrow> ('h, 'a) handlers
      \<Rightarrow> (cxx_exception + ('h, 'a) handlers) option" where
  "uq_complete alloc run o1 args w =
     (case storage_of w o1 of
        Some i \<Rightarrow>
          (let w = set_storage o1 None w in map_option Inr (do_complete alloc run i args w))
      | None \<Rightarrow> Some (Inl throw_bad_function_call))"

definition uq_reset :: "('h \<Rightarrow> nat) \<Rightarrow> nat \<Rightarrow> ('h, 'a) handlers \<Rightarrow> ('h, 'a) handlers option" where
  "uq_reset alloc o1 w =
     (case storage_of w o1 of
        Some i \<Rightarrow> (let w = set_storage o1 None w in do_abort alloc i w)
      | None \<Rightarrow> Some w)"

definition uq_bool :: "('h, 'a) handlers \<Rightarrow> nat \<Rightarrow> bool" where
  "uq_bool w o1 = (storage_of w o1 \<noteq> None)"

section \<open>Programs over the class\<close>

text \<open>
  Any code that uses objects of the class is a list of operations. The handler that a
  \<open>Complete\<close> invokes runs a list of operations itself, on any object, before the call returns. An
  operation on an object that does not exist, or a construction where one exists, is skipped.
\<close>

datatype ('h, 'a) uq_op =
    New nat
  | Store nat 'h
  | Move_new nat nat
  | Move_assign nat nat
  | Complete nat 'a "('h, 'a) uq_op list"
  | Reset nat
  | Destroy nat

fun uq_step :: "('h \<Rightarrow> nat) \<Rightarrow> ('h, 'a) uq_op \<Rightarrow> ('h, 'a) handlers \<Rightarrow> ('h, 'a) handlers option"
and uq_run :: "('h \<Rightarrow> nat) \<Rightarrow> ('h, 'a) uq_op list \<Rightarrow> ('h, 'a) handlers \<Rightarrow> ('h, 'a) handlers option" where
  "uq_step alloc (New o1) w = (if objects w o1 = None then Some (uq_new o1 w) else Some w)"
| "uq_step alloc (Store o1 h) w = (if objects w o1 = None then uq_new_handler alloc o1 h w else Some w)"
| "uq_step alloc (Move_new o1 o2) w =
     (if objects w o1 = None \<and> objects w o2 \<noteq> None then Some (uq_move_new o1 o2 w) else Some w)"
| "uq_step alloc (Move_assign o1 o2) w =
     (if objects w o1 \<noteq> None \<and> objects w o2 \<noteq> None then uq_move_assign alloc o1 o2 w else Some w)"
| "uq_step alloc (Complete o1 args body) w =
     (if objects w o1 \<noteq> None then
        (case uq_complete alloc (\<lambda>w. uq_run alloc body w) o1 args w of
           None \<Rightarrow> None
         | Some (Inl e) \<Rightarrow> Some (emit (Bad_call o1) w)
         | Some (Inr w) \<Rightarrow> Some w)
      else Some w)"
| "uq_step alloc (Reset o1) w = (if objects w o1 \<noteq> None then uq_reset alloc o1 w else Some w)"
| "uq_step alloc (Destroy o1) w = (if objects w o1 \<noteq> None then uq_destroy alloc o1 w else Some w)"
| "uq_run alloc [] w = Some w"
| "uq_run alloc (x # xs) w = (case uq_step alloc x w of None \<Rightarrow> None | Some w \<Rightarrow> uq_run alloc xs w)"

section \<open>Specification\<close>

text \<open>
  What the class promises: an object is a handler or empty, moving it empties the other one, and a
  handler leaves the program by being invoked or by being dropped.
\<close>

datatype ('h, 'a) outcome =
    Called 'h 'a
  | Lost 'h
  | Empty_call nat

record ('h, 'a) uq_values =
  vals :: "nat \<Rightarrow> 'h option option"
  outputs :: "('h, 'a) outcome list"

definition set_val :: "nat \<Rightarrow> 'h option \<Rightarrow> ('h, 'a) uq_values \<Rightarrow> ('h, 'a) uq_values" where
  "set_val o1 v s = s\<lparr>vals := (vals s)(o1 \<mapsto> v)\<rparr>"

definition put_out :: "('h, 'a) outcome \<Rightarrow> ('h, 'a) uq_values \<Rightarrow> ('h, 'a) uq_values" where
  "put_out x s = s\<lparr>outputs := outputs s @ [x]\<rparr>"

definition lose :: "nat \<Rightarrow> ('h, 'a) uq_values \<Rightarrow> ('h, 'a) uq_values" where
  "lose o1 s = (case vals s o1 of Some (Some h) \<Rightarrow> put_out (Lost h) (set_val o1 None s) | _ \<Rightarrow> s)"

definition move_val :: "nat \<Rightarrow> nat \<Rightarrow> ('h, 'a) uq_values \<Rightarrow> ('h, 'a) uq_values" where
  "move_val o1 o2 s = set_val o2 None (set_val o1 (case vals s o2 of Some v \<Rightarrow> v | None \<Rightarrow> None) s)"

fun val_step :: "('h, 'a) uq_op \<Rightarrow> ('h, 'a) uq_values \<Rightarrow> ('h, 'a) uq_values"
and val_run :: "('h, 'a) uq_op list \<Rightarrow> ('h, 'a) uq_values \<Rightarrow> ('h, 'a) uq_values" where
  "val_step (New o1) s = (if vals s o1 = None then set_val o1 None s else s)"
| "val_step (Store o1 h) s = (if vals s o1 = None then set_val o1 (Some h) s else s)"
| "val_step (Move_new o1 o2) s =
     (if vals s o1 = None \<and> vals s o2 \<noteq> None then move_val o1 o2 s else s)"
| "val_step (Move_assign o1 o2) s =
     (if vals s o1 \<noteq> None \<and> vals s o2 \<noteq> None then move_val o1 o2 (lose o1 s) else s)"
| "val_step (Complete o1 args body) s =
     (case vals s o1 of
        None \<Rightarrow> s
      | Some None \<Rightarrow> put_out (Empty_call o1) s
      | Some (Some h) \<Rightarrow> val_run body (put_out (Called h args) (set_val o1 None s)))"
| "val_step (Reset o1) s = lose o1 s"
| "val_step (Destroy o1) s =
     (if vals s o1 \<noteq> None then (lose o1 s)\<lparr>vals := (vals (lose o1 s))(o1 := None)\<rparr> else s)"
| "val_run [] s = s"
| "val_run (x # xs) s = val_run xs (val_step x s)"

definition no_values :: "('h, 'a) uq_values" where
  "no_values = \<lparr>vals = \<lambda>_. None, outputs = []\<rparr>"

text \<open>The abstraction.\<close>

definition held :: "('h, 'a) handlers \<Rightarrow> nat \<Rightarrow> 'h option" where
  "held w i = (case storages w i of Some (Holds h, a) \<Rightarrow> Some h | _ \<Rightarrow> None)"

fun output_of :: "('h, 'a) handler_event \<Rightarrow> ('h, 'a) outcome list" where
  "output_of (Invoked i h a) = [Called h a]"
| "output_of (Dropped i h) = [Lost h]"
| "output_of (Bad_call o1) = [Empty_call o1]"
| "output_of _ = []"

definition values_of :: "('h, 'a) handlers \<Rightarrow> ('h, 'a) uq_values" where
  "values_of w =
     \<lparr>vals = \<lambda>o1. map_option (\<lambda>s. Option.bind s (held w)) (objects w o1),
      outputs = concat (map output_of (events w))\<rparr>"

section \<open>The invariant\<close>

text \<open>What happened to the storage \<open>i\<close>, and the two histories of a storage that was released.\<close>

fun about :: "nat \<Rightarrow> ('h, 'a) handler_event \<Rightarrow> bool" where
  "about i (Stored j h) = (i = j)"
| "about i (Released j) = (i = j)"
| "about i (Invoked j h a) = (i = j)"
| "about i (Dropped j h) = (i = j)"
| "about i (Bad_call o1) = False"

definition history :: "nat \<Rightarrow> ('h, 'a) handlers \<Rightarrow> ('h, 'a) handler_event list" where
  "history i w = filter (about i) (events w)"

definition used_once :: "nat \<Rightarrow> ('h, 'a) handlers \<Rightarrow> bool" where
  "used_once i w \<longleftrightarrow>
     (\<exists>h. (\<exists>a. history i w = [Stored i h, Released i, Invoked i h a]) \<or>
          history i w = [Stored i h, Released i, Dropped i h])"

text \<open>
  Every object that holds something holds a storage of its own with a handler in it; every storage
  in use belongs to an object; the other storages have been used once or never.
\<close>

definition uq_ok :: "('h \<Rightarrow> nat) \<Rightarrow> ('h, 'a) handlers \<Rightarrow> bool" where
  "uq_ok alloc w \<longleftrightarrow>
     (\<forall>o1 i. objects w o1 = Some (Some i) \<longrightarrow>
        (\<exists>h. storages w i = Some (Holds h, alloc h) \<and> history i w = [Stored i h])) \<and>
     (\<forall>i. storages w i \<noteq> None \<longrightarrow> (\<exists>o1. objects w o1 = Some (Some i))) \<and>
     (\<forall>o1 o2 i. objects w o1 = Some (Some i) \<longrightarrow> objects w o2 = Some (Some i) \<longrightarrow> o1 = o2) \<and>
     (\<forall>i. storages w i = None \<longrightarrow> i < next_storage w \<longrightarrow> used_once i w) \<and>
     (\<forall>i \<ge> next_storage w. storages w i = None \<and> history i w = [])"

lemma uq_okD:
  assumes "uq_ok alloc w" and "objects w o1 = Some (Some i)"
  shows "\<exists>h. storages w i = Some (Holds h, alloc h) \<and> history i w = [Stored i h]"
    and "objects w o2 = Some (Some i) \<Longrightarrow> o2 = o1"
proof -
  show "\<exists>h. storages w i = Some (Holds h, alloc h) \<and> history i w = [Stored i h]"
    using assms unfolding uq_ok_def by blast
  show "objects w o2 = Some (Some i) \<Longrightarrow> o2 = o1"
    using assms unfolding uq_ok_def by blast
qed

lemma history_append:
  "history i (w\<lparr>events := events w @ es\<rparr>) = history i w @ filter (about i) es"
  by (simp add: history_def)

lemma history_cong: "events w' = events w \<Longrightarrow> history i w' = history i w"
  by (simp add: history_def)

section \<open>The steps\<close>

text \<open>\<open>retire\<close> is the state after a storage was emptied, destroyed and released.\<close>

definition retire ::
    "nat \<Rightarrow> nat \<Rightarrow> ('h, 'a) handler_event \<Rightarrow> ('h, 'a) handlers \<Rightarrow> ('h, 'a) handlers" where
  "retire o1 i e w =
     w\<lparr>storages := (storages w)(i := None), objects := (objects w)(o1 \<mapsto> None),
       events := events w @ [Released i, e]\<rparr>"

lemma do_abort_value:
  assumes "storages w i = Some (Holds h, alloc h)"
  shows "do_abort alloc i w =
    Some (w\<lparr>storages := (storages w)(i := None), events := events w @ [Released i, Dropped i h]\<rparr>)"
  using assms
  by (simp add: do_abort_def move_out_def storage_impl_destroy_def deallocate_operation_def emit_def)

lemma do_complete_value:
  assumes "storages w i = Some (Holds h, alloc h)"
  shows "do_complete alloc run i args w =
    run (w\<lparr>storages := (storages w)(i := None), events := events w @ [Released i, Invoked i h args]\<rparr>)"
  using assms
  by (simp add: do_complete_def move_out_def storage_impl_destroy_def deallocate_operation_def emit_def)

lemma retire_set:
  "(set_storage o1 None w)\<lparr>storages := (storages w)(i := None), events := events w @ [Released i, e]\<rparr> =
     retire o1 i e w"
  "storages (set_storage o1 None w) = storages w" "events (set_storage o1 None w) = events w"
  by (simp_all add: retire_def set_storage_def)

lemma uq_ok_retire:
  assumes ok: "uq_ok alloc w" and ob: "objects w o1 = Some (Some i)" and st: "storages w i = Some (Holds h, alloc h)"
    and e: "e = Dropped i h \<or> e = Invoked i h a"
  shows "uq_ok alloc (retire o1 i e w)"
proof -
  have hi: "history i w = [Stored i h]" using uq_okD(1) [OF ok ob] st by auto
  have other: "history j (retire o1 i e w) = history j w" if "j \<noteq> i" for j
    using that e by (auto simp: history_def retire_def)
  have used: "used_once i (retire o1 i e w)"
    using hi e by (auto simp: used_once_def history_def retire_def)
  have ne: "j \<noteq> i" if "objects w o2 = Some (Some j)" and "o2 \<noteq> o1" for o2 j
    using that uq_okD(2) [OF ok ob] by auto
  show ?thesis
    unfolding uq_ok_def
  proof (intro conjI allI impI)
    fix o2 j assume a: "objects (retire o1 i e w) o2 = Some (Some j)"
    then have o2: "objects w o2 = Some (Some j)" "o2 \<noteq> o1" by (auto simp: retire_def split: if_splits)
    show "\<exists>h. storages (retire o1 i e w) j = Some (Holds h, alloc h) \<and> history j (retire o1 i e w) = [Stored j h]"
      using uq_okD(1) [OF ok o2(1)] ne [OF o2] other by (auto simp: retire_def)
  next
    fix j assume "storages (retire o1 i e w) j \<noteq> None"
    then have j: "storages w j \<noteq> None" "j \<noteq> i" by (auto simp: retire_def split: if_splits)
    then obtain o2 where "objects w o2 = Some (Some j)" using ok unfolding uq_ok_def by blast
    then show "\<exists>o2. objects (retire o1 i e w) o2 = Some (Some j)"
      using j ob by (intro exI [of _ o2]) (auto simp: retire_def)
  next
    fix o2 o3 j
    assume "objects (retire o1 i e w) o2 = Some (Some j)" "objects (retire o1 i e w) o3 = Some (Some j)"
    then have "objects w o2 = Some (Some j)" "objects w o3 = Some (Some j)"
      by (auto simp: retire_def split: if_splits)
    then show "o2 = o3" by (metis uq_okD(2) [OF ok])
  next
    fix j assume a: "storages (retire o1 i e w) j = None" "j < next_storage (retire o1 i e w)"
    show "used_once j (retire o1 i e w)"
    proof (cases "j = i")
      case False
      then have "used_once j w" using a ok by (auto simp: uq_ok_def retire_def)
      then show ?thesis using other [OF False] by (simp add: used_once_def)
    qed (use used in simp)
  next
    fix j assume a: "next_storage (retire o1 i e w) \<le> j"
    then have "j \<noteq> i" using ok st by (auto simp: uq_ok_def retire_def)
    then show "storages (retire o1 i e w) j = None" "history j (retire o1 i e w) = []"
      using a ok other by (auto simp: uq_ok_def retire_def)
  qed
qed

lemma held_other [simp]:
  "held (w\<lparr>objects := x\<rparr>) = held w"
  "held (w\<lparr>events := y\<rparr>) = held w"
  by (simp_all add: held_def fun_eq_iff)

text \<open>The retired storage in the abstract state: the object is empty and one output is made.\<close>

lemma held_Some: "storages w i = Some (Holds h, a) \<Longrightarrow> held w i = Some h"
  by (simp add: held_def)

lemma values_of_objects: "vals (values_of w) o1 = map_option (\<lambda>s. Option.bind s (held w)) (objects w o1)"
  by (simp add: values_of_def)

lemma values_of_retire:
  assumes ok: "uq_ok alloc w" and ob: "objects w o1 = Some (Some i)"
  shows "values_of (retire o1 i e w) =
    set_val o1 None (values_of w)\<lparr>outputs := outputs (values_of w) @ output_of e\<rparr>"
proof -
  have "map_option (\<lambda>s. Option.bind s (held (retire o1 i e w))) (objects (retire o1 i e w) o2) =
      ((\<lambda>o2. map_option (\<lambda>s. Option.bind s (held w)) (objects w o2))(o1 \<mapsto> None)) o2" for o2
  proof (cases "o2 = o1")
    case False
    have "held (retire o1 i e w) j = held w j" if "objects w o2 = Some (Some j)" for j
      using that False uq_okD(2) [OF ok ob] by (auto simp: held_def retire_def)
    then show ?thesis using False by (cases "objects w o2") (auto simp: retire_def split: bind_split)
  qed (simp add: retire_def)
  then show ?thesis by (simp add: values_of_def set_val_def retire_def fun_eq_iff)
qed

text \<open>An object that holds nothing can be created, or go away, freely.\<close>

definition no_handler :: "('h, 'a) handlers \<Rightarrow> nat \<Rightarrow> bool" where
  "no_handler w o1 \<longleftrightarrow> (objects w o1 = None \<or> objects w o1 = Some None)"

lemma uq_ok_empty_object:
  assumes ok: "uq_ok alloc w" and "no_handler w o1" and v: "\<And>i. v \<noteq> Some (Some i)"
  shows "uq_ok alloc (w\<lparr>objects := (objects w)(o1 := v)\<rparr>)"
proof -
  let ?w = "w\<lparr>objects := (objects w)(o1 := v)\<rparr>"
  have ob: "objects ?w o2 = Some (Some i) \<longleftrightarrow> objects w o2 = Some (Some i)" for o2 i
    using assms(2) v by (auto simp: no_handler_def)
  show ?thesis using ok unfolding uq_ok_def ob by (simp add: history_def used_once_def)
qed

lemma uq_ok_move:
  assumes ok: "uq_ok alloc w" and "no_handler w o1" and "objects w o2 = Some s" and "o1 \<noteq> o2"
  shows "uq_ok alloc (w\<lparr>objects := (objects w)(o1 \<mapsto> s, o2 \<mapsto> None)\<rparr>)"
proof -
  let ?w = "w\<lparr>objects := (objects w)(o1 \<mapsto> s, o2 \<mapsto> None)\<rparr>"
  have src: "\<exists>p. objects w p = Some (Some i) \<and> (q = o1 \<and> p = o2 \<or> q \<noteq> o1 \<and> q \<noteq> o2 \<and> p = q)"
    if "objects ?w q = Some (Some i)" for q i
    using that assms(3) by (auto split: if_splits)
  have dst: "\<exists>q. objects ?w q = Some (Some i)" if "objects w p = Some (Some i)" for p i
    using that assms(2-4) by (cases "p = o2"; intro exI [of _ "if p = o2 then o1 else p"]) (auto simp: no_handler_def)
  show ?thesis
    unfolding uq_ok_def
  proof (intro conjI allI impI)
    fix q i assume "objects ?w q = Some (Some i)"
    then obtain p where "objects w p = Some (Some i)" using src by blast
    then show "\<exists>h. storages ?w i = Some (Holds h, alloc h) \<and> history i ?w = [Stored i h]"
      using uq_okD(1) [OF ok] by (simp add: history_def)
  next
    fix i assume "storages ?w i \<noteq> None"
    then have "\<exists>p. objects w p = Some (Some i)" using ok by (simp add: uq_ok_def)
    then show "\<exists>q. objects ?w q = Some (Some i)" using dst by blast
  next
    fix q r i assume "objects ?w q = Some (Some i)" "objects ?w r = Some (Some i)"
    then show "q = r" using src [of q i] src [of r i] uq_okD(2) [OF ok] by metis
  next
    fix i assume "storages ?w i = None" "i < next_storage ?w"
    then have "used_once i w" using ok by (simp add: uq_ok_def)
    then show "used_once i ?w" by (simp add: used_once_def history_def)
  next
    fix i assume "next_storage ?w \<le> i"
    then show "storages ?w i = None" "history i ?w = []" using ok by (simp_all add: uq_ok_def history_def)
  qed
qed

lemma values_of_move:
  "objects w o2 = Some s \<Longrightarrow>
     values_of (w\<lparr>objects := (objects w)(o1 \<mapsto> s, o2 \<mapsto> None)\<rparr>) = move_val o1 o2 (values_of w)"
  by (auto simp: values_of_def move_val_def set_val_def held_def fun_eq_iff)

lemma uq_ok_emit: "uq_ok alloc w \<Longrightarrow> uq_ok alloc (emit (Bad_call o1) w)"
  by (simp add: uq_ok_def emit_def history_def used_once_def)

lemma values_of_emit: "values_of (emit (Bad_call o1) w) = put_out (Empty_call o1) (values_of w)"
  by (simp add: values_of_def put_out_def emit_def held_def)

text \<open>Storing a handler.\<close>

lemma uq_new_handler_value:
  "uq_new_handler alloc o1 h w =
    Some (w\<lparr>storages := (storages w)(next_storage w \<mapsto> (Holds h, alloc h)),
            next_storage := Suc (next_storage w), objects := (objects w)(o1 \<mapsto> Some (next_storage w)),
            events := events w @ [Stored (next_storage w) h]\<rparr>)"
  by (simp add: uq_new_handler_def allocate_operation_def storage_impl_new_def emit_def set_storage_def)

lemma uq_new_handler_ok:
  assumes ok: "uq_ok alloc w" and "objects w o1 = None"
  shows "\<exists>w'. uq_new_handler alloc o1 h w = Some w' \<and> uq_ok alloc w' \<and>
    values_of w' = set_val o1 (Some h) (values_of w)"
proof -
  let ?n = "next_storage w"
  let ?w = "w\<lparr>storages := (storages w)(?n \<mapsto> (Holds h, alloc h)), next_storage := Suc ?n,
    objects := (objects w)(o1 \<mapsto> Some ?n), events := events w @ [Stored ?n h]\<rparr>"
  have free: "storages w ?n = None" "history ?n w = []" using ok by (simp_all add: uq_ok_def)
  have fresh: "objects w o2 \<noteq> Some (Some ?n)" for o2 using uq_okD(1) [OF ok] free by fastforce
  have hist: "history i ?w = history i w @ (if i = ?n then [Stored ?n h] else [])" for i
    by (simp add: history_def)
  have "uq_ok alloc ?w"
    unfolding uq_ok_def
  proof (intro conjI allI impI)
    fix o2 i assume "objects ?w o2 = Some (Some i)"
    then show "\<exists>h. storages ?w i = Some (Holds h, alloc h) \<and> history i ?w = [Stored i h]"
      using uq_okD(1) [OF ok] fresh free(2) unfolding hist by (auto split: if_splits)
  next
    fix i assume "storages ?w i \<noteq> None"
    then show "\<exists>o2. objects ?w o2 = Some (Some i)"
    proof (cases "i = ?n")
      case False
      then have "storages w i \<noteq> None" using \<open>storages ?w i \<noteq> None\<close> by simp
      then obtain o2 where "objects w o2 = Some (Some i)" using ok unfolding uq_ok_def by blast
      then show ?thesis using assms(2) by (intro exI [of _ o2]) auto
    qed auto
  next
    fix q r i assume "objects ?w q = Some (Some i)" "objects ?w r = Some (Some i)"
    then show "q = r" using fresh uq_okD(2) [OF ok] by (auto split: if_splits)
  next
    fix i assume a: "storages ?w i = None" "i < next_storage ?w"
    then have "i \<noteq> ?n" by auto
    moreover from this have "used_once i w" using a ok by (auto simp: uq_ok_def)
    ultimately show "used_once i ?w" by (simp add: used_once_def hist)
  next
    fix i assume "next_storage ?w \<le> i"
    then show "storages ?w i = None" "history i ?w = []" using ok unfolding hist by (auto simp: uq_ok_def)
  qed
  moreover have "vals (values_of ?w) o2 = vals (set_val o1 (Some h) (values_of w)) o2" for o2
    using fresh [of o2]
    by (cases "objects w o2") (auto simp: values_of_def set_val_def held_def split: bind_split)
  then have "values_of ?w = set_val o1 (Some h) (values_of w)"
    by (simp add: fun_eq_iff values_of_def set_val_def)
  ultimately show ?thesis by (auto simp: uq_new_handler_value)
qed

text \<open>
  The contract of a step: it is defined, keeps the invariant, and changes the abstract state as the
  specification says.
\<close>

definition follows ::
    "('h \<Rightarrow> nat) \<Rightarrow> ('h, 'a) handlers option \<Rightarrow> ('h, 'a) uq_values \<Rightarrow> bool" where
  "follows alloc r s \<longleftrightarrow> (\<exists>w'. r = Some w' \<and> uq_ok alloc w' \<and> values_of w' = s)"

lemma followsI: "uq_ok alloc w' \<Longrightarrow> values_of w' = s \<Longrightarrow> follows alloc (Some w') s"
  by (simp add: follows_def)

lemma lose_empty: "no_handler w o1 \<Longrightarrow> lose o1 (values_of w) = values_of w"
  by (auto simp: no_handler_def lose_def values_of_objects)

lemma lose_held:
  assumes "uq_ok alloc w" and "objects w o1 = Some (Some i)" and "storages w i = Some (Holds h, alloc h)"
  shows "values_of (retire o1 i (Dropped i h) w) = lose o1 (values_of w)"
  using assms by (simp add: values_of_retire lose_def values_of_objects held_Some put_out_def set_val_def)

text \<open>Every object is empty, or holds a storage as the invariant describes it.\<close>

lemma object_cases:
  assumes "uq_ok alloc w"
  obtains (empty) "no_handler w p" "storage_of w p = None"
  | (holds) i h where "objects w p = Some (Some i)" "storages w i = Some (Holds h, alloc h)"
      "storage_of w p = Some i"
proof (cases "no_handler w p")
  case True
  then show ?thesis using that(1) by (auto simp: no_handler_def storage_of_def)
next
  case False
  then obtain i where i: "objects w p = Some (Some i)" by (auto simp: no_handler_def)
  obtain h where "storages w i = Some (Holds h, alloc h)" using uq_okD(1) [OF assms i] by blast
  then show ?thesis using that(2) i by (simp add: storage_of_def)
qed

lemma uq_reset_follows:
  assumes "uq_ok alloc w"
  shows "follows alloc (uq_reset alloc o1 w) (lose o1 (values_of w))"
  using assms
proof (cases rule: object_cases [where p = o1])
  case empty
  then show ?thesis using assms by (simp add: uq_reset_def followsI lose_empty)
next
  case (holds i h)
  have "uq_reset alloc o1 w = Some (retire o1 i (Dropped i h) w)"
    using holds by (simp add: uq_reset_def set_storage_def do_abort_value retire_def)
  then show ?thesis
    using uq_ok_retire [OF assms holds(1,2)] lose_held [OF assms holds(1,2)] by (auto intro: followsI)
qed

lemma uq_destroy_follows:
  assumes "uq_ok alloc w"
  shows "follows alloc (uq_destroy alloc o1 w)
    ((lose o1 (values_of w))\<lparr>vals := (vals (lose o1 (values_of w)))(o1 := None)\<rparr>)"
  using assms
proof (cases rule: object_cases [where p = o1])
  case empty
  show ?thesis
    using uq_ok_empty_object [OF assms empty(1), of None] empty
    unfolding lose_empty [OF empty(1)]
    by (auto simp: uq_destroy_def abort_storage_def empty(2) values_of_def fun_eq_iff intro!: followsI)
next
  case (holds i h)
  let ?w = "retire o1 i (Dropped i h) w"
  have r: "uq_destroy alloc o1 w = Some (?w\<lparr>objects := (objects ?w)(o1 := None)\<rparr>)"
    using holds by (simp add: uq_destroy_def abort_storage_def do_abort_value retire_def)
  have ok: "uq_ok alloc ?w" by (rule uq_ok_retire [OF assms holds(1,2)]) simp
  have "no_handler ?w o1" by (simp add: no_handler_def retire_def)
  then have "uq_ok alloc (?w\<lparr>objects := (objects ?w)(o1 := None)\<rparr>)" by (rule uq_ok_empty_object [OF ok]) simp
  moreover have "values_of (?w\<lparr>objects := (objects ?w)(o1 := None)\<rparr>) =
      (values_of ?w)\<lparr>vals := (vals (values_of ?w))(o1 := None)\<rparr>"
    by (simp add: values_of_def fun_eq_iff)
  ultimately show ?thesis unfolding r by (auto intro!: followsI simp: lose_held [OF assms holds(1,2)])
qed

lemma uq_move_assign_follows:
  assumes ok: "uq_ok alloc w" and o1: "objects w o1 \<noteq> None" and o2: "objects w o2 \<noteq> None"
  shows "follows alloc (uq_move_assign alloc o1 o2 w) (move_val o1 o2 (lose o1 (values_of w)))"
proof -
  obtain w1 where w1: "abort_storage alloc (storage_of w o1) w = Some w1"
    "uq_ok alloc (w1\<lparr>objects := (objects w)(o1 \<mapsto> None)\<rparr>)"
    "values_of (w1\<lparr>objects := (objects w)(o1 \<mapsto> None)\<rparr>) = lose o1 (values_of w)" "objects w1 = objects w"
    using ok
  proof (cases rule: object_cases [where p = o1])
    case empty
    then have "objects w o1 = Some None" using o1 by (simp add: no_handler_def)
    then have "w\<lparr>objects := (objects w)(o1 \<mapsto> None)\<rparr> = w" by (simp add: map_upd_triv)
    then show ?thesis using that [of w] empty ok by (simp add: abort_storage_def lose_empty)
  next
    case (holds i h)
    let ?w = "w\<lparr>storages := (storages w)(i := None), events := events w @ [Released i, Dropped i h]\<rparr>"
    have e: "?w\<lparr>objects := (objects w)(o1 \<mapsto> None)\<rparr> = retire o1 i (Dropped i h) w" by (simp add: retire_def)
    show ?thesis
      using that [of ?w] holds uq_ok_retire [OF ok holds(1,2), of "Dropped i h"] lose_held [OF ok holds(1,2)]
      unfolding e by (simp add: abort_storage_def do_abort_value)
  qed
  let ?v = "w1\<lparr>objects := (objects w)(o1 \<mapsto> None)\<rparr>"
  obtain s where s: "objects w o2 = Some s" using o2 by auto
  have r: "uq_move_assign alloc o1 o2 w = Some (w1\<lparr>objects := (objects w)(o1 \<mapsto> s, o2 \<mapsto> None)\<rparr>)"
    using w1(1,4) s by (simp add: uq_move_assign_def storage_of_def set_storage_def)
  show ?thesis
  proof (cases "o1 = o2")
    case True
    have "move_val o1 o2 (values_of ?v) = values_of ?v"
      using True by (auto simp: move_val_def set_val_def values_of_def fun_eq_iff)
    then show ?thesis using True r w1 by (auto intro!: followsI)
  next
    case False
    have e: "w1\<lparr>objects := (objects w)(o1 \<mapsto> s, o2 \<mapsto> None)\<rparr> = ?v\<lparr>objects := (objects ?v)(o1 \<mapsto> s, o2 \<mapsto> None)\<rparr>"
      by simp
    have "objects ?v o2 = Some s" "no_handler ?v o1" using False s by (auto simp: no_handler_def)
    then show ?thesis
      unfolding r e using uq_ok_move [OF w1(2), of o1 o2 s] values_of_move [of ?v o2 s o1] w1(3) False
      by (auto intro!: followsI)
  qed
qed

lemma uq_step_run_follows:
  "uq_ok alloc w \<Longrightarrow> follows alloc (uq_step alloc x w) (val_step x (values_of w))"
  "uq_ok alloc w \<Longrightarrow> follows alloc (uq_run alloc xs w) (val_run xs (values_of w))"
proof (induction alloc x w and alloc xs w rule: uq_step_uq_run.induct)
  case (1 alloc o1 w)
  have "values_of (w\<lparr>objects := (objects w)(o1 \<mapsto> None)\<rparr>) = set_val o1 None (values_of w)"
    by (simp add: values_of_def set_val_def fun_eq_iff)
  then show ?case
    using 1 uq_ok_empty_object [of alloc w o1 "Some None"]
    by (auto simp: uq_new_def set_storage_def no_handler_def values_of_objects intro!: followsI)
next
  case (2 alloc o1 h w)
  then show ?case using uq_new_handler_ok [of alloc w o1 h] by (auto simp: follows_def values_of_objects)
next
  case (3 alloc o1 o2 w)
  then show ?case
    using uq_ok_move [of alloc w o1 o2] values_of_move [of w o2 _ o1]
    by (cases "o1 = o2")
      (auto simp: uq_move_new_def set_storage_def storage_of_def no_handler_def values_of_objects intro!: followsI)
next
  case (4 alloc o1 o2 w)
  then show ?case using uq_move_assign_follows [of alloc w o1 o2] by (auto simp: values_of_objects followsI)
next
  case (5 alloc o1 args body w)
  from "5.prems" show ?case
  proof (cases rule: object_cases [where p = o1])
    case empty
    then show ?thesis
      using "5.prems" uq_ok_emit values_of_emit
      by (auto simp: uq_complete_def no_handler_def values_of_objects intro!: followsI)
  next
    case (holds i h)
    let ?w = "retire o1 i (Invoked i h args) w"
    have ok: "uq_ok alloc ?w" by (rule uq_ok_retire [OF "5.prems" holds(1,2)]) simp
    have v: "values_of ?w = put_out (Called h args) (set_val o1 None (values_of w))"
      using values_of_retire [OF "5.prems" holds(1)] by (simp add: put_out_def set_val_def)
    have "uq_complete alloc (\<lambda>w. uq_run alloc body w) o1 args w = map_option Inr (uq_run alloc body ?w)"
      using holds do_complete_value [of "set_storage o1 None w" i h alloc "uq_run alloc body" args]
      by (simp add: uq_complete_def retire_set)
    moreover have "follows alloc (uq_run alloc body ?w) (val_run body (values_of ?w))"
      using "5.IH" holds(1) ok by blast
    ultimately show ?thesis using holds v by (auto simp: follows_def values_of_objects held_Some)
  qed
next
  case (6 alloc o1 w)
  then show ?case
    using uq_reset_follows [of alloc w o1] lose_empty [of w o1] by (auto simp: no_handler_def intro!: followsI)
next
  case (7 alloc o1 w)
  then show ?case using uq_destroy_follows [of alloc w o1] by (auto simp: values_of_objects intro!: followsI)
next
  case (8 alloc w)
  then show ?case by (auto intro: followsI)
next
  case (9 alloc x xs w)
  then show ?case by (force simp: follows_def)
qed

section \<open>Properties\<close>

lemma no_handlers_ok: "uq_ok alloc no_handlers"
  by (simp add: uq_ok_def no_handlers_def history_def)

lemma values_of_none: "values_of no_handlers = no_values"
  by (simp add: values_of_def no_handlers_def no_values_def)

lemma uq_run_ok: "follows alloc (uq_run alloc xs no_handlers) (val_run xs no_values)"
  using uq_step_run_follows(2) [OF no_handlers_ok] by (simp add: values_of_none)

lemma unused_storages:
  assumes "uq_ok alloc w"
  shows "(\<exists>p h. objects w p = Some (Some i) \<and> storages w i = Some (Holds h, alloc h) \<and> history i w = [Stored i h]) \<or>
    storages w i = None \<and> (used_once i w \<or> history i w = [])"
proof (cases "storages w i")
  case None
  then show ?thesis using assms unfolding uq_ok_def by (cases "i < next_storage w") simp_all
next
  case (Some c)
  then obtain p where "objects w p = Some (Some i)" using assms unfolding uq_ok_def by blast
  then show ?thesis using uq_okD(1) [OF assms] by blast
qed

text \<open>
  C24. Whatever a program does with objects of \<^verbatim>\<open>unique_handler\<close>, handlers calling back into
  the objects included, every operation is defined and the objects behave as plain values: each
  is empty or one handler, a move transfers it, \<^verbatim>\<open>complete\<close> invokes it with the given arguments
  after the object was emptied, and \<^verbatim>\<open>reset\<close>, assignment and destruction drop it.
\<close>

theorem unique_handlers_are_values:
  "\<exists>w. uq_run alloc xs no_handlers = Some w \<and> values_of w = val_run xs no_values"
  using uq_run_ok by (auto simp: follows_def)

text \<open>
  C25. Each handler is used once: its storage is released, through the allocator of the handler,
  before it is invoked or dropped, and that happens one time. A storage that is still in use belongs to
  exactly one object; when no object is left, all are released.
\<close>

theorem handlers_used_once:
  assumes "uq_run alloc xs no_handlers = Some w"
  shows "((\<exists>!p. objects w p = Some (Some i)) \<and>
      (\<exists>h. storages w i = Some (Holds h, alloc h) \<and> history i w = [Stored i h]) \<or>
    storages w i = None \<and> (used_once i w \<or> history i w = [])) \<and>
    ((\<forall>p. objects w p = None) \<longrightarrow> storages w i = None)"
proof -
  have ok: "uq_ok alloc w" using uq_run_ok [of alloc xs] assms by (simp add: follows_def)
  show ?thesis using unused_storages [OF ok, of i] uq_okD(2) [OF ok] by auto
qed

text \<open>
  A handler that stores a new one into the object that invokes it, with a second object that is
  dropped and a call of an empty object.
\<close>

definition sample_uses :: "(string, nat) uq_op list" where
  "sample_uses =
     [Store 3 ''a'', Move_new 4 3, Complete 3 7 [], Complete 4 8 [Store 5 ''b'', Move_assign 4 5],
      Complete 4 9 [], Store 6 ''c'', Destroy 6, Destroy 3, Destroy 4, Destroy 5]"

theorem handlers_used_once_witness:
  "\<exists>w. uq_run length sample_uses no_handlers = Some w \<and> next_storage w = 3 \<and> storages w 0 = None \<and>
     storages w 1 = None \<and> storages w 2 = None \<and>
     outputs (values_of w) = [Empty_call 3, Called ''a'' 8, Called ''b'' 9, Lost ''c'']"
proof -
  obtain w where w: "uq_run length sample_uses no_handlers = Some w" "next_storage w = 3"
    "objects w = (\<lambda>_. None)" "outputs (values_of w) = [Empty_call 3, Called ''a'' 8, Called ''b'' 9, Lost ''c'']"
    by (simp add: sample_uses_def no_handlers_def uq_new_handler_value uq_move_new_def storage_of_def
        set_storage_def uq_complete_def do_complete_def do_abort_def move_out_def storage_impl_destroy_def
        deallocate_operation_def emit_def uq_move_assign_def
        abort_storage_def uq_destroy_def values_of_def fun_eq_iff)
  then show ?thesis using handlers_used_once [OF w(1)] by auto
qed

end
