(* ===== verification/Composed.thy ===== *)
theory Composed
  imports Prelude "HOL-Library.Monad_Syntax"
begin

text \<open>
  Handlers with bound arguments and composed operations: \<^verbatim>\<open>work.hpp\<close>, \<^verbatim>\<open>bind_handler.hpp\<close>,
  \<^verbatim>\<open>detail/bound_handler.hpp\<close> and \<^verbatim>\<open>compose.hpp\<close>. What the code of a handler or an
  implementation does is an argument: a function on the state of the program, of which the counts of
  outstanding work of the executors are a part. The hooks for allocation and invocation only forward
  to those of the wrapped handler, as do the associated types.
\<close>

section \<open>Work guards\<close>

text \<open>
  \<^verbatim>\<open>executor_work_guard\<close> as asio documents it: a guard owns one unit of the work of its
  executor until it is reset, moved from or destroyed. The counts are integers, so that giving back
  too much would show.
\<close>

record 'u world =
  work_count :: "nat \<Rightarrow> int"
  user :: 'u

type_synonym guard = "nat \<times> bool"

definition add_work :: "nat \<Rightarrow> int \<Rightarrow> 'u world \<Rightarrow> 'u world" where
  "add_work ex d w = w\<lparr>work_count := (work_count w)(ex := work_count w ex + d)\<rparr>"

definition guard_new :: "nat \<Rightarrow> 'u world \<Rightarrow> guard \<times> 'u world" where
  "guard_new ex w = ((ex, True), add_work ex 1 w)"

fun guard_reset :: "guard \<Rightarrow> 'u world \<Rightarrow> guard \<times> 'u world" where
  "guard_reset (ex, owns) w = (if owns then ((ex, False), add_work ex (- 1) w) else ((ex, False), w))"

text \<open>Moving gives the new guard and what stays behind.\<close>

fun guard_move :: "guard \<Rightarrow> guard \<times> guard" where
  "guard_move (ex, owns) = ((ex, owns), (ex, False))"

section \<open>work_tuple\<close>

text \<open>The guards of the tuple, first to last; \<^verbatim>\<open>work_tuple<void>\<close> has none.\<close>

type_synonym work_tuple = "guard list"

fun make_work_tuple :: "nat list \<Rightarrow> 'u world \<Rightarrow> work_tuple \<times> 'u world" where
  "make_work_tuple [] w = ([], w)"
| "make_work_tuple (ex # exs) w =
     (case guard_new ex w of (g, w) \<Rightarrow>
        (case make_work_tuple exs w of (gs, w) \<Rightarrow> (g # gs, w)))"

fun work_tuple_reset :: "work_tuple \<Rightarrow> 'u world \<Rightarrow> work_tuple \<times> 'u world" where
  "work_tuple_reset [] w = ([], w)"
| "work_tuple_reset (g # gs) w =
     (case guard_reset g w of (g, w) \<Rightarrow>
        (case work_tuple_reset gs w of (gs, w) \<Rightarrow> (g # gs, w)))"

definition work_tuple_move :: "work_tuple \<Rightarrow> work_tuple \<times> work_tuple" where
  "work_tuple_move gs = (map (fst \<circ> guard_move) gs, map (snd \<circ> guard_move) gs)"

section \<open>bound_handler\<close>

record ('h, 'a) bound_handler =
  b_work :: work_tuple
  b_handler :: 'h
  b_args :: 'a

definition bind_handler :: "'h \<Rightarrow> 'a \<Rightarrow> ('h, 'a) bound_handler" where
  "bind_handler handler args = \<lparr>b_work = [], b_handler = handler, b_args = args\<rparr>"

text \<open>The overload that takes the work of an operation moves it into the result.\<close>

definition bind_handler_work ::
    "'h \<Rightarrow> work_tuple \<Rightarrow> 'a \<Rightarrow> ('h, 'a) bound_handler \<times> work_tuple" where
  "bind_handler_work handler work args =
     (case work_tuple_move work of (work, rest) \<Rightarrow>
        (\<lparr>b_work = work, b_handler = handler, b_args = args\<rparr>, rest))"

text \<open>\<^verbatim>\<open>detail::invoke\<close> applies the handler to the elements of the tuple.\<close>

type_synonym ('h, 'a, 'u) call = "'h \<Rightarrow> 'a \<Rightarrow> 'u world \<Rightarrow> 'u world option"

definition invoke :: "('h, 'a, 'u) call \<Rightarrow> 'h \<Rightarrow> 'a \<Rightarrow> 'u world \<Rightarrow> 'u world option" where
  "invoke call handler args w = call handler args w"

definition bound_call ::
    "('h, 'a, 'u) call \<Rightarrow> ('h, 'a) bound_handler \<Rightarrow> 'u world \<Rightarrow> (('h, 'a) bound_handler \<times> 'u world) option" where
  "bound_call call b w =
     (case work_tuple_reset (b_work b) w of (gs, w) \<Rightarrow>
        do { w \<leftarrow> invoke call (b_handler b) (b_args b) w; Some (b\<lparr>b_work := gs\<rparr>, w) })"

definition bound_is_continuation :: "('h \<Rightarrow> bool) \<Rightarrow> ('h, 'a) bound_handler \<Rightarrow> bool" where
  "bound_is_continuation is_continuation b = is_continuation (b_handler b)"

section \<open>composed_operation\<close>

record ('h, 'i) composed =
  c_handler :: 'h
  c_impl :: 'i
  c_work :: work_tuple
  c_state :: nat

definition composed_new :: "'h \<Rightarrow> 'i \<Rightarrow> work_tuple \<Rightarrow> ('h, 'i) composed" where
  "composed_new handler impl work = \<lparr>c_handler = handler, c_impl = impl, c_work = work, c_state = 0\<rparr>"

definition make_composed_operation ::
    "'i \<Rightarrow> 'h \<Rightarrow> nat list \<Rightarrow> 'u world \<Rightarrow> ('h, 'i) composed \<times> 'u world" where
  "make_composed_operation impl handler exs w =
     (case make_work_tuple exs w of (gs, w) \<Rightarrow> (composed_new handler impl gs, w))"

text \<open>\<open>run\<close> is the implementation; it gets the operation itself.\<close>

definition composed_call ::
    "('i \<Rightarrow> ('h, 'i) composed \<Rightarrow> 'a \<Rightarrow> 'u world \<Rightarrow> 'r) \<Rightarrow> ('h, 'i) composed \<Rightarrow> 'a \<Rightarrow> 'u world \<Rightarrow> 'r" where
  "composed_call run c args w =
     (let c = (if c_state c < 2 then c\<lparr>c_state := c_state c + 1\<rparr> else c) in run (c_impl c) c args w)"

text \<open>What \<^verbatim>\<open>async_initiate\<close> runs: the first call, without arguments.\<close>

definition initiate_composed_op where
  "initiate_composed_op run handler impl work args w =
     composed_call run (composed_new handler impl work) args w"

definition composed_complete ::
    "('h, 'a, 'u) call \<Rightarrow> ('h, 'i) composed \<Rightarrow> 'a \<Rightarrow> 'u world \<Rightarrow> (('h, 'i) composed \<times> 'u world) option" where
  "composed_complete call c args w =
     do {
       w \<leftarrow> call (c_handler c) args w;
       (case work_tuple_reset (c_work c) w of (gs, w) \<Rightarrow> Some (c\<lparr>c_work := gs\<rparr>, w))
     }"

definition complete_to_bound_handler ::
    "('h, 'i) composed \<Rightarrow> 'a \<Rightarrow> ('h, 'a) bound_handler \<times> ('h, 'i) composed" where
  "complete_to_bound_handler c args =
     (case bind_handler_work (c_handler c) (c_work c) args of (b, rest) \<Rightarrow> (b, c\<lparr>c_work := rest\<rparr>))"

definition composed_is_continuation :: "('h \<Rightarrow> bool) \<Rightarrow> ('h, 'i) composed \<Rightarrow> bool" where
  "composed_is_continuation is_continuation c =
     (if c_state c > 1 then True else is_continuation (c_handler c))"

section \<open>Facts\<close>

text \<open>The work a tuple owns of an executor.\<close>

definition owned :: "work_tuple \<Rightarrow> nat \<Rightarrow> int" where
  "owned gs ex = int (length (filter (\<lambda>g. g = (ex, True)) gs))"

lemma owned_simps [simp]:
  "owned [] ex = 0"
  "owned (g # gs) ex = (if g = (ex, True) then 1 else 0) + owned gs ex"
  by (simp_all add: owned_def)

lemma add_work_simps [simp]:
  "work_count (add_work ex d w) = (work_count w)(ex := work_count w ex + d)"
  "user (add_work ex d w) = user w"
  by (simp_all add: add_work_def)

lemma guard_cases: "(g :: guard) = (fst g, True) \<or> g = (fst g, False)"
  by (cases g) auto

lemma make_work_tuple_owns:
  "make_work_tuple exs w = (gs, w') \<Longrightarrow>
     user w' = user w \<and> gs = map (\<lambda>ex. (ex, True)) exs \<and> work_count w' ex = work_count w ex + owned gs ex"
proof (induction exs arbitrary: w gs w')
  case (Cons e exs)
  obtain hs where h: "make_work_tuple exs (add_work e 1 w) = (hs, w')" "gs = (e, True) # hs"
    using Cons.prems by (auto simp: guard_new_def split: prod.splits)
  then show ?case using Cons.IH [OF h(1)] by auto
qed simp

lemma work_tuple_reset_gives_back:
  "work_tuple_reset gs w = (hs, w') \<Longrightarrow>
     user w' = user w \<and> owned hs ex = 0 \<and> work_count w' ex = work_count w ex - owned gs ex"
proof (induction gs arbitrary: w hs w')
  case (Cons g gs)
  obtain e b where g: "g = (e, b)" by (cases g)
  obtain ks where k: "work_tuple_reset gs (if b then add_work e (- 1) w else w) = (ks, w')" "hs = (e, False) # ks"
    using Cons.prems by (auto simp: g split: prod.splits if_splits)
  then show ?case using Cons.IH [OF k(1)] by (auto simp: g)
qed simp

lemma work_tuple_move_owned: "work_tuple_move gs = (hs, rest) \<Longrightarrow> hs = gs \<and> owned rest ex = 0"
  by (induction gs arbitrary: hs rest) (auto simp: work_tuple_move_def owned_def)

lemma work_tuple_reset_none: "(\<And>ex. owned gs ex = 0) \<Longrightarrow> snd (work_tuple_reset gs w) = w"
proof (induction gs)
  case (Cons g gs)
  have "owned gs ex = 0" for ex using Cons.prems [of ex] by (simp add: owned_def split: if_splits)
  moreover have "g = (fst g, False)" using Cons.prems [of "fst g"] guard_cases [of g] by (auto simp: owned_def)
  ultimately show ?case using Cons.IH by (cases g) (auto split: prod.splits)
qed simp

lemma owned_make: "owned (map (\<lambda>ex. (ex, True)) exs) ex = int (count_list exs ex)"
  by (induction exs) auto

lemma reset_guards:
  "fst (work_tuple_reset (map (\<lambda>ex. (ex, True)) exs) v) = map (\<lambda>ex. (ex, False)) exs"
  by (induction exs arbitrary: v) (auto split: prod.splits simp: prod_eq_iff)

text \<open>An operation that is called again is a continuation, whatever its handler says.\<close>

definition called_times :: "nat \<Rightarrow> ('h, 'i) composed \<Rightarrow> 'a \<Rightarrow> 'u world \<Rightarrow> ('h, 'i) composed" where
  "called_times n c args w = ((\<lambda>c. composed_call (\<lambda>i c args w. c) c args w) ^^ n) c"

lemma composed_state_counts: "c_state (called_times n (composed_new h i gs) args w) = min n 2"
  by (induction n) (auto simp: called_times_def composed_call_def composed_new_def Let_def)

lemma composed_continuation:
  "composed_is_continuation is_cont (called_times n (composed_new h i gs) args w) \<longleftrightarrow>
     1 < n \<or> is_cont (c_handler (called_times n (composed_new h i gs) args w))"
  by (auto simp: composed_is_continuation_def composed_state_counts)

section \<open>Properties\<close>

lemma world_eqI: "(\<And>ex. work_count w ex = work_count v ex) \<Longrightarrow> user w = user v \<Longrightarrow> (w :: 'u world) = v"
  by (cases w; cases v) (auto simp: fun_eq_iff)

text \<open>
  C35. A composed operation owns one unit of work per executor it was made with.
  \<^verbatim>\<open>complete\<close> calls the handler while all of it is still counted and gives it back when the
  handler has returned. The bound handler of \<^verbatim>\<open>complete_to_bound_handler\<close> carries the work along,
  but gives it back before it calls the same handler with the same arguments; the work is given back once.
\<close>

theorem composed_operation_work:
  fixes v :: "'u world"
  assumes "make_composed_operation impl handler exs w = (c, w1)" and "complete_to_bound_handler c args = (b, c')"
  shows "work_count w1 ex = work_count w ex + int (count_list exs ex)
    \<and> composed_complete call c args v =
        map_option (\<lambda>v'. (c\<lparr>c_work := map (\<lambda>ex. (ex, False)) exs\<rparr>,
            v'\<lparr>work_count := \<lambda>ex. work_count v' ex - int (count_list exs ex)\<rparr>)) (call handler args v)
    \<and> map_option snd (bound_call call b v) =
        call handler args (v\<lparr>work_count := \<lambda>ex. work_count v ex - int (count_list exs ex)\<rparr>)
    \<and> owned (c_work c') ex = 0"
proof -
  obtain gs where mk: "make_work_tuple exs w = (gs, w1)" and c: "c = composed_new handler impl gs"
    using assms(1) by (auto simp: make_composed_operation_def split: prod.splits)
  have gs: "gs = map (\<lambda>ex. (ex, True)) exs" and "work_count w1 ex = work_count w ex + owned gs ex"
    using make_work_tuple_owns [OF mk] by auto
  moreover have reset: "work_tuple_reset gs v =
      (map (\<lambda>ex. (ex, False)) exs, v\<lparr>work_count := \<lambda>ex. work_count v ex - int (count_list exs ex)\<rparr>)"
    for v :: "'u world"
  proof -
    obtain hs v' where r: "work_tuple_reset gs v = (hs, v')" by fastforce
    have "v' = v\<lparr>work_count := \<lambda>ex. work_count v ex - int (count_list exs ex)\<rparr>"
      by (rule world_eqI) (use work_tuple_reset_gives_back [OF r] gs in \<open>auto simp: owned_make\<close>)
    moreover have "hs = map (\<lambda>ex. (ex, False)) exs" using r reset_guards [of exs v] gs by (metis fst_conv)
    ultimately show ?thesis using r by simp
  qed
  obtain hs rest where mv: "work_tuple_move gs = (hs, rest)" by fastforce
  have b: "b = \<lparr>b_work = gs, b_handler = handler, b_args = args\<rparr>" "c_work c' = rest"
    using assms(2) work_tuple_move_owned [OF mv] mv
    by (auto simp: complete_to_bound_handler_def bind_handler_work_def c composed_new_def)
  have "composed_complete call c args v =
      map_option (\<lambda>v'. (c\<lparr>c_work := map (\<lambda>ex. (ex, False)) exs\<rparr>,
        v'\<lparr>work_count := \<lambda>ex. work_count v' ex - int (count_list exs ex)\<rparr>)) (call handler args v)"
    by (cases "call handler args v") (simp_all add: composed_complete_def c composed_new_def reset)
  moreover have "map_option snd (bound_call call b v) =
      call handler args (v\<lparr>work_count := \<lambda>ex. work_count v ex - int (count_list exs ex)\<rparr>)"
    by (cases "call handler args (v\<lparr>work_count := \<lambda>ex. work_count v ex - int (count_list exs ex)\<rparr>)")
      (simp_all add: bound_call_def b reset invoke_def)
  ultimately show ?thesis using gs b(2) work_tuple_move_owned [OF mv] by (simp add: owned_make)
qed

text \<open>Two executors, one of them twice; the handler notes what is still outstanding.\<close>

definition note_work :: "(nat, nat, int list) call" where
  "note_work handler args w = Some (w\<lparr>user := [work_count w 3, work_count w 4, int args]\<rparr>)"

definition idle :: "int list world" where
  "idle = \<lparr>work_count = \<lambda>_. 0, user = []\<rparr>"

theorem composed_operation_work_witness:
  "map_option (\<lambda>(c, w). user w)
      (composed_complete note_work (fst (make_composed_operation (0::nat) 9 [3, 4, 3] idle)) 7
        (snd (make_composed_operation (0::nat) (9::nat) [3, 4, 3] idle))) = Some [2, 1, 7]"
proof -
  obtain c w1 where m: "make_composed_operation (0::nat) (9::nat) [3, 4, 3] idle = (c, w1)" by fastforce
  obtain b c' where b: "complete_to_bound_handler c (7::nat) = (b, c')" by fastforce
  note p = composed_operation_work [OF m b, where call = note_work and v = w1]
  have "work_count w1 3 = 2" "work_count w1 4 = 1" using p [of 3] p [of 4] by (simp_all add: idle_def)
  then show ?thesis using p [of 3] by (simp add: m note_work_def)
qed

end
