(* ===== verification/BufferedStream.thy ===== *)
theory BufferedStream
  imports DynamicBuffer
begin

text \<open>
  \<^verbatim>\<open>buffered_stream\<close> (\<^verbatim>\<open>experimental/buffered_stream.hpp\<close>): a stream with a buffer for what
  is written, a second one for what is being flushed, and one for what was read. The buffers are
  those of \<open>LinearBuffer\<close>, in one memory. The next layer and the functions of asio on it are
  arguments; \<open>'w\<close> is the state of the next layer.
\<close>

section \<open>The class\<close>

record bstream =
  flush_pending :: bool
  write_buffer :: lbuf
  write_buffer_locked :: lbuf
  read_buffer :: lbuf

type_synonym 'w bs_state = "bstream \<times> heap \<times> 'w"

text \<open>The constructors. \<open>alloc_max\<close> is the largest allocation.\<close>

definition bs_new :: "nat \<Rightarrow> nat \<Rightarrow> nat \<Rightarrow> heap \<Rightarrow> bstream \<times> heap" where
  "bs_new alloc_max max_write_size max_read_size h =
     (case lb_new_sized alloc_max 0 max_write_size h of (b, h) \<Rightarrow>
      case lb_new_sized alloc_max 0 max_write_size h of (b', h) \<Rightarrow>
      case lb_new_sized alloc_max 0 max_read_size h of (r, h) \<Rightarrow>
        (\<lparr>flush_pending = False, write_buffer = b, write_buffer_locked = b', read_buffer = r\<rparr>, h))"

text \<open>\<^verbatim>\<open>close\<close> forgets the bytes; \<open>cl\<close> closes the next layer.\<close>

definition bs_clear :: "bstream \<Rightarrow> bstream" where
  "bs_clear s = s\<lparr>write_buffer := lb_clear (write_buffer s),
     write_buffer_locked := lb_clear (write_buffer_locked s), read_buffer := lb_clear (read_buffer s)\<rparr>"

definition bs_close :: "('w \<Rightarrow> 'w \<times> error_code) \<Rightarrow> 'w bs_state \<Rightarrow> 'w bs_state \<times> error_code" where
  "bs_close cl st =
     (case st of (s, h, w) \<Rightarrow> (case cl w of (w, ec) \<Rightarrow> ((bs_clear s, h, w), ec)))"

definition bs_close_throwing ::
    "('w \<Rightarrow> 'w \<times> (cxx_exception + unit)) \<Rightarrow> 'w bs_state \<Rightarrow> 'w bs_state \<times> (cxx_exception + unit)" where
  "bs_close_throwing cl st =
     (case st of (s, h, w) \<Rightarrow> (case cl w of (w, r) \<Rightarrow> ((bs_clear s, h, w), r)))"

definition can_flush :: "bstream \<Rightarrow> bool" where
  "can_flush s = (\<not> flush_pending s \<and> lb_size (write_buffer s) \<noteq> 0)"

text \<open>
  \<^verbatim>\<open>std::swap\<close> of two buffers moves three times. \<open>propagate\<close> and \<open>equal_alloc\<close> are the
  properties of the allocator that the move assignment asks for.
\<close>

definition lb_swap :: "bool \<Rightarrow> bool \<Rightarrow> lbuf \<Rightarrow> lbuf \<Rightarrow> heap \<Rightarrow> (lbuf \<times> lbuf \<times> heap) option" where
  "lb_swap propagate equal_alloc a b h =
     (case lb_move a of (tmp, a) \<Rightarrow>
        do {
          (a, b, h) \<leftarrow> lb_move_assign propagate equal_alloc a b h;
          (b, tmp, h) \<leftarrow> lb_move_assign propagate equal_alloc b tmp h;
          h \<leftarrow> lb_destroy tmp h;
          Some (a, b, h)
        })"

text \<open>
  The result says whether the pointer is not null; it points to \<^verbatim>\<open>write_buffer_locked_\<close>. \<open>ec\<close>
  is the caller's variable: it is written only in the first case.
\<close>

definition lock_write_buffers ::
    "bool \<Rightarrow> bool \<Rightarrow> error_code \<Rightarrow> bstream \<Rightarrow> heap \<Rightarrow> (bool \<times> error_code \<times> bstream \<times> heap) option" where
  "lock_write_buffers propagate equal_alloc ec s h =
     (if flush_pending s then Some (False, ec_asio already_started, s, h)
      else
        do {
          (s, h) \<leftarrow>
            (if lb_size (write_buffer_locked s) = 0 then
               if lb_size (write_buffer s) \<noteq> 0 then
                 do {
                   (b, b', h) \<leftarrow> lb_swap propagate equal_alloc (write_buffer s) (write_buffer_locked s) h;
                   Some (s\<lparr>write_buffer := b, write_buffer_locked := b'\<rparr>, h)
                 }
               else Some (s, h)
             else Some (s, h));
          Some (True, ec, s\<lparr>flush_pending := True\<rparr>, h)
        })"

definition unlock_write_buffers :: "nat \<Rightarrow> bstream \<Rightarrow> bstream" where
  "unlock_write_buffers bytes_written s = s\<lparr>flush_pending := False\<rparr>"

text \<open>
  \<open>wd\<close> is \<^verbatim>\<open>asio::write\<close> and \<open>rd\<close> is \<^verbatim>\<open>asio::read\<close> (with \<^verbatim>\<open>transfer_at_least(1)\<close>) on
  a dynamic buffer over a buffer of the stream.
\<close>

type_synonym 'w dyn_transfer = "dstate \<Rightarrow> 'w \<Rightarrow> ('w \<times> error_code \<times> nat \<times> dstate) option"

definition bs_flush_write ::
    "'w dyn_transfer \<Rightarrow> dbuf \<Rightarrow> 'w bs_state \<Rightarrow> (nat \<times> error_code \<times> 'w bs_state) option" where
  "bs_flush_write wd d st =
     (case st of (s, h, w) \<Rightarrow>
        do {
          (w, ec, r, d, b, h) \<leftarrow> wd (d, write_buffer_locked s, h) w;
          Some (r, ec, unlock_write_buffers r (s\<lparr>write_buffer_locked := b\<rparr>), h, w)
        })"

definition bs_flush ::
    "bool \<Rightarrow> bool \<Rightarrow> 'w dyn_transfer \<Rightarrow> error_code \<Rightarrow> 'w bs_state \<Rightarrow> (nat \<times> error_code \<times> 'w bs_state) option" where
  "bs_flush propagate equal_alloc wd ec st =
     (case st of (s, h, w) \<Rightarrow>
        do {
          (buffer, ec, s, h) \<leftarrow> lock_write_buffers propagate equal_alloc ec s h;
          (if ec_failed ec then Some (0, ec, s, h, w)
           else bs_flush_write wd (db_new (write_buffer_locked s) size_max) (s, h, w))
        })"

definition bs_flush_throwing ::
    "bool \<Rightarrow> bool \<Rightarrow> 'w dyn_transfer \<Rightarrow> 'w bs_state \<Rightarrow> ((cxx_exception + nat) \<times> 'w bs_state) option" where
  "bs_flush_throwing propagate equal_alloc wd st =
     map_option (\<lambda>(r, ec, st). (throw_error ec ''flush'' r, st))
       (bs_flush propagate equal_alloc wd no_error st)"

text \<open>
  \<^verbatim>\<open>async_flush\<close> either posts the handler with an error or starts to write; \<open>bs_flush_written\<close>
  is the completion of that write, whose result goes to the handler.
\<close>

datatype flush_start =
    Posted error_code nat
  | Writing dbuf

definition bs_async_flush ::
    "bool \<Rightarrow> bool \<Rightarrow> 'w bs_state \<Rightarrow> (flush_start \<times> 'w bs_state) option" where
  "bs_async_flush propagate equal_alloc st =
     (case st of (s, h, w) \<Rightarrow>
        do {
          (buffer, ec, s, h) \<leftarrow> lock_write_buffers propagate equal_alloc no_error s h;
          (if ec_failed ec then Some (Posted ec 0, s, h, w)
           else Some (Writing (db_new (write_buffer_locked s) size_max), s, h, w))
        })"

definition bs_flush_written ::
    "'w dyn_transfer \<Rightarrow> dbuf \<Rightarrow> 'w bs_state \<Rightarrow> (nat \<times> error_code \<times> 'w bs_state) option" where
  "bs_flush_written wd d st = bs_flush_write wd d st"

definition bs_fill :: "'w dyn_transfer \<Rightarrow> 'w bs_state \<Rightarrow> (nat \<times> error_code \<times> 'w bs_state) option" where
  "bs_fill rd st =
     (case st of (s, h, w) \<Rightarrow>
        do {
          (w, ec, r, d, b, h) \<leftarrow> rd (db_new (read_buffer s) size_max, read_buffer s, h) w;
          Some (r, ec, s\<lparr>read_buffer := b\<rparr>, h, w)
        })"

definition bs_fill_throwing :: "'w dyn_transfer \<Rightarrow> 'w bs_state \<Rightarrow> ((cxx_exception + nat) \<times> 'w bs_state) option" where
  "bs_fill_throwing rd st =
     map_option (\<lambda>(r, ec, st). (throw_error ec ''fill'' r, st)) (bs_fill rd st)"

text \<open>The asynchronous one starts the same read; its handler gets the result.\<close>

definition bs_async_fill :: "'w dyn_transfer \<Rightarrow> 'w bs_state \<Rightarrow> (nat \<times> error_code \<times> 'w bs_state) option" where
  "bs_async_fill rd st = bs_fill rd st"

section \<open>The next layer\<close>

text \<open>
  What asio promises. \<open>sent\<close> and \<open>got\<close> are the bytes that have passed in the two directions. The
  write sends a start of the buffer, all of it unless there is an error, and consumes what it sent.
  The read appends what it received to the buffer, at least one byte if there is no error and room
  in the buffer, and never more than the limit.
\<close>

definition write_dyn_ok :: "('w \<Rightarrow> cells) \<Rightarrow> ('w \<Rightarrow> cells) \<Rightarrow> 'w dyn_transfer \<Rightarrow> bool" where
  "write_dyn_ok sent got wd \<longleftrightarrow>
     (\<forall>s w. db_ok s \<longrightarrow> \<not> db_ready s \<longrightarrow>
        (\<exists>w' ec n s'. wd s w = Some (w', ec, n, s') \<and> n \<le> length (db_readable s) \<and>
           (\<not> ec_failed ec \<longrightarrow> n = length (db_readable s)) \<and>
           sent w' = sent w @ take n (db_readable s) \<and> got w' = got w \<and> db_consume n s = Some s'))"

definition read_dyn_ok :: "('w \<Rightarrow> cells) \<Rightarrow> ('w \<Rightarrow> cells) \<Rightarrow> 'w dyn_transfer \<Rightarrow> bool" where
  "read_dyn_ok sent got rd \<longleftrightarrow>
     (\<forall>d b h w. db_ok (d, b, h) \<longrightarrow> \<not> db_ready (d, b, h) \<longrightarrow>
        (\<exists>w' ec xs b' h'. rd (d, b, h) w = Some (w', ec, length xs, d, b', h') \<and>
           (\<not> ec_failed ec \<longrightarrow> xs \<noteq> [] \<or> lb_size b = db_max d) \<and>
           sent w' = sent w \<and> got w' = got w @ xs \<and>
           lb_step b h b' h' (content b h @ xs) \<and> lb_size b' \<le> db_max d))"

section \<open>Programs over a stream\<close>

text \<open>
  What code does with a stream: it appends bytes of its own to the write buffer, flushes, starts an
  asynchronous flush, sees it complete, fills the read buffer and takes bytes from the front of it.
  The log has the write under way, the bytes appended and the bytes taken.
\<close>

datatype bs_op =
    Put cells
  | Flush
  | Start_flush
  | Flush_done
  | Fill
  | Take_front nat

record bs_log =
  under_way :: "dbuf option"
  appended :: cells
  taken :: cells

definition bs_put :: "cells \<Rightarrow> bstream \<Rightarrow> heap \<Rightarrow> (cxx_exception + bstream \<times> heap) option" where
  "bs_put xs s h =
     (case allocate (length xs) h of (i, h) \<Rightarrow>
        do {
          h \<leftarrow> mem_write (Some (i, 0)) xs h;
          r \<leftarrow> lb_append (Some (i, 0)) (length xs) (write_buffer s) h;
          (case r of
             Inl e \<Rightarrow> Some (Inl e)
           | Inr (b, h) \<Rightarrow>
               do {
                 h \<leftarrow> deallocate (Some i) (length xs) h;
                 Some (Inr (s\<lparr>write_buffer := b\<rparr>, h))
               })
        })"

definition bs_take :: "nat \<Rightarrow> bstream \<Rightarrow> heap \<Rightarrow> (cells \<times> bstream \<times> heap) option" where
  "bs_take n s h =
     (let k = min n (lb_size (read_buffer s)) in
      do {
        xs \<leftarrow> mem_read (block_ptr (data_block (read_buffer s)) 0) k h;
        (b, h) \<leftarrow> lb_erase_range 0 k (read_buffer s) h;
        Some (xs, s\<lparr>read_buffer := b\<rparr>, h)
      })"

fun bs_step ::
    "'w dyn_transfer \<Rightarrow> 'w dyn_transfer \<Rightarrow> bs_op \<Rightarrow> 'w bs_state \<times> bs_log \<Rightarrow> ('w bs_state \<times> bs_log) option" where
  "bs_step wd rd (Put xs) ((s, h, w), l) =
     (case bs_put xs s h of
        None \<Rightarrow> None
      | Some (Inl e) \<Rightarrow> Some ((s, h, w), l)
      | Some (Inr (s, h)) \<Rightarrow> Some ((s, h, w), l\<lparr>appended := appended l @ xs\<rparr>))"
| "bs_step wd rd Flush (st, l) = map_option (\<lambda>(r, ec, st). (st, l)) (bs_flush True True wd no_error st)"
| "bs_step wd rd Start_flush (st, l) =
     map_option (\<lambda>(r, st). (st, case r of Posted ec n \<Rightarrow> l | Writing d \<Rightarrow> l\<lparr>under_way := Some d\<rparr>))
       (bs_async_flush True True st)"
| "bs_step wd rd Flush_done (st, l) =
     (case under_way l of
        None \<Rightarrow> Some (st, l)
      | Some d \<Rightarrow>
          map_option (\<lambda>(r, ec, st). (st, l\<lparr>under_way := None\<rparr>)) (bs_flush_written wd d st))"
| "bs_step wd rd Fill (st, l) = map_option (\<lambda>(r, ec, st). (st, l)) (bs_fill rd st)"
| "bs_step wd rd (Take_front n) ((s, h, w), l) =
     map_option (\<lambda>(xs, s, h). ((s, h, w), l\<lparr>taken := taken l @ xs\<rparr>)) (bs_take n s h)"

fun bs_run ::
    "'w dyn_transfer \<Rightarrow> 'w dyn_transfer \<Rightarrow> bs_op list \<Rightarrow> 'w bs_state \<times> bs_log \<Rightarrow> ('w bs_state \<times> bs_log) option" where
  "bs_run wd rd [] x = Some x"
| "bs_run wd rd (p # ps) x = Option.bind (bs_step wd rd p x) (bs_run wd rd ps)"

definition empty_log :: bs_log where
  "empty_log = \<lparr>under_way = None, appended = [], taken = []\<rparr>"

section \<open>The invariant\<close>

text \<open>Two buffers do not share a block, and no step of one touches the bytes of the other.\<close>

definition apart :: "lbuf \<Rightarrow> lbuf \<Rightarrow> bool" where
  "apart a b \<longleftrightarrow> (\<forall>i. data_block a = Some i \<longrightarrow> data_block b \<noteq> Some i)"

lemma apart_sym: "apart a b \<Longrightarrow> apart b a"
  by (auto simp: apart_def)

definition buf_ok :: "lbuf \<Rightarrow> heap \<Rightarrow> bool" where
  "buf_ok b h \<longleftrightarrow> lb_ok b h \<and> lb_size b \<le> max_size b \<and> max_size b < size_max"

lemma owns_step_other:
  assumes "owns_step b h b' h'" and "heap_ok h'" and "buf_ok c h" and "apart b c"
  shows "buf_ok c h'" and "content c h' = content c h" and "apart b' c"
proof -
  have ne: "data_block b' \<noteq> Some i" if "data_block c = Some i" for i
    using assms that lb_ok_block [of c h i] unfolding owns_step_def apart_def buf_ok_def
    by (metis option.distinct(1))
  then show "apart b' c" by (auto simp: apart_def)
  have same: "blocks h' i = blocks h i" if "data_block c = Some i" for i
    using assms(1,4) that ne [OF that] unfolding owns_step_def apart_def by metis
  then have bo: "block_of c h' = block_of c h" by (cases "data_block c") (auto simp: block_of_def)
  then show "content c h' = content c h" by (simp add: content_def)
  show "buf_ok c h'" using assms(2,3) bo same by (auto simp: buf_ok_def lb_ok_def)
qed

definition bs_ok :: "bstream \<Rightarrow> heap \<Rightarrow> bool" where
  "bs_ok s h \<longleftrightarrow>
     buf_ok (write_buffer s) h \<and> buf_ok (write_buffer_locked s) h \<and> buf_ok (read_buffer s) h \<and>
     apart (write_buffer s) (write_buffer_locked s) \<and> apart (write_buffer s) (read_buffer s) \<and>
     apart (write_buffer_locked s) (read_buffer s)"

text \<open>The bytes of the three buffers.\<close>

definition bs_view :: "bstream \<Rightarrow> heap \<Rightarrow> cells \<times> cells \<times> cells" where
  "bs_view s h =
     (content (write_buffer s) h, content (write_buffer_locked s) h, content (read_buffer s) h)"

lemma lb_step_buf_ok:
  "lb_step b h b' h' ys \<Longrightarrow> lb_size b' \<le> max_size b \<Longrightarrow> max_size b < size_max \<Longrightarrow> buf_ok b' h'"
  by (simp add: lb_step_def buf_ok_def)

text \<open>A step of one of the three buffers.\<close>

lemma bs_ok_step:
  assumes "bs_ok s h"
  shows "owns_step (write_buffer s) h b h' \<Longrightarrow> buf_ok b h' \<Longrightarrow>
      bs_ok (s\<lparr>write_buffer := b\<rparr>) h' \<and>
      bs_view (s\<lparr>write_buffer := b\<rparr>) h' = (content b h', snd (bs_view s h))"
    and "owns_step (write_buffer_locked s) h b h' \<Longrightarrow> buf_ok b h' \<Longrightarrow>
      bs_ok (s\<lparr>write_buffer_locked := b\<rparr>) h' \<and>
      bs_view (s\<lparr>write_buffer_locked := b\<rparr>) h' = (fst (bs_view s h), content b h', snd (snd (bs_view s h)))"
    and "owns_step (read_buffer s) h b h' \<Longrightarrow> buf_ok b h' \<Longrightarrow>
      bs_ok (s\<lparr>read_buffer := b\<rparr>) h' \<and>
      bs_view (s\<lparr>read_buffer := b\<rparr>) h' = (fst (bs_view s h), fst (snd (bs_view s h)), content b h')"
proof -
  have hok: "heap_ok h'" if "buf_ok b h'" using that by (simp add: buf_ok_def lb_ok_def)
  have w: "buf_ok (write_buffer s) h" and l: "buf_ok (write_buffer_locked s) h" and r: "buf_ok (read_buffer s) h"
    and wl: "apart (write_buffer s) (write_buffer_locked s)" and wr: "apart (write_buffer s) (read_buffer s)"
    and lr: "apart (write_buffer_locked s) (read_buffer s)"
    using assms by (simp_all add: bs_ok_def)
  show "owns_step (write_buffer s) h b h' \<Longrightarrow> buf_ok b h' \<Longrightarrow>
      bs_ok (s\<lparr>write_buffer := b\<rparr>) h' \<and>
      bs_view (s\<lparr>write_buffer := b\<rparr>) h' = (content b h', snd (bs_view s h))"
    using owns_step_other [OF _ hok l wl] owns_step_other [OF _ hok r wr] lr
    by (simp add: bs_ok_def bs_view_def)
  show "owns_step (write_buffer_locked s) h b h' \<Longrightarrow> buf_ok b h' \<Longrightarrow>
      bs_ok (s\<lparr>write_buffer_locked := b\<rparr>) h' \<and>
      bs_view (s\<lparr>write_buffer_locked := b\<rparr>) h' = (fst (bs_view s h), content b h', snd (snd (bs_view s h)))"
    using owns_step_other [OF _ hok w apart_sym [OF wl]] owns_step_other [OF _ hok r lr] wr
    by (simp add: bs_ok_def bs_view_def apart_sym)
  show "owns_step (read_buffer s) h b h' \<Longrightarrow> buf_ok b h' \<Longrightarrow>
      bs_ok (s\<lparr>read_buffer := b\<rparr>) h' \<and>
      bs_view (s\<lparr>read_buffer := b\<rparr>) h' = (fst (bs_view s h), fst (snd (bs_view s h)), content b h')"
    using owns_step_other [OF _ hok w apart_sym [OF wr]] owns_step_other [OF _ hok l apart_sym [OF lr]] wl
    by (simp add: bs_ok_def bs_view_def apart_sym)
qed

section \<open>The operations\<close>

lemma lb_swap_true: "lb_swap True e a b h = Some (b, a, h)"
  by (simp add: lb_swap_def lb_move_def lb_move_assign_def lb_move_assign_true_def lb_destroy_def)

lemma content_Nil_iff: "buf_ok b h \<Longrightarrow> content b h = [] \<longleftrightarrow> lb_size b = 0"
  using length_content [of b h] by (auto simp: buf_ok_def)

lemma lock_pending: "flush_pending s \<Longrightarrow>
    lock_write_buffers propagate e ec s h = Some (False, ec_asio already_started, s, h)"
  by (simp add: lock_write_buffers_def)

text \<open>The buffers are swapped when all of the locked one has been flushed.\<close>

definition locked_view :: "cells \<times> cells \<times> cells \<Rightarrow> cells \<times> cells \<times> cells" where
  "locked_view v = (case v of (x, y, z) \<Rightarrow> if y = [] then ([], x, z) else (x, y, z))"

lemma lock_ok:
  assumes "bs_ok s h" and "\<not> flush_pending s"
  shows "\<exists>s'. lock_write_buffers True e ec s h = Some (True, ec, s', h) \<and> bs_ok s' h \<and> flush_pending s' \<and>
    bs_view s' h = locked_view (bs_view s h)"
proof -
  let ?swap = "lb_size (write_buffer_locked s) = 0 \<and> lb_size (write_buffer s) \<noteq> 0"
  let ?s = "(if ?swap then s\<lparr>write_buffer := write_buffer_locked s, write_buffer_locked := write_buffer s\<rparr> else s)
    \<lparr>flush_pending := True\<rparr>"
  have "lock_write_buffers True e ec s h = Some (True, ec, ?s, h)"
    using assms(2) by (simp add: lock_write_buffers_def lb_swap_true)
  moreover have "bs_ok ?s h" using assms(1) by (auto simp: bs_ok_def apart_sym)
  moreover have "bs_view ?s h = locked_view (bs_view s h)"
    using assms(1) content_Nil_iff [of "write_buffer s" h] content_Nil_iff [of "write_buffer_locked s" h]
    by (auto simp: bs_view_def locked_view_def bs_ok_def)
  ultimately show ?thesis by auto
qed

text \<open>An adapter over a buffer of the stream, as the library makes it.\<close>

lemma adapter_ok:
  assumes "buf_ok b h"
  shows "db_ok (db_new b size_max, b, h)" and "\<not> db_ready (db_new b size_max, b, h)"
    and "db_readable (db_new b size_max, b, h) = content b h" and "db_max (db_new b size_max) = max_size b"
  using assms length_content [of b h]
  by (auto simp: buf_ok_def db_new_def db_ok.simps db_ready.simps db_readable.simps)

lemma adapter_consume:
  assumes "buf_ok b h" and "n \<le> length (content b h)"
  shows "\<exists>b' h'. db_consume n (db_new b size_max, b, h) = Some (db_new b size_max, b', h') \<and>
    owns_step b h b' h' \<and> buf_ok b' h' \<and> content b' h' = drop n (content b h)"
proof -
  have ok: "lb_ok b h" "lb_size b \<le> max_size b" "max_size b < size_max" using assms(1) by (simp_all add: buf_ok_def)
  have n: "n \<le> lb_size b" using assms(2) length_content [OF ok(1)] by simp
  obtain b' h' where e: "lb_erase_range 0 n b h = Some (b', h')"
    "lb_step b h b' h' (drop n (content b h))" "lb_size b' = lb_size b - n"
    using lb_erase_range_ok [OF ok(1) _ n, of 0] by auto
  have "min (min (lb_size b) (db_max (db_new b size_max))) n = n"
    using ok n by (simp add: db_new_def)
  then have "db_consume n (db_new b size_max, b, h) = Some (db_new b size_max, b', h')"
    using e(1) by (simp add: db_consume_def db_new_def)
  moreover have "buf_ok b' h'" using lb_step_buf_ok [OF e(2)] e(3) ok by simp
  ultimately show ?thesis using e(2) by (auto simp: lb_step_def)
qed

lemma flush_write_ok:
  assumes "write_dyn_ok sent got wd" and "bs_ok s h"
  shows "\<exists>n ec s' h' w'. bs_flush_write wd (db_new (write_buffer_locked s) size_max) (s, h, w) =
      Some (n, ec, s', h', w') \<and> bs_ok s' h' \<and> \<not> flush_pending s' \<and>
      n \<le> length (fst (snd (bs_view s h))) \<and> (\<not> ec_failed ec \<longrightarrow> n = length (fst (snd (bs_view s h)))) \<and>
      sent w' = sent w @ take n (fst (snd (bs_view s h))) \<and> got w' = got w \<and>
      bs_view s' h' = (fst (bs_view s h), drop n (fst (snd (bs_view s h))), snd (snd (bs_view s h)))"
proof -
  let ?b = "write_buffer_locked s"
  have ok: "buf_ok ?b h" using assms(2) by (simp add: bs_ok_def)
  have v: "fst (snd (bs_view s h)) = content ?b h" by (simp add: bs_view_def)
  note a = adapter_ok [OF ok]
  obtain w' ec n x where w: "wd (db_new ?b size_max, ?b, h) w = Some (w', ec, n, x)" "n \<le> length (content ?b h)"
    "\<not> ec_failed ec \<longrightarrow> n = length (content ?b h)" "sent w' = sent w @ take n (content ?b h)" "got w' = got w"
    "db_consume n (db_new ?b size_max, ?b, h) = Some x"
    using assms(1) a unfolding write_dyn_ok_def by metis
  obtain b' h' where c: "x = (db_new ?b size_max, b', h')" "owns_step ?b h b' h'" "buf_ok b' h'"
    "content b' h' = drop n (content ?b h)"
    using adapter_consume [OF ok w(2)] w(6) by auto
  let ?s = "unlock_write_buffers n (s\<lparr>write_buffer_locked := b'\<rparr>)"
  have "bs_flush_write wd (db_new ?b size_max) (s, h, w) = Some (n, ec, ?s, h', w')"
    using w(1) c(1) by (simp add: bs_flush_write_def)
  moreover have "bs_ok ?s h'" "\<not> flush_pending ?s"
    "bs_view ?s h' = (fst (bs_view s h), drop n (content ?b h), snd (snd (bs_view s h)))"
    using bs_ok_step(2) [OF assms(2) c(2,3)] c(4)
    by (auto simp: unlock_write_buffers_def bs_ok_def bs_view_def)
  ultimately show ?thesis unfolding v using w by blast
qed

lemma fill_ok:
  assumes "read_dyn_ok sent got rd" and "bs_ok s h"
  shows "\<exists>ec xs s' h' w'. bs_fill rd (s, h, w) = Some (length xs, ec, s', h', w') \<and> bs_ok s' h' \<and>
      flush_pending s' = flush_pending s \<and> write_buffer_locked s' = write_buffer_locked s \<and>
      (\<not> ec_failed ec \<longrightarrow> xs \<noteq> [] \<or> lb_size (read_buffer s) = max_size (read_buffer s)) \<and>
      sent w' = sent w \<and> got w' = got w @ xs \<and>
      bs_view s' h' = (fst (bs_view s h), fst (snd (bs_view s h)), snd (snd (bs_view s h)) @ xs)"
proof -
  let ?b = "read_buffer s"
  have ok: "buf_ok ?b h" using assms(2) by (simp add: bs_ok_def)
  note a = adapter_ok [OF ok]
  obtain w' ec xs b' h' where r:
    "rd (db_new ?b size_max, ?b, h) w = Some (w', ec, length xs, db_new ?b size_max, b', h')"
    "\<not> ec_failed ec \<longrightarrow> xs \<noteq> [] \<or> lb_size ?b = max_size ?b" "sent w' = sent w" "got w' = got w @ xs"
    "lb_step ?b h b' h' (content ?b h @ xs)" "lb_size b' \<le> max_size ?b"
    using assms(1) a unfolding read_dyn_ok_def by metis
  have "buf_ok b' h'" using lb_step_buf_ok [OF r(5,6)] ok by (simp add: buf_ok_def)
  then have "bs_ok (s\<lparr>read_buffer := b'\<rparr>) h'" "bs_view (s\<lparr>read_buffer := b'\<rparr>) h' =
      (fst (bs_view s h), fst (snd (bs_view s h)), content b' h')"
    using bs_ok_step(3) [OF assms(2)] r(5) unfolding lb_step_def by blast+
  moreover have "content b' h' = snd (snd (bs_view s h)) @ xs" using r(5) by (simp add: lb_step_def bs_view_def)
  moreover have "bs_fill rd (s, h, w) = Some (length xs, ec, s\<lparr>read_buffer := b'\<rparr>, h', w')"
    using r(1) by (simp add: bs_fill_def)
  ultimately show ?thesis using r by auto
qed

text \<open>A change of memory that leaves the blocks of the stream alone.\<close>

definition not_mine :: "nat \<Rightarrow> bstream \<Rightarrow> bool" where
  "not_mine i s \<longleftrightarrow> data_block (write_buffer s) \<noteq> Some i \<and> data_block (write_buffer_locked s) \<noteq> Some i \<and>
     data_block (read_buffer s) \<noteq> Some i"

lemma buf_ok_other_block:
  assumes "buf_ok b h" and "heap_ok h'" and "\<And>j. j \<noteq> i \<Longrightarrow> blocks h' j = blocks h j" and "data_block b \<noteq> Some i"
  shows "buf_ok b h' \<and> content b h' = content b h"
proof -
  have same: "blocks h' j = blocks h j" if "data_block b = Some j" for j using assms(3,4) that by auto
  then have "block_of b h' = block_of b h" by (cases "data_block b") (auto simp: block_of_def)
  then show ?thesis using assms(1,2) same by (auto simp: buf_ok_def lb_ok_def content_def)
qed

lemma bs_ok_other_block:
  assumes "bs_ok s h" and "heap_ok h'" and "\<And>j. j \<noteq> i \<Longrightarrow> blocks h' j = blocks h j" and "not_mine i s"
  shows "bs_ok s h' \<and> bs_view s h' = bs_view s h"
proof -
  note o = buf_ok_other_block [OF _ assms(2,3)]
  show ?thesis
    using o [of "write_buffer s"] o [of "write_buffer_locked s"] o [of "read_buffer s"] assms(1,4)
    by (simp add: bs_ok_def bs_view_def not_mine_def)
qed

text \<open>The bytes of the caller, in a block of their own.\<close>

definition with_block :: "cells \<Rightarrow> heap \<Rightarrow> heap" where
  "with_block xs h =
     (snd (allocate (length xs) h))\<lparr>blocks := (blocks (snd (allocate (length xs) h)))(next_id h \<mapsto> xs)\<rparr>"

lemma allocate_pair: "allocate n h = (next_id h, snd (allocate n h))"
  by (simp add: allocate_def)

lemma with_block_ok:
  assumes "bs_ok s h"
  shows "mem_write (Some (next_id h, 0)) xs (snd (allocate (length xs) h)) = Some (with_block xs h)"
    and "mem_read (Some (next_id h, 0)) (length xs) (with_block xs h) = Some xs"
    and "blocks (with_block xs h) (next_id h) = Some xs"
    and "not_mine (next_id h) s" and "bs_ok s (with_block xs h)" and "bs_view s (with_block xs h) = bs_view s h"
proof -
  have hok: "heap_ok h" using assms by (simp add: bs_ok_def buf_ok_def lb_ok_def)
  have mine: "data_block b \<noteq> Some (next_id h)" if "buf_ok b h" for b
    using that lb_ok_block [of b h "next_id h"] fresh_block [OF hok] by (auto simp: buf_ok_def)
  then show nm: "not_mine (next_id h) s" using assms by (simp add: not_mine_def bs_ok_def)
  show "mem_write (Some (next_id h, 0)) xs (snd (allocate (length xs) h)) = Some (with_block xs h)"
    by (subst mem_write_block [where cs = "replicate (length xs) None"]) (simp_all add: splice_def with_block_def)
  show "mem_read (Some (next_id h, 0)) (length xs) (with_block xs h) = Some xs"
    by (subst mem_read_block [where cs = xs]) (simp_all add: with_block_def)
  show "blocks (with_block xs h) (next_id h) = Some xs" by (simp add: with_block_def)
  have "heap_ok (with_block xs h)"
    unfolding with_block_def by (rule heap_ok_upd [OF heap_ok_allocate [OF hok]]) simp
  then show "bs_ok s (with_block xs h)" "bs_view s (with_block xs h) = bs_view s h"
    using bs_ok_other_block [OF assms _ _ nm, of "with_block xs h"] by (simp_all add: with_block_def)
qed

lemma bs_put_ok:
  assumes ok: "bs_ok s h"
  shows "if length (fst (bs_view s h)) + length xs \<le> max_size (write_buffer s)
    then \<exists>s' h'. bs_put xs s h = Some (Inr (s', h')) \<and> bs_ok s' h' \<and> flush_pending s' = flush_pending s \<and>
      write_buffer_locked s' = write_buffer_locked s \<and>
      bs_view s' h' = (fst (bs_view s h) @ xs, snd (bs_view s h))
    else bs_put xs s h = Some (Inl length_error)"
proof -
  let ?n = "length xs" and ?i = "next_id h" and ?h2 = "with_block xs h" and ?b = "write_buffer s"
  note nm = with_block_ok(4) [OF ok] and blk = with_block_ok(1-3,5,6) [OF ok, of xs]
  have b2: "lb_ok ?b ?h2" "lb_size ?b \<le> max_size ?b" "max_size ?b < size_max" "content ?b ?h2 = fst (bs_view s h)"
    using blk(4,5) by (auto simp: bs_ok_def buf_ok_def bs_view_def)
  have len: "length (fst (bs_view s h)) = lb_size ?b" using length_content [OF b2(1)] b2(4) by simp
  have out: "outside (Some (?i, 0)) ?b" using nm by (simp add: outside_def not_mine_def)
  show ?thesis
  proof (cases "length (fst (bs_view s h)) + ?n \<le> max_size ?b")
    case True
    then have n: "?n \<le> max_size ?b - lb_size ?b" using len by simp
    obtain b' h3 where a: "lb_append (Some (?i, 0)) ?n ?b ?h2 = Some (Inr (b', h3))"
      "lb_step ?b ?h2 b' h3 (content ?b ?h2 @ xs)"
      using lb_append_ok [OF b2(1) out blk(2) b2(2) n] by blast
    have st: "owns_step ?b ?h2 b' h3" "content b' h3 = fst (bs_view s h) @ xs" "lb_ok b' h3" "max_size b' = max_size ?b"
      using a(2) b2(4) by (simp_all add: lb_step_def)
    have "lb_size b' = length (content b' h3)" using length_content [OF st(3)] by simp
    then have "buf_ok b' h3" using st b2 True by (simp add: buf_ok_def)
    then have s3: "bs_ok (s\<lparr>write_buffer := b'\<rparr>) h3"
      "bs_view (s\<lparr>write_buffer := b'\<rparr>) h3 = (fst (bs_view s h) @ xs, snd (bs_view s h))"
      using bs_ok_step(1) [OF blk(4) st(1)] st(2) blk(5) by simp_all
    have nb: "data_block b' \<noteq> Some ?i"
      using st(1) blk(3) nm unfolding owns_step_def not_mine_def by (metis option.distinct(1))
    then have i3: "blocks h3 ?i = Some xs" using st(1) blk(3) nm unfolding owns_step_def not_mine_def by metis
    let ?h4 = "h3\<lparr>blocks := (blocks h3)(?i := None)\<rparr>"
    have "not_mine ?i (s\<lparr>write_buffer := b'\<rparr>)" using nb nm by (simp add: not_mine_def)
    moreover have "heap_ok ?h4" by (rule heap_ok_free) (use st(3) in \<open>simp add: lb_ok_def\<close>)
    ultimately have "bs_ok (s\<lparr>write_buffer := b'\<rparr>) ?h4"
      "bs_view (s\<lparr>write_buffer := b'\<rparr>) ?h4 = (fst (bs_view s h) @ xs, snd (bs_view s h))"
      using bs_ok_other_block [OF s3(1), of ?h4 ?i] s3(2) by simp_all
    moreover have "deallocate (Some ?i) ?n h3 = Some ?h4" using i3 by (simp add: deallocate_def)
    then have "bs_put xs s h = Some (Inr (s\<lparr>write_buffer := b'\<rparr>, ?h4))"
      using blk(1) a(1) unfolding bs_put_def by (subst allocate_pair) simp
    ultimately show ?thesis using True by auto
  next
    case False
    then have "max_size ?b - lb_size ?b < ?n" using len b2(2) by linarith
    then have "lb_append (Some (?i, 0)) ?n ?b ?h2 = Some (Inl length_error)" by (simp add: lb_append_def)
    then show ?thesis using blk(1) False unfolding bs_put_def by (subst allocate_pair) simp
  qed
qed

lemma bs_take_ok:
  assumes ok: "bs_ok s h"
  shows "\<exists>s' h'. bs_take n s h = Some (take n (snd (snd (bs_view s h))), s', h') \<and> bs_ok s' h' \<and>
    flush_pending s' = flush_pending s \<and> write_buffer_locked s' = write_buffer_locked s \<and>
    bs_view s' h' = (fst (bs_view s h), fst (snd (bs_view s h)), drop n (snd (snd (bs_view s h))))"
proof -
  let ?b = "read_buffer s"
  let ?k = "min n (lb_size ?b)"
  have b: "lb_ok ?b h" "lb_size ?b \<le> max_size ?b" "max_size ?b < size_max" "content ?b h = snd (snd (bs_view s h))"
    using ok by (auto simp: bs_ok_def buf_ok_def bs_view_def)
  have lc: "length (content ?b h) = lb_size ?b" by (rule length_content [OF b(1)])
  have "0 + ?k \<le> capacity ?b" using b(1) by (simp add: lb_ok_def min.coboundedI2)
  from read_own [OF b(1) this] have rd: "mem_read (block_ptr (data_block ?b) 0) ?k h = Some (take n (content ?b h))"
    by (simp add: content_def min.commute)
  obtain b' h' where e: "lb_erase_range 0 ?k ?b h = Some (b', h')"
    "lb_step ?b h b' h' (drop ?k (content ?b h))" "lb_size b' = lb_size ?b - ?k"
    using lb_erase_range_ok [OF b(1), of 0 ?k] by auto
  have "drop ?k (content ?b h) = drop n (content ?b h)" using lc by (auto simp: min_def)
  moreover have "buf_ok b' h'" using lb_step_buf_ok [OF e(2)] e(3) b by simp
  moreover have "owns_step ?b h b' h'" using e(2) by (simp add: lb_step_def)
  ultimately have "bs_ok (s\<lparr>read_buffer := b'\<rparr>) h'" "bs_view (s\<lparr>read_buffer := b'\<rparr>) h' =
      (fst (bs_view s h), fst (snd (bs_view s h)), drop n (snd (snd (bs_view s h))))"
    using bs_ok_step(3) [OF ok] e(2) b(4) by (simp_all add: lb_step_def)
  moreover have "bs_take n s h = Some (take n (snd (snd (bs_view s h))), s\<lparr>read_buffer := b'\<rparr>, h')"
    using rd e(1) b(4) by (simp add: bs_take_def Let_def)
  ultimately show ?thesis by simp
qed

lemma bs_new_ok:
  assumes "heap_ok h" and "alloc_max < size_max" and "bs_new alloc_max mw mr h = (s, h')"
  shows "bs_ok s h' \<and> bs_view s h' = ([], [], []) \<and> \<not> flush_pending s \<and>
    max_size (write_buffer s) = min alloc_max mw"
  using assms heap_ok_allocate [OF heap_ok_allocate [OF heap_ok_allocate [OF assms(1), of 0], of 0], of 0]
  by (auto simp: bs_new_def lb_new_sized_def allocate_def bs_ok_def buf_ok_def lb_ok_def block_of_def apart_def
      bs_view_def content_def size_max_def)

text \<open>\<^verbatim>\<open>flush\<close> with a fresh error code, and \<^verbatim>\<open>async_flush\<close>, in every case.\<close>

lemma bs_flush_ok:
  assumes wd: "write_dyn_ok sent got wd" and ok: "bs_ok s h" and np: "\<not> flush_pending s"
    and ec0: "\<not> ec_failed ec0" and v: "locked_view (bs_view s h) = (x, y, z)"
  shows "\<exists>n ec s' h' w'. bs_flush True e wd ec0 (s, h, w) = Some (n, ec, s', h', w') \<and> bs_ok s' h' \<and>
    \<not> flush_pending s' \<and> n \<le> length y \<and> (\<not> ec_failed ec \<longrightarrow> n = length y) \<and>
    sent w' = sent w @ take n y \<and> got w' = got w \<and> bs_view s' h' = (x, drop n y, z)"
proof -
  obtain s1 where s1: "lock_write_buffers True e ec0 s h = Some (True, ec0, s1, h)" "bs_ok s1 h"
    "bs_view s1 h = (x, y, z)"
    using lock_ok [OF ok np, of e ec0] v by auto
  then show ?thesis using flush_write_ok [OF wd s1(2), of w] ec0 by (simp add: bs_flush_def)
qed

lemma bs_flush_pending:
  assumes "flush_pending s"
  shows "bs_flush propagate e wd ec (s, h, w) = Some (0, ec_asio already_started, s, h, w)"
    and "bs_async_flush propagate e (s, h, w) = Some (Posted (ec_asio already_started) 0, s, h, w)"
  by (simp_all add: bs_flush_def bs_async_flush_def lock_pending [OF assms])

lemma bs_async_flush_ok:
  assumes "bs_ok s h" and "\<not> flush_pending s"
  shows "\<exists>s'. bs_async_flush True e (s, h, w) = Some (Writing (db_new (write_buffer_locked s') size_max), s', h, w) \<and>
    bs_ok s' h \<and> flush_pending s' \<and> bs_view s' h = locked_view (bs_view s h)"
  using lock_ok [OF assms, of e no_error] by (auto simp: bs_async_flush_def)

section \<open>Runs\<close>

definition run_ok ::
    "('w \<Rightarrow> cells) \<Rightarrow> ('w \<Rightarrow> cells) \<Rightarrow> cells \<Rightarrow> cells \<Rightarrow> 'w bs_state \<times> bs_log \<Rightarrow> bool" where
  "run_ok sent got sent0 got0 x \<longleftrightarrow>
     (case x of ((s, h, w), l) \<Rightarrow>
        bs_ok s h \<and> (flush_pending s \<longleftrightarrow> under_way l \<noteq> None) \<and>
        (\<forall>d. under_way l = Some d \<longrightarrow> d = db_new (write_buffer_locked s) size_max) \<and>
        (case bs_view s h of (bw, bl, br) \<Rightarrow>
           sent w @ bl @ bw = sent0 @ appended l \<and> got w = got0 @ taken l @ br))"

lemma locked_view_order:
  "locked_view v = (x, y, z) \<Longrightarrow> y @ x = fst (snd v) @ fst v \<and> z = snd (snd v)"
  by (cases v) (auto simp: locked_view_def split: if_splits)

lemma flushed_order: "t = u @ take n y \<Longrightarrow> t @ drop n y @ x = u @ y @ x"
  by (metis append.assoc append_take_drop_id)

lemma bs_step_ok:
  assumes wd: "write_dyn_ok sent got wd" and rd: "read_dyn_ok sent got rd" and x: "run_ok sent got s0 g0 x"
  shows "\<exists>y. bs_step wd rd p x = Some y \<and> run_ok sent got s0 g0 y"
proof -
  obtain s h w l where st: "x = ((s, h, w), l)" by (cases x) auto
  obtain bw bl br where v: "bs_view s h = (bw, bl, br)" by (cases "bs_view s h") auto
  have ok: "bs_ok s h" and pend: "flush_pending s \<longleftrightarrow> under_way l \<noteq> None"
    and ad: "\<And>d. under_way l = Some d \<Longrightarrow> d = db_new (write_buffer_locked s) size_max"
    and ord: "sent w @ bl @ bw = s0 @ appended l" "got w = g0 @ taken l @ br"
    using x v by (simp_all add: st run_ok_def)
  obtain cw cl cr where lv: "locked_view (bs_view s h) = (cw, cl, cr)" by (cases "locked_view (bs_view s h)") auto
  have lord: "cl @ cw = bl @ bw" "cr = br" using locked_view_order [OF lv] v by simp_all
  show ?thesis
  proof (cases p)
    case (Put xs)
    show ?thesis
      using bs_put_ok [OF ok, of xs] ok pend ad ord v
      by (cases "length bw + length xs \<le> max_size (write_buffer s)") (auto simp: st Put run_ok_def)
  next
    case Flush
    show ?thesis
    proof (cases "flush_pending s")
      case True
      then show ?thesis using x by (simp add: st Flush bs_flush_pending)
    next
      case False
      obtain n ec s' h' w' where f: "bs_flush True True wd no_error (s, h, w) = Some (n, ec, s', h', w')"
        "bs_ok s' h'" "\<not> flush_pending s'" "sent w' = sent w @ take n cl" "got w' = got w"
        "bs_view s' h' = (cw, drop n cl, cr)"
        using bs_flush_ok [OF wd ok False _ lv, of no_error True w] by auto
      then show ?thesis
        using False pend ad ord lord flushed_order [OF f(4), of cw] by (auto simp: st Flush run_ok_def)
    qed
  next
    case Start_flush
    show ?thesis
    proof (cases "flush_pending s")
      case True
      then show ?thesis using x by (simp add: st Start_flush bs_flush_pending)
    next
      case False
      then show ?thesis
        using bs_async_flush_ok [OF ok False, of True w] lv lord ord by (auto simp: st Start_flush run_ok_def)
    qed
  next
    case Flush_done
    show ?thesis
    proof (cases "under_way l")
      case None
      then show ?thesis using x by (simp add: st Flush_done)
    next
      case (Some d)
      have d: "d = db_new (write_buffer_locked s) size_max" by (rule ad [OF Some])
      obtain n ec s' h' w' where f:
        "bs_flush_write wd d (s, h, w) = Some (n, ec, s', h', w')" "bs_ok s' h'" "\<not> flush_pending s'"
        "sent w' = sent w @ take n bl" "got w' = got w" "bs_view s' h' = (bw, drop n bl, br)"
        using flush_write_ok [OF wd ok, of w] v unfolding d by auto
      then show ?thesis
        using ord flushed_order [OF f(4), of bw] by (auto simp: st Flush_done Some run_ok_def bs_flush_written_def)
    qed
  next
    case Fill
    show ?thesis
      using fill_ok [OF rd ok, of w] pend ad ord v by (auto simp: st Fill run_ok_def)
  next
    case (Take_front n)
    show ?thesis
      using bs_take_ok [OF ok, of n] pend ad ord v by (auto simp: st Take_front run_ok_def)
  qed
qed

lemma bs_run_ok:
  assumes "write_dyn_ok sent got wd" and "read_dyn_ok sent got rd" and "run_ok sent got s0 g0 x"
  shows "\<exists>y. bs_run wd rd ps x = Some y \<and> run_ok sent got s0 g0 y"
  using assms(3)
proof (induction ps arbitrary: x)
  case (Cons p ps)
  then show ?case using bs_step_ok [OF assms(1,2) Cons.prems, of p] by auto
qed simp

section \<open>Properties\<close>

text \<open>
  C11. Whatever is done with a new stream, the bytes that went to the next layer, those of the buffer
  being flushed and those of the write buffer are together the bytes appended, in order: none is
  lost, repeated or overtaken, also when a flush ends early with an error or bytes are appended while
  one is under way. The same holds for what was received and what was taken from the read buffer.
\<close>

theorem buffered_stream_keeps_order:
  assumes "heap_ok h" and "alloc_max < size_max" and "bs_new alloc_max mw mr h = (s, h1)"
    and "write_dyn_ok sent got wd" and "read_dyn_ok sent got rd"
  shows "\<exists>s' h' w' l. bs_run wd rd ps ((s, h1, w), empty_log) = Some ((s', h', w'), l) \<and>
    (flush_pending s' \<longleftrightarrow> under_way l \<noteq> None) \<and>
    (case bs_view s' h' of (bw, bl, br) \<Rightarrow>
       sent w' @ bl @ bw = sent w @ appended l \<and> got w' = got w @ taken l @ br)"
proof -
  have "run_ok sent got (sent w) (got w) ((s, h1, w), empty_log)"
    using bs_new_ok [OF assms(1-3)] by (simp add: run_ok_def empty_log_def)
  then obtain y where y: "bs_run wd rd ps ((s, h1, w), empty_log) = Some y" "run_ok sent got (sent w) (got w) y"
    using bs_run_ok [OF assms(4,5)] by blast
  obtain s' h' w' l where "y = ((s', h', w'), l)" by (cases y) auto
  then show ?thesis using y by (auto simp: run_ok_def)
qed

text \<open>
  C37. \<^verbatim>\<open>flush(ec)\<close> reports \<^verbatim>\<open>already_started\<close> while another flush is under way. Otherwise it
  writes what an earlier flush left over, or else all of the write buffer; it returns the
  number of bytes that went out and keeps the others for the next call. When \<^verbatim>\<open>ec\<close> holds an error
  before the call, nothing is written, and the stream claims from then on that a flush is under way.
\<close>

theorem flush_result:
  assumes "write_dyn_ok sent got wd" and "bs_ok s h" and "bs_view s h = (bw, bl, br)"
  shows "if flush_pending s then bs_flush True e wd ec (s, h, w) = Some (0, ec_asio already_started, s, h, w)
    else if ec_failed ec then \<exists>s'. bs_flush True e wd ec (s, h, w) = Some (0, ec, s', h, w) \<and> flush_pending s'
    else \<exists>n ec' s' h' w'. bs_flush True e wd ec (s, h, w) = Some (n, ec', s', h', w') \<and> \<not> flush_pending s' \<and>
      (let todo = (if bl = [] then bw else bl) in
         n \<le> length todo \<and> (\<not> ec_failed ec' \<longrightarrow> n = length todo) \<and> sent w' = sent w @ take n todo \<and>
         bs_view s' h' = (if bl = [] then [] else bw, drop n todo, br))"
proof -
  have lv: "locked_view (bs_view s h) = (if bl = [] then [] else bw, if bl = [] then bw else bl, br)"
    by (simp add: assms(3) locked_view_def)
  show ?thesis
  proof (cases "flush_pending s \<or> ec_failed ec")
    case True
    then show ?thesis
      using bs_flush_pending lock_ok [OF assms(2), of e ec] by (auto simp: bs_flush_def)
  next
    case False
    then have np: "\<not> flush_pending s" and ec: "\<not> ec_failed ec" by simp_all
    show ?thesis using bs_flush_ok [OF assms(1,2) np ec lv, of e w] np ec by (auto simp: Let_def)
  qed
qed

text \<open>
  C36. Two calls of \<^verbatim>\<open>flush\<close> that succeed send everything that was appended before: the first one
  sends the rest of an earlier flush, the second one the write buffer.
\<close>

theorem two_flushes_deliver:
  assumes "write_dyn_ok sent got wd" and "bs_ok s h" and "bs_view s h = (bw, bl, br)" and "\<not> flush_pending s"
    and "bs_flush True e wd no_error (s, h, w) = Some (n1, ec1, s1, h1, w1)" and "\<not> ec_failed ec1"
    and "bs_flush True e wd no_error (s1, h1, w1) = Some (n2, ec2, s2, h2, w2)" and "\<not> ec_failed ec2"
  shows "sent w2 = sent w @ bl @ bw \<and> bs_view s2 h2 = ([], [], br) \<and> n1 + n2 = length (bl @ bw)"
proof -
  obtain cw cl where lv: "locked_view (bs_view s h) = (cw, cl, br)" "cl @ cw = bl @ bw"
    using locked_view_order [of "bs_view s h"] assms(3) by (cases "locked_view (bs_view s h)") auto
  have one: "bs_ok s1 h1" "\<not> flush_pending s1" "n1 = length cl" "sent w1 = sent w @ cl" "bs_view s1 h1 = (cw, [], br)"
    using bs_flush_ok [OF assms(1,2,4) _ lv(1), of no_error e w] assms(5,6) by auto
  have lv1: "locked_view (bs_view s1 h1) = ([], cw, br)" by (simp add: one(5) locked_view_def)
  show ?thesis
    using bs_flush_ok [OF assms(1) one(1,2) _ lv1, of no_error e w1] assms(7,8) one(3,4) lv(2)
    by (auto simp: lv(2) [symmetric])
qed

section \<open>A concrete stream\<close>

text \<open>
  A next layer that takes at most three bytes at a time and then fails, and that delivers its input
  two bytes at a time.
\<close>

record layer =
  output_bytes :: cells
  input_bytes :: cells
  delivered :: cells

definition layer_write :: "layer dyn_transfer" where
  "layer_write s w =
     (let n = min 3 (length (db_readable s)) in
      map_option (\<lambda>s'. (w\<lparr>output_bytes := output_bytes w @ take n (db_readable s)\<rparr>,
          if n = length (db_readable s) then no_error else ec_asio connection_refused, n, s'))
        (db_consume n s))"

definition layer_read :: "layer dyn_transfer" where
  "layer_read s w =
     (case s of (d, b, h) \<Rightarrow>
        let n = min 2 (min (length (input_bytes w)) (db_max d - lb_size b)); xs = take n (input_bytes w) in
        (case lb_resize (lb_size b + n) b h of
           Some (Inr (b', h')) \<Rightarrow>
             map_option (\<lambda>h''. (w\<lparr>input_bytes := drop n (input_bytes w), delivered := delivered w @ xs\<rparr>,
                 if n = 0 then ec_asio eof else no_error, n, d, b', h''))
               (mem_write (block_ptr (data_block b') (lb_size b)) xs h')
         | _ \<Rightarrow> None))"

lemma layer_write_ok: "write_dyn_ok output_bytes delivered layer_write"
  unfolding write_dyn_ok_def
proof (intro allI impI)
  fix s and w :: layer assume "db_ok s"
  then obtain s' where "db_consume (min 3 (length (db_readable s))) s = Some s'"
    using db_consume_ok by blast
  then show "\<exists>w' ec n s'. layer_write s w = Some (w', ec, n, s') \<and> n \<le> length (db_readable s) \<and>
      (\<not> ec_failed ec \<longrightarrow> n = length (db_readable s)) \<and>
      output_bytes w' = output_bytes w @ take n (db_readable s) \<and> delivered w' = delivered w \<and>
      db_consume n s = Some s'"
    by (simp add: layer_write_def Let_def)
qed

lemma layer_read_ok: "read_dyn_ok output_bytes delivered layer_read"
  unfolding read_dyn_ok_def
proof (intro allI impI)
  fix d b h and w :: layer assume ok: "db_ok (d, b, h)" and "\<not> db_ready (d, b, h)"
  have b: "lb_ok b h" "db_max d \<le> max_size b" "lb_size b \<le> db_max d" using ok by (simp_all add: db_ok.simps)
  define n where "n = min 2 (min (length (input_bytes w)) (db_max d - lb_size b))"
  let ?xs = "take n (input_bytes w)"
  have nl: "n \<le> length (input_bytes w)" by (simp add: n_def)
  have "n \<le> db_max d - lb_size b" by (simp add: n_def)
  then have le: "lb_size b + n \<le> db_max d" using b(3) by linarith
  then have "lb_size b + n \<le> max_size b" using b(2) by linarith
  then obtain b1 h1 ys where r: "lb_resize (lb_size b + n) b h = Some (Inr (b1, h1))" "lb_step b h b1 h1 ys"
    "lb_size b1 = lb_size b + n" "take (lb_size b) ys = take (lb_size b + n) (content b h)"
    using lb_resize_ok [OF b(1)] by blast
  have b1: "lb_ok b1 h1" "content b1 h1 = ys" "max_size b1 = max_size b" "owns_step b h b1 h1"
    using r(2) by (simp_all add: lb_step_def)
  have lx: "length ?xs = n" using nl by simp
  have cap: "lb_size b + length ?xs \<le> capacity b1" using b1(1) r(3) lx by (simp add: lb_ok_def)
  obtain h2 where h2: "mem_write (block_ptr (data_block b1) (lb_size b)) ?xs h1 = Some h2" "lb_ok b1 h2"
    "block_of b1 h2 = splice (lb_size b) ?xs (block_of b1 h1)" "owns_step b1 h1 b1 h2"
    using write_own [OF b1(1) cap] by blast
  have "take (lb_size b) (block_of b1 h1) = take (lb_size b) ys"
    unfolding b1(2) [symmetric] content_def take_take r(3) by (simp only: min.absorb1 [OF le_add1])
  also have "\<dots> = content b h" using r(4) length_content [OF b(1)] by simp
  finally have "content b1 h2 = content b h @ ?xs"
    using h2(3) cap b1(1) r(3) lx by (simp add: content_def take_splice lb_ok_def)
  then have "lb_step b h b1 h2 (content b h @ ?xs)"
    using h2(2) b1(3) owns_step_trans [OF b1(4) h2(4)] by (simp add: lb_step_def)
  moreover have "layer_read (d, b, h) w =
      Some (w\<lparr>input_bytes := drop n (input_bytes w), delivered := delivered w @ ?xs\<rparr>,
        if n = 0 then ec_asio eof else no_error, length ?xs, d, b1, h2)"
    using r(1) h2(1) lx by (simp add: layer_read_def Let_def n_def [symmetric])
  moreover have "\<not> ec_failed (if n = 0 then ec_asio eof else no_error) \<longrightarrow> ?xs \<noteq> []" using lx by (cases n) auto
  ultimately show "\<exists>w' ec xs b' h'. layer_read (d, b, h) w = Some (w', ec, length xs, d, b', h') \<and>
      (\<not> ec_failed ec \<longrightarrow> xs \<noteq> [] \<or> lb_size b = db_max d) \<and>
      output_bytes w' = output_bytes w \<and> delivered w' = delivered w @ xs \<and>
      lb_step b h b' h' (content b h @ xs) \<and> lb_size b' \<le> db_max d"
    using r(3) le by (intro exI conjI) (assumption | simp)+
qed

text \<open>Up to three bytes are written without an error.\<close>

lemma layer_flush:
  assumes "bs_ok s h" and "bs_view s h = (bw, bl, br)" and "\<not> flush_pending s"
    and "locked_view (bs_view s h) = (x, y, z)" and "length y \<le> 3"
  shows "\<exists>n s' h' w'. bs_flush True e layer_write no_error (s, h, w) = Some (n, no_error, s', h', w') \<and>
    bs_ok s' h' \<and> \<not> flush_pending s' \<and> bs_view s' h' = (x, [], z)"
proof -
  obtain s1 where s1: "lock_write_buffers True e no_error s h = Some (True, no_error, s1, h)" "bs_ok s1 h"
    "bs_view s1 h = (x, y, z)"
    using lock_ok [OF assms(1,3), of e no_error] assms(4) by auto
  obtain n ec s' h' w' where f: "bs_flush True e layer_write no_error (s, h, w) = Some (n, ec, s', h', w')"
    "bs_ok s' h'" "\<not> flush_pending s'" "n \<le> length y" "\<not> ec_failed ec \<longrightarrow> n = length y"
    "bs_view s' h' = (x, drop n y, z)"
    using bs_flush_ok [OF layer_write_ok assms(1,3) _ assms(4), of no_error e w] by auto
  have "content (write_buffer_locked s1) h = y" using s1(3) by (simp add: bs_view_def)
  then have "db_readable (db_new (write_buffer_locked s1) size_max, write_buffer_locked s1, h) = y"
    using adapter_ok(3) [of "write_buffer_locked s1" h] s1(2) by (simp add: bs_ok_def)
  then have "ec = no_error"
    using f(1) s1(1) assms(5)
    by (auto simp: bs_flush_def bs_flush_write_def layer_write_def Let_def split: bind_splits)
  then show ?thesis using f by auto
qed

text \<open>A stream with two bytes left over from a flush and one byte appended since.\<close>

definition stream0 :: bstream where
  "stream0 =
     \<lparr>flush_pending = False,
      write_buffer = \<lparr>data_block = Some 3, capacity = 2, lb_size = 1, max_size = 9\<rparr>,
      write_buffer_locked = \<lparr>data_block = Some 4, capacity = 2, lb_size = 2, max_size = 9\<rparr>,
      read_buffer = \<lparr>data_block = Some 5, capacity = 0, lb_size = 0, max_size = 9\<rparr>\<rparr>"

definition stream_mem :: heap where
  "stream_mem =
     \<lparr>blocks = [3 \<mapsto> [Some 7, None], 4 \<mapsto> [Some 5, Some 6], 5 \<mapsto> []], next_id = 6, null_frees = 0\<rparr>"

definition layer0 :: layer where
  "layer0 = \<lparr>output_bytes = [], input_bytes = [Some 1, Some 2, Some 3], delivered = []\<rparr>"

lemma stream0_ok: "bs_ok stream0 stream_mem" "bs_view stream0 stream_mem = ([Some 7], [Some 5, Some 6], [])"
  by (auto simp: stream0_def stream_mem_def bs_ok_def buf_ok_def lb_ok_def heap_ok_def block_of_def apart_def
      size_max_def bs_view_def content_def)

lemma small_limit: "(100::nat) < 2 ^ 64 - 1"
  by simp

theorem buffered_stream_keeps_order_witness:
  "\<exists>s h1 s' h' w' l bw bl br. bs_new 100 9 9 stream_mem = (s, h1) \<and>
     bs_run layer_write layer_read
       [Put [Some 1, Some 2, Some 3, Some 4], Flush, Put [Some 5], Start_flush, Put [Some 6], Flush_done, Fill]
       ((s, h1, layer0), empty_log) = Some ((s', h', w'), l) \<and>
     bs_view s' h' = (bw, bl, br) \<and> output_bytes w' @ bl @ bw = appended l \<and> delivered w' = taken l @ br"
proof -
  obtain s h1 where n: "bs_new 100 9 9 stream_mem = (s, h1)" by fastforce
  have "heap_ok stream_mem" using stream0_ok(1) by (simp add: bs_ok_def buf_ok_def lb_ok_def)
  then obtain s' h' w' l where r: "bs_run layer_write layer_read
       [Put [Some 1, Some 2, Some 3, Some 4], Flush, Put [Some 5], Start_flush, Put [Some 6], Flush_done, Fill]
       ((s, h1, layer0), empty_log) = Some ((s', h', w'), l)"
    "case bs_view s' h' of (bw, bl, br) \<Rightarrow>
       output_bytes w' @ bl @ bw = output_bytes layer0 @ appended l \<and> delivered w' = delivered layer0 @ taken l @ br"
    using buffered_stream_keeps_order [OF _ _ n layer_write_ok layer_read_ok] by (metis size_max_def small_limit)
  obtain bw bl br where "bs_view s' h' = (bw, bl, br)" by (cases "bs_view s' h'") auto
  then show ?thesis using n r by (simp add: layer0_def del: bs_run.simps)
qed

theorem flush_result_witness:
  "(\<exists>s'. bs_flush True True layer_write (ec_asio eof) (stream0, stream_mem, layer0) =
      Some (0, ec_asio eof, s', stream_mem, layer0) \<and> flush_pending s') \<and>
   (\<exists>n ec' s' h' w'. bs_flush True True layer_write no_error (stream0, stream_mem, layer0) =
      Some (n, ec', s', h', w') \<and> n \<le> 2 \<and> bs_view s' h' = ([Some 7], drop n [Some 5, Some 6], []))"
proof -
  have np: "\<not> flush_pending stream0" by (simp add: stream0_def)
  obtain n ec' s' h' w' where
    "bs_flush True True layer_write no_error (stream0, stream_mem, layer0) = Some (n, ec', s', h', w')"
    "n \<le> 2" "bs_view s' h' = ([Some 7], drop n [Some 5, Some 6], [])"
    using flush_result [OF layer_write_ok stream0_ok, of True no_error layer0] np by (auto simp: Let_def)
  moreover have "\<exists>s'. bs_flush True True layer_write (ec_asio eof) (stream0, stream_mem, layer0) =
      Some (0, ec_asio eof, s', stream_mem, layer0) \<and> flush_pending s'"
    using flush_result [OF layer_write_ok stream0_ok, of True "ec_asio eof" layer0] np by simp
  ultimately show ?thesis by blast
qed

theorem two_flushes_deliver_witness:
  "\<exists>n1 s1 h1 w1 n2 s2 h2 w2.
     bs_flush True True layer_write no_error (stream0, stream_mem, layer0) = Some (n1, no_error, s1, h1, w1) \<and>
     bs_flush True True layer_write no_error (s1, h1, w1) = Some (n2, no_error, s2, h2, w2) \<and>
     output_bytes w2 = [Some 5, Some 6, Some 7]"
proof -
  obtain n1 s1 h1 w1 where f1:
    "bs_flush True True layer_write no_error (stream0, stream_mem, layer0) = Some (n1, no_error, s1, h1, w1)"
    "bs_ok s1 h1" "\<not> flush_pending s1" "bs_view s1 h1 = ([Some 7], [], [])"
    using layer_flush [OF stream0_ok, of "[Some 7]" "[Some 5, Some 6]" "[]" True layer0]
    by (auto simp: stream0_ok(2) locked_view_def) (auto simp: stream0_def)
  obtain n2 s2 h2 w2 where f2:
    "bs_flush True True layer_write no_error (s1, h1, w1) = Some (n2, no_error, s2, h2, w2)"
    using layer_flush [OF f1(2,4,3), of "[]" "[Some 7]" "[]" True w1] by (auto simp: f1(4) locked_view_def)
  have np: "\<not> flush_pending stream0" by (simp add: stream0_def)
  have "output_bytes w2 = [Some 5, Some 6, Some 7]"
    using two_flushes_deliver [OF layer_write_ok stream0_ok np f1(1) _ f2] by (simp add: layer0_def)
  then show ?thesis using f1(1) f2 by blast
qed

text \<open>
  With an allocator that does not propagate on move assignment the first swap of a flush does not
  return, because the move assignment of the buffers does not.
\<close>

lemma lock_hangs_without_propagation:
  assumes "\<not> flush_pending s" and "lb_size (write_buffer_locked s) = 0" and "lb_size (write_buffer s) \<noteq> 0"
  shows "lock_write_buffers False True ec s h = None"
  using assms
  by (simp add: lock_write_buffers_def lb_swap_def lb_move_def lb_move_assign_def move_assign_false_equal)

end
