(* ===== verification/Connect.thy ===== *)
theory Connect
  imports Prelude
begin

text \<open>
  \<^verbatim>\<open>connect()\<close> and \<^verbatim>\<open>async_connect()\<close> on the name of a host (\<^verbatim>\<open>connect.hpp\<close>,
  \<^verbatim>\<open>impl/connect.cpp\<close>). The resolver and the socket are those of asio, so their operations are
  arguments: functions on the state \<open>'w\<close> of the program that give an error code.
\<close>

section \<open>The functions\<close>

record ('w, 'e) net =
  net_resolve :: "string \<Rightarrow> string \<Rightarrow> u32 \<Rightarrow> 'w \<Rightarrow> 'w \<times> error_code \<times> 'e list"
  net_close :: "'w \<Rightarrow> 'w \<times> error_code"
  net_connect :: "'e \<Rightarrow> 'w \<Rightarrow> 'w \<times> error_code"

text \<open>The loop over the results; \<open>ec\<close> is what the variable holds before the next round.\<close>

fun connect_loop :: "('w, 'e) net \<Rightarrow> 'e list \<Rightarrow> error_code \<Rightarrow> 'w \<Rightarrow> 'w \<times> error_code" where
  "connect_loop N [] ec w = (w, ec)"
| "connect_loop N (entry # results) ec w =
     (case net_close N w of (w, ec) \<Rightarrow>
        (case net_connect N entry w of (w, ec) \<Rightarrow>
           if \<not> ec_failed ec then (w, ec) else connect_loop N results ec w))"

definition connect_ec :: "('w, 'e) net \<Rightarrow> string \<Rightarrow> string \<Rightarrow> u32 \<Rightarrow> 'w \<Rightarrow> 'w \<times> error_code" where
  "connect_ec N host service resolve_flags w =
     (case net_resolve N host service resolve_flags w of
        (w, ec, results) \<Rightarrow>
          if ec_failed ec then (w, ec)
          else connect_loop N results (ec_asio host_not_found) w)"

definition connect_throwing :: "('w, 'e) net \<Rightarrow> string \<Rightarrow> string \<Rightarrow> u32 \<Rightarrow> 'w \<Rightarrow> 'w \<times> (cxx_exception + unit)" where
  "connect_throwing N host service resolve_flags w =
     (case connect_ec N host service resolve_flags w of
        (w, ec) \<Rightarrow> (w, throw_error ec ''connect'' ()))"

section \<open>The asynchronous operation\<close>

text \<open>
  \<^verbatim>\<open>connect_op\<close> is called by \<^verbatim>\<open>async_compose\<close> without arguments first, and then with
  the result of what it started. Its members are the arguments of \<^verbatim>\<open>async_connect\<close>; a
  default-constructed endpoint is \<open>None\<close>.
\<close>

record connect_op =
  op_host :: string
  op_service :: string
  op_flags :: u32

datatype 'e connect_action =
    Async_resolve string string u32
  | Async_connect "'e list"
  | Complete_connect error_code "'e option"

definition connect_op_start :: "connect_op \<Rightarrow> 'e connect_action" where
  "connect_op_start op = Async_resolve (op_host op) (op_service op) (op_flags op)"

definition connect_op_resolved :: "connect_op \<Rightarrow> error_code \<Rightarrow> 'e list \<Rightarrow> 'e connect_action" where
  "connect_op_resolved op ec results =
     (if \<not> ec_failed ec then Async_connect results else Complete_connect ec None)"

definition connect_op_connected :: "connect_op \<Rightarrow> error_code \<Rightarrow> 'e option \<Rightarrow> 'e connect_action" where
  "connect_op_connected op ec ep = Complete_connect ec ep"

text \<open>
  The run of the operation: each action is carried out and its result handed to the next call. \<open>ac\<close>
  is \<^verbatim>\<open>asio::async_connect\<close> on a range of endpoints. The operation starts at most three actions.
\<close>

type_synonym ('w, 'e) range_connect = "'e list \<Rightarrow> 'w \<Rightarrow> 'w \<times> error_code \<times> 'e option"

fun run_connect ::
    "('w, 'e) net \<Rightarrow> ('w, 'e) range_connect \<Rightarrow> connect_op \<Rightarrow> nat \<Rightarrow> 'e connect_action \<Rightarrow> 'w
      \<Rightarrow> ('w \<times> error_code \<times> 'e option) option" where
  "run_connect N ac op fuel (Complete_connect ec ep) w = Some (w, ec, ep)"
| "run_connect N ac op 0 action w = None"
| "run_connect N ac op (Suc n) (Async_resolve host service flags) w =
     (case net_resolve N host service flags w of (w, ec, results) \<Rightarrow>
        run_connect N ac op n (connect_op_resolved op ec results) w)"
| "run_connect N ac op (Suc n) (Async_connect results) w =
     (case ac results w of (w, ec, ep) \<Rightarrow> run_connect N ac op n (connect_op_connected op ec ep) w)"

definition async_connect ::
    "('w, 'e) net \<Rightarrow> ('w, 'e) range_connect \<Rightarrow> string \<Rightarrow> string \<Rightarrow> u32 \<Rightarrow> 'w
      \<Rightarrow> ('w \<times> error_code \<times> 'e option) option" where
  "async_connect N ac host service resolve_flags w =
     (let op = \<lparr>op_host = host, op_service = service, op_flags = resolve_flags\<rparr>
      in run_connect N ac op 2 (connect_op_start op) w)"

section \<open>Attempts\<close>

text \<open>One attempt at an endpoint, and the state after a number of attempts.\<close>

definition attempt :: "('w, 'e) net \<Rightarrow> 'e \<Rightarrow> 'w \<Rightarrow> 'w \<times> error_code" where
  "attempt N e w = net_connect N e (fst (net_close N w))"

definition after :: "('w, 'e) net \<Rightarrow> 'e list \<Rightarrow> 'w \<Rightarrow> 'w" where
  "after N es w = fold (\<lambda>e w. fst (attempt N e w)) es w"

text \<open>All the endpoints refuse, each in the state its turn finds.\<close>

fun all_fail :: "('w, 'e) net \<Rightarrow> 'e list \<Rightarrow> 'w \<Rightarrow> bool" where
  "all_fail N [] w = True"
| "all_fail N (e # es) w = (ec_failed (snd (attempt N e w)) \<and> all_fail N es (fst (attempt N e w)))"

lemma connect_loop_Cons:
  "connect_loop N (e # es) ec w =
     (if ec_failed (snd (attempt N e w)) then connect_loop N es (snd (attempt N e w)) (fst (attempt N e w))
      else attempt N e w)"
  by (auto simp: attempt_def split: prod.splits)

declare connect_loop.simps(2) [simp del]
declare connect_loop_Cons [simp]

lemma after_simps [simp]:
  "after N [] w = w"
  "after N (e # es) w = after N es (fst (attempt N e w))"
  by (simp_all add: after_def)

lemma connect_loop_attempts:
  "es \<noteq> [] \<Longrightarrow> \<exists>pre e post. es = pre @ e # post \<and> all_fail N pre w \<and>
     connect_loop N es ec w = attempt N e (after N pre w) \<and>
     (ec_failed (snd (attempt N e (after N pre w))) \<longrightarrow> post = [])"
proof (induction es arbitrary: w ec)
  case (Cons e es)
  show ?case
  proof (cases "ec_failed (snd (attempt N e w)) \<and> es \<noteq> []")
    case True
    then obtain pre f post where p: "es = pre @ f # post" "all_fail N pre (fst (attempt N e w))"
      "connect_loop N es (snd (attempt N e w)) (fst (attempt N e w)) = attempt N f (after N pre (fst (attempt N e w)))"
      "ec_failed (snd (attempt N f (after N pre (fst (attempt N e w))))) \<longrightarrow> post = []"
      using Cons.IH by blast
    then show ?thesis using True by (intro exI [of _ "e # pre"] exI [of _ f] exI [of _ post]) simp
  next
    case False
    then show ?thesis by (intro exI [of _ "[]"] exI [of _ e] exI [of _ es]) auto
  qed
qed simp

lemma connect_loop_fails:
  "ec_failed ec \<Longrightarrow> ec_failed (snd (connect_loop N es ec w)) \<longleftrightarrow> all_fail N es w"
  by (induction es arbitrary: ec w) auto

section \<open>Properties\<close>

text \<open>
  C26. \<^verbatim>\<open>connect\<close> does nothing more when the name is not resolved. Else it closes the socket and
  connects it to the endpoints in their order, stops at the first one that accepts, and reports no
  error exactly if there is such a one; otherwise it reports the last error, or
  \<^verbatim>\<open>host_not_found\<close> for an empty list. The other overload throws exactly these errors.
\<close>

theorem connect_tries_in_order:
  assumes "net_resolve N host service flags w = (w0, ec0, results)"
    and "connect_ec N host service flags w = (w1, ec)"
  shows "connect_throwing N host service flags w =
      (w1, if ec_failed ec then Inl (system_error ec ''connect'') else Inr ())
    \<and> (if ec_failed ec0 then w1 = w0 \<and> ec = ec0
       else if results = [] then w1 = w0 \<and> ec = ec_asio host_not_found
       else (ec_failed ec \<longleftrightarrow> all_fail N results w0) \<and>
         (\<exists>pre e post. results = pre @ e # post \<and> all_fail N pre w0 \<and>
            attempt N e (after N pre w0) = (w1, ec) \<and> (ec_failed ec \<longrightarrow> post = [])))"
proof (cases "ec_failed ec0 \<or> results = []")
  case True
  then show ?thesis using assms by (auto simp: connect_ec_def connect_throwing_def throw_error_def)
next
  case False
  then have r: "connect_loop N results (ec_asio host_not_found) w0 = (w1, ec)"
    using assms by (simp add: connect_ec_def)
  obtain pre e post where p: "results = pre @ e # post" "all_fail N pre w0" "attempt N e (after N pre w0) = (w1, ec)"
    "ec_failed ec \<longrightarrow> post = []"
    using connect_loop_attempts [of results N w0 "ec_asio host_not_found"] r False
    by (metis snd_conv)
  have "ec_failed ec \<longleftrightarrow> all_fail N results w0"
    using connect_loop_fails [of "ec_asio host_not_found" N results w0] r by simp
  then show ?thesis
    using False p assms(2) by (auto simp: connect_throwing_def throw_error_def)
qed

text \<open>A host with three addresses, the second of which accepts. The state counts the attempts.\<close>

definition sample_net :: "(nat list, nat) net" where
  "sample_net =
     \<lparr>net_resolve = \<lambda>h s f w. if h = ''a'' then (w, no_error, [3, 4, 5]) else (w, ec_asio host_not_found, []),
      net_close = \<lambda>w. (w, no_error),
      net_connect = \<lambda>e w. (w @ [e], if e = 4 then no_error else ec_asio connection_refused)\<rparr>"

theorem connect_tries_in_order_witness:
  "connect_throwing sample_net ''a'' ''80'' 0 [] = ([3, 4], Inr ()) \<and>
     \<not> all_fail sample_net [3, 4, 5] []"
proof -
  have r: "net_resolve sample_net ''a'' ''80'' 0 [] = ([], no_error, [3, 4, 5])"
    by (simp add: sample_net_def)
  have c: "connect_ec sample_net ''a'' ''80'' 0 [] = ([3, 4], no_error)"
    by (simp add: connect_ec_def sample_net_def attempt_def)
  show ?thesis using connect_tries_in_order [OF r c] by simp
qed

text \<open>
  What asio says of \<^verbatim>\<open>async_connect\<close> on a range: the socket is closed and connected to each
  endpoint in order until one accepts, whose endpoint is the result; \<^verbatim>\<open>not_found\<close> for an empty
  range, else the last error.
\<close>

definition asio_connect_ok :: "('w, 'e) net \<Rightarrow> ('w, 'e) range_connect \<Rightarrow> bool" where
  "asio_connect_ok N ac \<longleftrightarrow>
     (\<forall>w. ac [] w = (w, ec_asio not_found, None)) \<and>
     (\<forall>e es w. ac (e # es) w =
        (case attempt N e w of (w, ec) \<Rightarrow>
           if \<not> ec_failed ec then (w, ec, Some e)
           else if es = [] then (w, ec, None) else ac es w))"

lemma asio_connect_agrees:
  assumes "asio_connect_ok N ac" and "es \<noteq> []"
  shows "(\<exists>ep. ac es w = (fst (connect_loop N es ec w), snd (connect_loop N es ec w), ep) \<and>
    (if ec_failed (snd (connect_loop N es ec w)) then ep = None else \<exists>e \<in> set es. ep = Some e))"
  using assms(2)
proof (induction es arbitrary: w ec)
  case (Cons e es)
  have ac: "ac (e # es) w =
      (case attempt N e w of (w, ec) \<Rightarrow>
         if \<not> ec_failed ec then (w, ec, Some e) else if es = [] then (w, ec, None) else ac es w)"
    using assms(1) by (simp add: asio_connect_ok_def)
  show ?case
  proof (cases "ec_failed (snd (attempt N e w)) \<and> es \<noteq> []")
    case True
    then show ?thesis
      using Cons.IH [of "fst (attempt N e w)" "snd (attempt N e w)"] ac by (auto split: prod.splits)
  next
    case False
    then show ?thesis using ac by (auto split: prod.splits)
  qed
qed simp

text \<open>
  C27. \<^verbatim>\<open>async_connect\<close> completes, after at most two operations, with the error and the state of
  the synchronous function, and with the endpoint exactly on success. The two differ on a name that
  resolves to nothing: the error is \<^verbatim>\<open>not_found\<close> here.
\<close>

theorem async_connect_agrees:
  assumes "asio_connect_ok N ac" and "net_resolve N host service flags w = (w0, ec0, results)"
    and "connect_ec N host service flags w = (w1, ec)"
  shows "\<exists>ep. async_connect N ac host service flags w =
      Some (w1, if \<not> ec_failed ec0 \<and> results = [] then ec_asio not_found else ec, ep) \<and>
    (if ec_failed ec then ep = None else \<exists>e \<in> set results. ep = Some e)"
proof (cases "ec_failed ec0 \<or> results = []")
  case True
  then show ?thesis
    using assms
    by (auto simp: async_connect_def connect_op_start_def connect_op_resolved_def connect_op_connected_def
        connect_ec_def asio_connect_ok_def numeral_2_eq_2 split: if_splits)
next
  case False
  then have l: "connect_loop N results (ec_asio host_not_found) w0 = (w1, ec)"
    using assms(2,3) by (simp add: connect_ec_def)
  have "\<exists>ep. ac results w0 = (w1, ec, ep) \<and>
      (if ec_failed ec then ep = None else \<exists>e \<in> set results. ep = Some e)"
    using asio_connect_agrees [OF assms(1), of results w0 "ec_asio host_not_found"] False l by simp
  then show ?thesis
    using False assms(2)
    by (auto simp: async_connect_def connect_op_start_def connect_op_resolved_def connect_op_connected_def
        numeral_2_eq_2)
qed

fun range_loop :: "('w, 'e) net \<Rightarrow> ('w, 'e) range_connect" where
  "range_loop N [] w = (w, ec_asio not_found, None)"
| "range_loop N (e # es) w =
     (case attempt N e w of (w, ec) \<Rightarrow>
        if \<not> ec_failed ec then (w, ec, Some e)
        else if es = [] then (w, ec, None) else range_loop N es w)"

theorem async_connect_agrees_witness:
  "\<exists>ep. async_connect sample_net (range_loop sample_net) ''a'' ''80'' 0 [] = Some ([3, 4], no_error, ep) \<and>
     (\<exists>e \<in> {3, 4, 5}. ep = Some e)"
proof -
  have ok: "asio_connect_ok sample_net (range_loop sample_net)" by (simp add: asio_connect_ok_def)
  have r: "net_resolve sample_net ''a'' ''80'' 0 [] = ([], no_error, [3, 4, 5])"
    by (simp add: sample_net_def)
  have c: "connect_ec sample_net ''a'' ''80'' 0 [] = ([3, 4], no_error)"
    by (simp add: connect_ec_def sample_net_def attempt_def)
  show ?thesis using async_connect_agrees [OF ok r c] by simp
qed

end
