(* ===== verification/ErrorMessages.thy ===== *)
theory ErrorMessages
  imports Prelude
begin

text \<open>
  The error categories of the library: \<^verbatim>\<open>impl/error.cpp\<close> for \<^verbatim>\<open>url_error\<close> and
  \<^verbatim>\<open>socks/impl/socks_error.cpp\<close> for the errors of the SOCKS client. A category is asked for
  the text of an integer, which need not be the value of an error.
\<close>

section \<open>Values\<close>

text \<open>The enumerators have the values 0, 1, 2 and so on, in the order they are declared.\<close>

fun url_error_value :: "url_error \<Rightarrow> int" where
  "url_error_value url_none = 0"
| "url_error_value invalid_character = 1"
| "url_error_value missing_host = 2"
| "url_error_value port_overflow = 3"

fun socks_error_value :: "socks_error \<Rightarrow> int" where
  "socks_error_value socks_none = 0"
| "socks_error_value invalid_version = 1"
| "socks_error_value no_acceptable_auth_method = 2"
| "socks_error_value invalid_auth_version = 3"
| "socks_error_value login_failed = 4"
| "socks_error_value command_not_supported = 5"
| "socks_error_value identd_not_reachable = 6"
| "socks_error_value generic = 7"

text \<open>Enumerations are ordered by their values.\<close>

lemma url_error_value_inj: "url_error_value e = url_error_value f \<longleftrightarrow> e = f"
  by (cases e; cases f) simp_all

lemma socks_error_value_inj: "socks_error_value e = socks_error_value f \<longleftrightarrow> e = f"
  by (cases e; cases f) simp_all

instantiation url_error :: linorder
begin

definition less_eq_url_error :: "url_error \<Rightarrow> url_error \<Rightarrow> bool" where
  "e \<le> f \<longleftrightarrow> url_error_value e \<le> url_error_value f"

definition less_url_error :: "url_error \<Rightarrow> url_error \<Rightarrow> bool" where
  "e < f \<longleftrightarrow> url_error_value e < url_error_value f"

instance
  by standard (auto simp: less_eq_url_error_def less_url_error_def url_error_value_inj [symmetric])

end

instantiation socks_error :: linorder
begin

definition less_eq_socks_error :: "socks_error \<Rightarrow> socks_error \<Rightarrow> bool" where
  "e \<le> f \<longleftrightarrow> socks_error_value e \<le> socks_error_value f"

definition less_socks_error :: "socks_error \<Rightarrow> socks_error \<Rightarrow> bool" where
  "e < f \<longleftrightarrow> socks_error_value e < socks_error_value f"

instance
  by standard (auto simp: less_eq_socks_error_def less_socks_error_def socks_error_value_inj [symmetric])

end

section \<open>Names and messages\<close>

definition url_category_name :: string where
  "url_category_name = ''asioext''"

definition url_error_message :: "int \<Rightarrow> string" where
  "url_error_message value =
     (if value = 0 then ''none''
      else if value = 1 then ''invalid_character''
      else if value = 2 then ''missing_host''
      else if value = 3 then ''port_overflow''
      else ''unknown'')"

definition socks_category_name :: string where
  "socks_category_name = ''asioext.socks''"

definition socks_error_message :: "int \<Rightarrow> string" where
  "socks_error_message value =
     (if value = 0 then ''none''
      else if value = 1 then ''invalid_version''
      else if value = 2 then ''no_acceptable_auth_method''
      else if value = 3 then ''invalid_auth_version''
      else if value = 4 then ''login_failed''
      else if value = 5 then ''command_not_supported''
      else if value = 6 then ''identd_not_reachable''
      else if value = 7 then ''generic''
      else ''unknown'')"

text \<open>\<^verbatim>\<open>make_error_code\<close> of the two enumerations, and the pair a code stands for.\<close>

definition make_url_error_code :: "url_error \<Rightarrow> error_code" where
  "make_url_error_code e = ec_url e"

definition make_socks_error_code :: "socks_error \<Rightarrow> error_code" where
  "make_socks_error_code e = ec_socks e"

section \<open>Facts\<close>

lemma ec_failed_url: "ec_failed (make_url_error_code e) \<longleftrightarrow> url_error_value e \<noteq> 0"
  by (cases e) (simp_all add: make_url_error_code_def)

lemma ec_failed_socks: "ec_failed (make_socks_error_code e) \<longleftrightarrow> socks_error_value e \<noteq> 0"
  by (cases e) (simp_all add: make_socks_error_code_def)

section \<open>The contract of a category\<close>

text \<open>
  A category gives every error a text of its own, and the text \<^verbatim>\<open>unknown\<close> to the integers that are
  not the value of an error.
\<close>

locale error_category =
  fixes val :: "'e \<Rightarrow> int"
    and msg :: "int \<Rightarrow> string"
  assumes val_inj: "val e = val f \<Longrightarrow> e = f"
    and msg_inj: "msg (val e) = msg (val f) \<Longrightarrow> e = f"
    and msg_known: "msg (val e) \<noteq> ''unknown''"
    and msg_other: "(\<And>e. val e \<noteq> v) \<Longrightarrow> msg v = ''unknown''"
begin

lemma unknown_iff: "msg v = ''unknown'' \<longleftrightarrow> (\<forall>e. val e \<noteq> v)"
  using msg_known msg_other by blast

text \<open>The text of an error determines its value, so it can be read back.\<close>

lemma msg_determines: "msg v = msg (val e) \<longleftrightarrow> v = val e"
proof
  assume eq: "msg v = msg (val e)"
  then have "\<exists>f. val f = v" using unknown_iff [of v] msg_known [of e] by auto
  then show "v = val e" using eq msg_inj by blast
qed simp

end

lemma url_value_cases: "(\<And>e. url_error_value e \<noteq> v) \<Longrightarrow> v \<notin> {0, 1, 2, 3}"
  by (metis empty_iff insert_iff url_error_value.simps)

lemma socks_value_cases: "(\<And>e. socks_error_value e \<noteq> v) \<Longrightarrow> v \<notin> {0, 1, 2, 3, 4, 5, 6, 7}"
  by (metis empty_iff insert_iff socks_error_value.simps)

interpretation url_category: error_category url_error_value url_error_message
proof unfold_locales
  fix e f assume "url_error_message (url_error_value e) = url_error_message (url_error_value f)"
  then show "e = f" by (cases e; cases f) (simp_all add: url_error_message_def)
next
  fix e show "url_error_message (url_error_value e) \<noteq> ''unknown''"
    by (cases e) (simp_all add: url_error_message_def)
next
  fix v assume "\<And>e. url_error_value e \<noteq> v"
  from url_value_cases [OF this] show "url_error_message v = ''unknown''" by (simp add: url_error_message_def)
qed (simp add: url_error_value_inj)

interpretation socks_category: error_category socks_error_value socks_error_message
proof unfold_locales
  fix e f assume "socks_error_message (socks_error_value e) = socks_error_message (socks_error_value f)"
  then show "e = f" by (cases e; cases f) (simp_all add: socks_error_message_def)
next
  fix e show "socks_error_message (socks_error_value e) \<noteq> ''unknown''"
    by (cases e) (simp_all add: socks_error_message_def)
next
  fix v assume "\<And>e. socks_error_value e \<noteq> v"
  from socks_value_cases [OF this] show "socks_error_message v = ''unknown''"
    by (simp add: socks_error_message_def)
qed (simp add: socks_error_value_inj)

end
