(* ===== verification/ThreadGroup.thy ===== *)
theory ThreadGroup
  imports Prelude "HOL-Library.Monad_Syntax"
begin

text \<open>
  \<^verbatim>\<open>detail::thread_group\<close> (\<^verbatim>\<open>detail/thread_group.hpp\<close>): threads in a singly linked list
  of nodes, which \<^verbatim>\<open>join\<close> walks from the newest one on. The nodes are memory; a result \<open>None\<close> is
  undefined behaviour, or a loop that does not end.
\<close>

section \<open>The class\<close>

record node =
  node_thread :: nat
  node_prev :: "nat option"

text \<open>\<open>started\<close> and \<open>joined\<close> are the threads in the order they were started and joined.\<close>

record group_state =
  nodes :: "nat \<Rightarrow> node option"
  next_node :: nat
  last_node :: "nat option"
  started :: "nat list"
  joined :: "nat list"

definition thread_group_new :: "group_state \<Rightarrow> group_state" where
  "thread_group_new g = g\<lparr>last_node := None\<rparr>"

text \<open>A new thread gets the next number.\<close>

definition create_thread :: "group_state \<Rightarrow> group_state" where
  "create_thread g =
     (let t = length (started g); n = next_node g in
      g\<lparr>nodes := (nodes g)(n \<mapsto> \<lparr>node_thread = t, node_prev = last_node g\<rparr>), next_node := Suc n,
        last_node := Some n, started := started g @ [t]\<rparr>)"

fun create_threads :: "nat \<Rightarrow> group_state \<Rightarrow> group_state" where
  "create_threads 0 g = g"
| "create_threads (Suc n) g = create_threads n (create_thread g)"

partial_function (option) join_threads :: "group_state \<Rightarrow> group_state option" where
  "join_threads g =
     (case last_node g of
        None \<Rightarrow> Some g
      | Some cur \<Rightarrow>
          (case nodes g cur of
             None \<Rightarrow> None
           | Some nd \<Rightarrow>
               (let g = g\<lparr>joined := joined g @ [node_thread nd]\<rparr>;
                    g = g\<lparr>last_node := node_prev nd\<rparr>;
                    g = g\<lparr>nodes := (nodes g)(cur := None)\<rparr>
                in join_threads g)))"

declare join_threads.simps [code]

definition thread_group_destroy :: "group_state \<Rightarrow> group_state option" where
  "thread_group_destroy g = join_threads g"

section \<open>Facts\<close>

text \<open>The list of a group, from the newest node on, with the threads in it.\<close>

fun chain :: "(nat \<Rightarrow> node option) \<Rightarrow> nat option \<Rightarrow> (nat \<times> nat) list \<Rightarrow> bool" where
  "chain m p [] \<longleftrightarrow> p = None"
| "chain m p ((n, t) # xs) \<longleftrightarrow>
     p = Some n \<and> (\<exists>q. m n = Some \<lparr>node_thread = t, node_prev = q\<rparr> \<and> chain m q xs)"

definition group_ok :: "group_state \<Rightarrow> (nat \<times> nat) list \<Rightarrow> bool" where
  "group_ok g xs \<longleftrightarrow>
     chain (nodes g) (last_node g) xs \<and> distinct (map fst xs) \<and> dom (nodes g) = fst ` set xs \<and>
     (\<forall>n \<in> fst ` set xs. n < next_node g)"

lemma chain_other: "chain m p xs \<Longrightarrow> n \<notin> fst ` set xs \<Longrightarrow> chain (m(n := v)) p xs"
  by (induction m p xs rule: chain.induct) auto

lemma create_thread_ok:
  assumes "group_ok g xs"
  shows "group_ok (create_thread g) ((next_node g, length (started g)) # xs)"
proof -
  have "next_node g \<notin> fst ` set xs" using assms by (auto simp: group_ok_def)
  then show ?thesis
    using assms chain_other [of "nodes g" "last_node g" xs "next_node g"]
    by (auto simp: group_ok_def create_thread_def Let_def less_Suc_eq)
qed

lemma create_threads_ok:
  assumes "group_ok g xs"
  shows "\<exists>ys. group_ok (create_threads n g) (ys @ xs) \<and>
    map snd ys = rev [length (started g) ..< length (started g) + n] \<and>
    joined (create_threads n g) = joined g"
  using assms
proof (induction n arbitrary: g xs)
  case (Suc n)
  obtain ys where ys: "group_ok (create_threads (Suc n) g) (ys @ (next_node g, length (started g)) # xs)"
    "map snd ys = rev [Suc (length (started g)) ..< length (started g) + Suc n]"
    "joined (create_threads (Suc n) g) = joined g"
    using Suc.IH [OF create_thread_ok [OF Suc.prems]] by (auto simp: create_thread_def Let_def)
  then show ?case
    by (intro exI [of _ "ys @ [(next_node g, length (started g))]"]) (simp add: upt_conv_Cons)
qed (auto intro: exI [of _ "[]"])

lemma join_threads_ok:
  "group_ok g xs \<Longrightarrow>
     \<exists>g'. join_threads g = Some g' \<and> joined g' = joined g @ map snd xs \<and> nodes g' = (\<lambda>_. None) \<and> last_node g' = None"
proof (induction xs arbitrary: g)
  case Nil
  then show ?case by (subst join_threads.simps) (auto simp: group_ok_def)
next
  case (Cons x xs)
  obtain n t where x: "x = (n, t)" by (cases x)
  obtain q where q: "last_node g = Some n" "nodes g n = Some \<lparr>node_thread = t, node_prev = q\<rparr>" "chain (nodes g) q xs"
    using Cons.prems by (auto simp: group_ok_def x)
  let ?g = "g\<lparr>joined := joined g @ [t], last_node := q, nodes := (nodes g)(n := None)\<rparr>"
  have "n \<notin> fst ` set xs" using Cons.prems by (auto simp: group_ok_def x)
  then have "group_ok ?g xs"
    using Cons.prems chain_other [OF q(3), of n] by (auto simp: group_ok_def x)
  from Cons.IH [OF this] show ?case
    by (subst join_threads.simps) (simp add: q x Let_def)
qed

section \<open>Properties\<close>

text \<open>
  C38. Joining ends and joins every thread of the group once, the newest first; no node is used after
  it was deleted and none is left. The destructor does the same, so no thread outlives the group.
\<close>

theorem join_joins_all:
  assumes "group_ok g []"
  shows "\<exists>g'. thread_group_destroy (create_threads n g) = Some g' \<and>
    joined g' = joined g @ rev [length (started g) ..< length (started g) + n] \<and>
    nodes g' = (\<lambda>_. None) \<and> last_node g' = None"
proof -
  obtain ys where "group_ok (create_threads n g) ys" "map snd ys = rev [length (started g) ..< length (started g) + n]"
    "joined (create_threads n g) = joined g"
    using create_threads_ok [OF assms, of n] by auto
  then show ?thesis using join_threads_ok [of "create_threads n g" ys] by (auto simp: thread_group_destroy_def)
qed

theorem join_joins_all_witness:
  "\<exists>g'. thread_group_destroy (create_threads 3
      \<lparr>nodes = \<lambda>_. None, next_node = 5, last_node = None, started = [], joined = []\<rparr>) = Some g' \<and>
    joined g' = [2, 1, 0] \<and> nodes g' = (\<lambda>_. None)"
  using join_joins_all [of "\<lparr>nodes = \<lambda>_. None, next_node = 5, last_node = None, started = [], joined = []\<rparr>" 3]
  by (auto simp: group_ok_def numeral_3_eq_3 upt_rec)

end
