(* ===== verification/Spec2Isabelle.thy ===== *)
theory Spec2Isabelle
  imports UrlView BufferPrograms SocksCorrect AsyncFiles BasicFile PathOverloads WinFileCorrect
    UniqueHandler Composed BufferedStream Connect ErrorMessages ThreadGroup
begin

text \<open>
  Verification of asio-extensions, a C++ library of utilities for Asio: files with synchronous and
  asynchronous operations, a URL parser, growing byte buffers, a SOCKS client, and helpers for
  completion handlers. The sources are under \<^verbatim>\<open>src/include/asioext\<close>; file names below are relative
  to it.

  \<^bold>\<open>Conventions.\<close> A class is a record of its members, an enumeration a datatype or, for bit masks,
  a word. A function that may throw gives a sum whose left side is the exception; the overload with
  an \<^verbatim>\<open>error_code\<close> gives that code. Where a result is an \<open>option\<close>, \<open>None\<close> is undefined behaviour or a
  call that does not return, so that a theorem that gives \<open>Some\<close> also excludes these. Objects that
  may be aliased (both operands of an assignment, blocks of memory, nodes of lists, control blocks of
  shared pointers) live in explicit stores. The system calls, the numbers of system headers, and the
  functions of Asio are arguments of the definitions; what the theorems need of them is a named
  hypothesis with a concrete instance next to it. Programs over a class are lists of operations or
  step relations, and the invariants hold for all of them.

  \<^bold>\<open>The parts, and where they are.\<close>

  \<^item> \<open>Prelude\<close>: sizes with their wrap-around, error codes (\<^verbatim>\<open>error.hpp\<close>, \<^verbatim>\<open>socks/error.hpp\<close>),
    exceptions and \<^verbatim>\<open>throw_error\<close>. \<open>Programs\<close>: lists of calls and the locale \<open>simulation\<close>, the
    contract of a call that makes a class behave as its specification in every program.
    \<open>ErrorMessages\<close>: the two error categories
    (\<^verbatim>\<open>impl/error.cpp\<close>, \<^verbatim>\<open>socks/impl/socks_error.cpp\<close>).
  \<^item> \<open>UrlParser\<close> (\<^verbatim>\<open>detail/impl/url_parser.cpp\<close>): character tables, the automaton, the pointer loop and
    the authority parser. \<open>UrlSpec\<close> has a specification without pointers, \<open>UrlAuthority\<close> and
    \<open>UrlCorrect\<close> the proof that the parser computes it, the round trip and the bounds; \<open>UrlView\<close> is
    the class on top (\<^verbatim>\<open>url_view.hpp\<close>).
  \<^item> \<open>ByteHeap\<close>, \<open>LinearBuffer\<close>, \<open>DynamicBuffer\<close> (\<^verbatim>\<open>linear_buffer.hpp\<close>, \<^verbatim>\<open>impl/linear_buffer.hpp\<close>):
    memory blocks, the buffer class and its DynamicBuffer adapter, whose interface is the locale
    \<open>dynamic_buffer\<close>; \<open>BufferCorrect\<close> has their properties, \<open>BufferPrograms\<close> those of
    programs over many buffers in one memory, for allocators that propagate on move assignment and
    for those that do not; the programs keep to a contract that \<open>permitted\<close> decides. \<open>BufferedStream\<close>
    (\<^verbatim>\<open>experimental/buffered_stream.hpp\<close>) puts three buffers around a stream.
  \<^item> \<open>SocksProtocol\<close>, \<open>SocksClient\<close>, \<open>SocksCorrect\<close> (\<^verbatim>\<open>socks/\<close>): the packets, the composed operations as
    coroutines against any server, and what they send and when they succeed. The operations are
    proved over the interface of the buffers and instantiated with the library's own.
  \<^item> \<open>FileFlags\<close>, \<open>Chrono\<close>, \<open>PosixOps\<close>, \<open>FileHandle\<close>, \<open>UniqueHandle\<close>, \<open>WholeFile\<close>: open flags,
    permissions and attributes; time conversions, for representation types of 32 and 64 bits, with
    the narrowing casts between them; the POSIX operations with their repeated calls
    (\<^verbatim>\<open>detail/impl/posix_file_ops.cpp\<close>); handles and the functions that make them; the owning handle;
    and \<^verbatim>\<open>read_file\<close> and \<^verbatim>\<open>write_file\<close> on top of all of these. \<open>FileContent\<close> gives handles
    their specification: files that are lists of bytes, with one position per handle; its theorem is
    an instance of \<open>simulation\<close>.
  \<^item> \<open>WinFileOps\<close>, \<open>WinFileCorrect\<close>: the same layer in the Windows build
    (\<^verbatim>\<open>detail/impl/win_file_ops.cpp\<close>, \<^verbatim>\<open>detail/impl/win_path.cpp\<close>, \<^verbatim>\<open>impl/file_handle_win.*\<close>).
  \<^item> \<open>CancelTokens\<close>, \<open>Links\<close>, \<open>FileService\<close>, \<open>FileServiceCorrect\<close>, \<open>BasicFile\<close>: cancellation tokens
    over shared pointers, doubly linked lists, the thread pool service with its list of
    implementations and its queued operations, and \<^verbatim>\<open>basic_file\<close>, the class users see.
    \<open>AsyncFiles\<close> puts the service, the tokens and the abstract files together: what a queued operation
    does to the bytes of its file.
    \<open>PathOverloads\<close> has the overloads of all of these for paths.
  \<^item> \<open>UniqueHandler\<close> (\<^verbatim>\<open>unique_handler.hpp\<close>), \<open>Composed\<close> (\<^verbatim>\<open>compose.hpp\<close>, \<^verbatim>\<open>bind_handler.hpp\<close>,
    \<^verbatim>\<open>work.hpp\<close>), \<open>Connect\<close> (\<^verbatim>\<open>connect.hpp\<close>), \<open>ThreadGroup\<close> (\<^verbatim>\<open>detail/thread_group.hpp\<close>): helpers for
    handlers, work guards, connections and threads.

  \<^bold>\<open>What is shown.\<close> Functional equivalence or refinement: \<^verbatim>\<open>parse_url\<close> against its specification, the
  buffers against lists, values and queues, the buffered stream against one queue per direction, tokens and
  queued file operations against an abstract account of who can still cancel them,
  \<^verbatim>\<open>unique_handler\<close> against plain values, programs over open handles against abstract files that the
  handles share, \<^verbatim>\<open>read_file\<close> and \<^verbatim>\<open>write_file\<close> against the content of a
  file, \<^verbatim>\<open>async_connect\<close> against \<^verbatim>\<open>connect\<close>. Invariants over all programs: no descriptor is closed
  twice, lost or used after it was closed; in programs that keep their files a queued operation acts
  on the file that can cancel it, or aborts; every buffer is well formed and alone owns its block, and no
  block is lost but by move assignments with an allocator that propagates, which leak (as with
  \<^verbatim>\<open>std::allocator\<close>); each list of implementations is well formed; each handler
  is used once and its storage released before. Round trips: URLs, the SOCKS packets, bytes
  written at an offset, attributes, times. Termination: repeated system calls, the shutdown of the
  service with the calls of \<^verbatim>\<open>close()\<close> that it makes, joining threads. Error
  behaviour: what a failed constructor, a failed flush or a refusal of a server leaves behind. A
  number of theorems state what the code does where that is not what it is meant to do, for example
  an insertion into a buffer without reallocation, or a limit of times that wraps around.

  \<^bold>\<open>Fuel and bounds.\<close> Loops over text, lists and trees are structural or have a measure. The loops that
  need not end are \<open>partial_function\<close>s (a repeated system call, the move assignment of a buffer, the
  joining of threads, the shutdown of the service), and that they end is proved where it holds.
  \<open>Connect.run_connect\<close> has fuel 2, the number of operations it can start; the theorem on it says that
  this is enough. Sizes are 64 bits wide, \<open>SIZE_MAX\<close> is a marker only where the source uses it as one.

  \<^bold>\<open>Not modelled.\<close> The headers that only configure the build or rename facilities of Asio and the
  standard library (\<^verbatim>\<open>detail/config.hpp\<close>, \<^verbatim>\<open>async_result.hpp\<close>, \<^verbatim>\<open>detail/memory.hpp\<close>,
  \<^verbatim>\<open>detail/buffer_sequence_adapter.hpp\<close>, \<^verbatim>\<open>execution_context.hpp\<close> and others): they have no behaviour
  of their own. The allocation hooks of \<^verbatim>\<open>associated_allocator.hpp\<close> and of the handlers forward to the
  wrapped handler. The failure of allocations in the buffers and handlers, and races between threads
  on one object, which the library excludes by contract: a step is atomic. The assignment of a
  handler to \<^verbatim>\<open>unique_handler\<close>, which cannot be instantiated.
\<close>

end
